(* ===== verification/Prelude.thy ===== *)
theory Prelude
  imports Main "HOL-Library.Word" "HOL-Library.AList"
begin

text \<open>
  Shared vocabulary of the development.

  \<^item> C++ failures as values: \<open>cpp_error\<close> has one constructor per exception class the source
    throws, one for undefined behaviour and one for \<open>std::terminate\<close>, which ends the process
    and which no handler catches; a fallible function returns \<open>'a result\<close>, and a
    member function that may throw after it has changed its object returns the result together
    with the object it leaves behind (a C++ exception does not roll the object back).
  \<^item> \<open>std::unordered_set\<close> and \<open>std::unordered_map\<close> as lists without repeated keys: emplace
    (which keeps an entry that is already there), insert-or-assign, erase, at. The order in
    which a hash table is iterated depends on its bucket layout, which the source does not
    control; \<open>*begin()\<close> therefore takes a number from outside, and every element of
    the container is the answer for some number.
  \<^item> Lemmas about these containers, collected in \<open>container_simps\<close>.
\<close>

section \<open>Errors\<close>

datatype cpp_error =
    Runtime_error string
  | Out_of_range string
  | Invalid_argument string
  | Undefined_behaviour string
  | Terminate string

type_synonym 'a result = "cpp_error + 'a"

type_synonym byte = "8 word"
type_synonym u32 = "32 word"
type_synonym u64 = "64 word"
type_synonym bytes = "byte list"

definition is_ok :: "'a result \<Rightarrow> bool" where
  "is_ok r = (case r of Inl _ \<Rightarrow> False | Inr _ \<Rightarrow> True)"

lemma is_ok_simps [simp]: "is_ok (Inl e) = False" "is_ok (Inr x) = True"
  by (simp_all add: is_ok_def)

lemma is_ok_ex: "is_ok r \<longleftrightarrow> (\<exists>x. r = Inr x)"
  by (cases r) simp_all

text \<open>
  \<open>catch (const std::exception& e)\<close> with a new \<open>runtime_error\<close> that puts a text before \<open>e.what()\<close>;
  undefined behaviour and \<open>terminate\<close> are no exceptions.
\<close>

fun is_exception :: "cpp_error \<Rightarrow> bool" where
  "is_exception (Undefined_behaviour s) \<longleftrightarrow> False"
| "is_exception (Terminate s) \<longleftrightarrow> False"
| "is_exception e \<longleftrightarrow> True"

fun wrap_error :: "string \<Rightarrow> cpp_error \<Rightarrow> cpp_error" where
  "wrap_error prefix (Runtime_error s) = Runtime_error (prefix @ s)"
| "wrap_error prefix (Out_of_range s) = Runtime_error (prefix @ s)"
| "wrap_error prefix (Invalid_argument s) = Runtime_error (prefix @ s)"
| "wrap_error prefix e = e"

text \<open>
  Sequencing of two members of an object: the second runs on the object the first leaves,
  unless the first threw.
\<close>

definition and_then :: "'a result \<times> 's \<Rightarrow> ('a \<Rightarrow> 's \<Rightarrow> 'b result \<times> 's) \<Rightarrow> 'b result \<times> 's" where
  "and_then m k = (case m of (Inl e, s) \<Rightarrow> (Inl e, s) | (Inr x, s) \<Rightarrow> k x s)"

lemma and_then_simps [simp]:
  "and_then (Inl e, s) k = (Inl e, s)"
  "and_then (Inr x, s) k = k x s"
  by (simp_all add: and_then_def)

lemma and_then_ok:
  "is_ok (fst (and_then m k)) \<longleftrightarrow> (\<exists>x s. m = (Inr x, s) \<and> is_ok (fst (k x s)))"
  by (cases m; cases "fst m") (auto simp: and_then_def)

lemma and_then_inv:
  "P (snd m) \<Longrightarrow> (\<And>x s. m = (Inr x, s) \<Longrightarrow> P s \<Longrightarrow> P (snd (k x s))) \<Longrightarrow> P (snd (and_then m k))"
  by (cases m; cases "fst m") auto

lemma and_then_Inr:
  "and_then m k = (Inr y, t) \<longleftrightarrow> (\<exists>x s. m = (Inr x, s) \<and> k x s = (Inr y, t))"
  by (cases m; cases "fst m") auto

text \<open>Sequencing of functions that change no object, and checked reads of a vector.\<close>

definition bind_result :: "'a result \<Rightarrow> ('a \<Rightarrow> 'b result) \<Rightarrow> 'b result" where
  "bind_result m k = (case m of Inl e \<Rightarrow> Inl e | Inr x \<Rightarrow> k x)"

lemma bind_result_simps [simp]:
  "bind_result (Inl e) k = Inl e"
  "bind_result (Inr x) k = k x"
  by (simp_all add: bind_result_def)

lemma bind_result_Inr: "bind_result m k = Inr y \<longleftrightarrow> (\<exists>x. m = Inr x \<and> k x = Inr y)"
  by (cases m) auto

definition vec_index :: "'a list \<Rightarrow> nat \<Rightarrow> 'a result" where
  "vec_index xs i = (if i < length xs then Inr (xs ! i) else Inl (Undefined_behaviour ''vector index''))"

definition vec_at :: "'a list \<Rightarrow> nat \<Rightarrow> 'a result" where
  "vec_at xs i = (if i < length xs then Inr (xs ! i) else Inl (Out_of_range ''vector::_M_range_check''))"

lemma vec_index_Inr [simp]: "vec_index xs i = Inr x \<longleftrightarrow> i < length xs \<and> x = xs ! i"
  by (auto simp: vec_index_def)

lemma vec_at_Inr [simp]: "vec_at xs i = Inr x \<longleftrightarrow> i < length xs \<and> x = xs ! i"
  by (auto simp: vec_at_def)

fun map_result :: "('a \<Rightarrow> 'b result) \<Rightarrow> 'a list \<Rightarrow> 'b list result" where
  "map_result f [] = Inr []"
| "map_result f (x # xs) = bind_result (f x) (\<lambda>y. map_sum id ((#) y) (map_result f xs))"

lemma map_result_Inr: "map_result f xs = Inr ys \<longleftrightarrow> list_all2 (\<lambda>x y. f x = Inr y) xs ys"
proof (induction xs arbitrary: ys)
  case (Cons x xs)
  then show ?case
    by (cases "map_result f xs") (auto simp: bind_result_Inr list_all2_Cons1)
qed auto

lemma map_sum_Inr: "map_sum f g x = Inr y \<longleftrightarrow> (\<exists>z. x = Inr z \<and> y = g z)"
  by (cases x) auto

section \<open>Unordered containers\<close>

named_theorems container_simps "operations of the unordered containers"

text \<open>\<open>*begin()\<close> of a container whose iteration order is not specified.\<close>

definition begin_of :: "nat \<Rightarrow> 'a list \<Rightarrow> 'a" where
  "begin_of n xs = xs ! (n mod length xs)"

definition set_emplace :: "'a \<Rightarrow> 'a list \<Rightarrow> 'a list" where
  "set_emplace x xs = (if x \<in> set xs then xs else x # xs)"

definition set_erase :: "'a \<Rightarrow> 'a list \<Rightarrow> 'a list" where
  "set_erase x xs = filter (\<lambda>y. y \<noteq> x) xs"

type_synonym ('k, 'v) umap = "('k \<times> 'v) list"

definition map_contains :: "'k \<Rightarrow> ('k, 'v) umap \<Rightarrow> bool" where
  "map_contains k m = (k \<in> fst ` set m)"

definition map_emplace :: "'k \<Rightarrow> 'v \<Rightarrow> ('k, 'v) umap \<Rightarrow> ('k, 'v) umap" where
  "map_emplace k v m = (if map_contains k m then m else (k, v) # m)"

definition map_assign :: "'k \<Rightarrow> 'v \<Rightarrow> ('k, 'v) umap \<Rightarrow> ('k, 'v) umap" where
  "map_assign k v m = AList.update k v m"

definition map_erase :: "'k \<Rightarrow> ('k, 'v) umap \<Rightarrow> ('k, 'v) umap" where
  "map_erase k m = filter (\<lambda>e. fst e \<noteq> k) m"

definition map_at :: "'k \<Rightarrow> ('k, 'v) umap \<Rightarrow> 'v result" where
  "map_at k m = (case map_of m k of None \<Rightarrow> Inl (Out_of_range ''unordered_map::at'') | Some v \<Rightarrow> Inr v)"

abbreviation keys_distinct :: "('k, 'v) umap \<Rightarrow> bool" where
  "keys_distinct m \<equiv> distinct (map fst m)"

lemma begin_of_in [simp, intro]: "xs \<noteq> [] \<Longrightarrow> begin_of n xs \<in> set xs"
  by (simp add: begin_of_def)

lemma begin_of_covers: "x \<in> set xs \<Longrightarrow> \<exists>n. begin_of n xs = x"
  by (metis begin_of_def in_set_conv_nth mod_less)

lemma begin_of_single [simp]: "begin_of n [x] = x"
  by (simp add: begin_of_def)

lemma set_set_emplace [container_simps, simp]: "set (set_emplace x xs) = insert x (set xs)"
  by (auto simp: set_emplace_def)

lemma distinct_set_emplace [simp]: "distinct xs \<Longrightarrow> distinct (set_emplace x xs)"
  by (simp add: set_emplace_def)

lemma set_set_erase [container_simps, simp]: "set (set_erase x xs) = set xs - {x}"
  by (auto simp: set_erase_def)

lemma distinct_set_erase [simp]: "distinct xs \<Longrightarrow> distinct (set_erase x xs)"
  by (simp add: set_erase_def)

lemma length_set_erase: "distinct xs \<Longrightarrow> x \<in> set xs \<Longrightarrow> length (set_erase x xs) = length xs - 1"
proof -
  assume d: "distinct xs" and x: "x \<in> set xs"
  have "length (set_erase x xs) = card (set (set_erase x xs))"
    using d by (simp add: distinct_card del: set_set_erase)
  also have "\<dots> = card (set xs) - 1"
    using x by simp
  finally show ?thesis using d by (simp add: distinct_card)
qed

lemma map_contains_iff: "map_contains k m \<longleftrightarrow> map_of m k \<noteq> None"
  by (simp add: map_contains_def map_of_eq_None_iff)

lemma map_contains_dom: "map_contains k m \<longleftrightarrow> k \<in> dom (map_of m)"
  by (simp add: map_contains_iff dom_def)

lemma map_of_assign [container_simps, simp]: "map_of (map_assign k v m) = (map_of m)(k \<mapsto> v)"
  by (simp add: map_assign_def update_conv')

lemma keys_assign [simp]: "keys_distinct m \<Longrightarrow> keys_distinct (map_assign k v m)"
  by (simp add: map_assign_def distinct_update)

lemma map_of_erase [container_simps, simp]: "map_of (map_erase k m) = (map_of m)(k := None)"
  by (rule ext) (induction m, auto simp: map_erase_def)

lemma keys_erase [simp]: "keys_distinct m \<Longrightarrow> keys_distinct (map_erase k m)"
  by (simp add: map_erase_def distinct_map_filter)

lemma map_of_emplace [container_simps]:
  "map_of (map_emplace k v m) = (if map_contains k m then map_of m else (map_of m)(k \<mapsto> v))"
  by (simp add: map_emplace_def)

lemma map_of_emplace_new [container_simps, simp]:
  "\<not> map_contains k m \<Longrightarrow> map_of (map_emplace k v m) = (map_of m)(k \<mapsto> v)"
  by (simp add: map_emplace_def)

lemma map_emplace_present [simp]: "map_contains k m \<Longrightarrow> map_emplace k v m = m"
  by (simp add: map_emplace_def)

lemma keys_emplace [simp]: "keys_distinct m \<Longrightarrow> keys_distinct (map_emplace k v m)"
  by (auto simp: map_emplace_def map_contains_def)

lemma map_contains_erase [container_simps, simp]:
  "map_contains k (map_erase k' m) \<longleftrightarrow> k \<noteq> k' \<and> map_contains k m"
  by (simp add: map_contains_iff)

lemma map_contains_emplace [container_simps, simp]:
  "map_contains k (map_emplace k' v m) \<longleftrightarrow> k = k' \<or> map_contains k m"
  by (simp add: map_contains_iff map_of_emplace)

lemma map_contains_assign [container_simps, simp]:
  "map_contains k (map_assign k' v m) \<longleftrightarrow> k = k' \<or> map_contains k m"
  by (simp add: map_contains_iff)

lemma map_at_Inr [simp]: "map_at k m = Inr v \<longleftrightarrow> map_of m k = Some v"
  by (simp add: map_at_def split: option.splits)

lemma map_at_is_ok [simp]: "is_ok (map_at k m) \<longleftrightarrow> map_contains k m"
  by (simp add: map_at_def map_contains_iff split: option.splits)

lemma map_at_absent: "\<not> map_contains k m \<Longrightarrow> map_at k m = Inl (Out_of_range ''unordered_map::at'')"
  by (simp add: map_at_def map_contains_iff)

lemma map_contains_Nil [simp]: "\<not> map_contains k []"
  by (simp add: map_contains_def)

section \<open>Numbers\<close>

lemma mult_of_mod_sub: "(m::nat) - m mod k = k * (m div k)"
  by (simp add: minus_mod_eq_mult_div)

lemma dvd_sub_mod: "k dvd (m::nat) - m mod k"
  by (simp add: mult_of_mod_sub)

section \<open>Decimal output of numbers\<close>

fun nat_str :: "nat \<Rightarrow> string" where
  "nat_str n = (if n < 10 then [''0123456789'' ! n] else nat_str (n div 10) @ [''0123456789'' ! (n mod 10)])"

declare nat_str.simps [simp del]

definition int_str :: "int \<Rightarrow> string" where
  "int_str i = (if i < 0 then ''-'' @ nat_str (nat (- i)) else nat_str (nat i))"

section \<open>pagmo's thread safety levels\<close>

text \<open>The enumerators of \<open>pagmo::thread_safety\<close>, ordered as they are declared.\<close>

datatype thread_safety = Safety_none | Safety_basic | Safety_constant

fun safety_rank :: "thread_safety \<Rightarrow> nat" where
  "safety_rank Safety_none = 0"
| "safety_rank Safety_basic = 1"
| "safety_rank Safety_constant = 2"

lemma safety_rank_inj: "safety_rank s = safety_rank t \<longleftrightarrow> s = t"
  by (cases s; cases t) simp_all

instantiation thread_safety :: linorder
begin

definition less_eq_thread_safety :: "thread_safety \<Rightarrow> thread_safety \<Rightarrow> bool" where
  "less_eq_thread_safety s t \<longleftrightarrow> safety_rank s \<le> safety_rank t"

definition less_thread_safety :: "thread_safety \<Rightarrow> thread_safety \<Rightarrow> bool" where
  "less_thread_safety s t \<longleftrightarrow> safety_rank s < safety_rank t"

instance
  by standard (auto simp: less_eq_thread_safety_def less_thread_safety_def safety_rank_inj)

end

lemma safety_less_basic: "s < Safety_basic \<longleftrightarrow> s = Safety_none"
  by (cases s) (simp_all add: less_thread_safety_def)

section \<open>POSIX paths\<close>

text \<open>\<open>std::filesystem::path::operator/\<close> on POSIX paths.\<close>

definition path_append :: "string \<Rightarrow> string \<Rightarrow> string" where
  "path_append p q =
    (if q \<noteq> [] \<and> hd q = CHR ''/'' then q
     else if p = [] \<or> last p = CHR ''/'' then p @ q
     else p @ ''/'' @ q)"

text \<open>
  \<open>filename()\<close> and \<open>parent_path()\<close>; several slashes at the root count as one.
\<close>

definition path_filename :: "string \<Rightarrow> string" where
  "path_filename p = rev (takeWhile (\<lambda>c. c \<noteq> CHR ''/'') (rev p))"

definition path_parent :: "string \<Rightarrow> string" where
  "path_parent p =
    (let d = dropWhile (\<lambda>c. c \<noteq> CHR ''/'') (rev p); stripped = dropWhile (\<lambda>c. c = CHR ''/'') d
     in if d = [] then [] else if stripped = [] then ''/'' else rev stripped)"

lemma path_filename_plain [simp]: "CHR ''/'' \<notin> set (path_filename p)"
  by (auto simp: path_filename_def dest: set_takeWhileD)

lemma path_parent_cases: "path_parent p = [] \<or> path_parent p = ''/'' \<or> last (path_parent p) \<noteq> CHR ''/''"
proof -
  let ?d = "dropWhile (\<lambda>c. c \<noteq> CHR ''/'') (rev p)"
  have "hd (dropWhile (\<lambda>c. c = CHR ''/'') ?d) \<noteq> CHR ''/''" if "dropWhile (\<lambda>c. c = CHR ''/'') ?d \<noteq> []"
    using hd_dropWhile [OF that] by simp
  then show ?thesis by (simp add: path_parent_def Let_def last_rev)
qed

text \<open>A file in a directory: its name and its parent.\<close>

lemma path_append_split:
  assumes "CHR ''/'' \<notin> set n" and "n \<noteq> []" and "p = [] \<or> p = ''/'' \<or> last p \<noteq> CHR ''/''"
  shows "path_filename (path_append p n) = n \<and> path_parent (path_append p n) = p"
proof -
  have hd: "hd n \<noteq> CHR ''/''" and all: "\<forall>c \<in> set (rev n). c \<noteq> CHR ''/''" using assms(1,2) by (auto dest: hd_in_set)
  have take: "takeWhile (\<lambda>c. c \<noteq> CHR ''/'') (rev n @ q) = rev n @ takeWhile (\<lambda>c. c \<noteq> CHR ''/'') q"
    and drop: "dropWhile (\<lambda>c. c \<noteq> CHR ''/'') (rev n @ q) = dropWhile (\<lambda>c. c \<noteq> CHR ''/'') q" for q
    by (rule takeWhile_append2 dropWhile_append2; use all in blast)+
  consider "p = []" | "p = ''/''" | (dir) "p \<noteq> []" "last p \<noteq> CHR ''/''" using assms(3) by fastforce
  then show ?thesis
  proof cases
    case 1
    have all_name: "takeWhile (\<lambda>c. c \<noteq> CHR ''/'') (rev n) = rev n" "dropWhile (\<lambda>c. c \<noteq> CHR ''/'') (rev n) = []"
      using take [of "[]"] drop [of "[]"] by simp_all
    show ?thesis using 1 hd by (simp add: path_append_def path_filename_def path_parent_def Let_def all_name)
  next
    case 2
    then show ?thesis using hd assms(2) take drop
      by (simp add: path_append_def path_filename_def path_parent_def Let_def)
  next
    case dir
    then have "dropWhile (\<lambda>c. c = CHR ''/'') (rev p) = rev p" "rev p \<noteq> []"
      by (cases p rule: rev_cases; simp)+
    then show ?thesis using hd assms(2) take drop dir
      by (simp add: path_append_def path_filename_def path_parent_def Let_def)
  qed
qed

end
