(* ===== verification/Cache_Contract.thy ===== *)
theory Cache_Contract
  imports Prelude
begin

text \<open>
  What the users of a bounded key-value cache (\<open>hash_cache\<close> and \<open>udp_registry\<close> in
  \<^verbatim>\<open>src/distributed/discovery\<close>) rely on: a lookup sees what was put last, a hit leaves the
  contents alone, and the cache may forget an entry at any \<open>put\<close> but never changes one. The
  lemmas of the contract say that a cache whose entries all satisfy a predicate keeps that
  property under every operation.
\<close>

definition coherent :: "(string \<Rightarrow> 'v \<Rightarrow> bool) \<Rightarrow> (string \<rightharpoonup> 'v) \<Rightarrow> bool" where
  "coherent P m \<longleftrightarrow> (\<forall>k v. m k = Some v \<longrightarrow> P k v)"

lemma coherentD: "coherent P m \<Longrightarrow> m k = Some v \<Longrightarrow> P k v"
  by (simp add: coherent_def)

lemma coherentI: "(\<And>k v. m k = Some v \<Longrightarrow> P k v) \<Longrightarrow> coherent P m"
  by (simp add: coherent_def)

lemma coherent_empty [simp]: "coherent P (\<lambda>_. None)"
  by (simp add: coherent_def)

lemma coherent_drop: "coherent P m \<Longrightarrow> coherent P (m(k := None))"
  by (simp add: coherent_def)

lemma coherent_upd: "coherent P m \<Longrightarrow> P k v \<Longrightarrow> coherent P (m(k \<mapsto> v))"
  by (simp add: coherent_def)

lemma coherent_weaken:
  "coherent P m \<Longrightarrow> (\<And>k v. m k = Some v \<Longrightarrow> P k v \<Longrightarrow> Q k v) \<Longrightarrow> coherent Q m"
  by (simp add: coherent_def)

lemma coherent_mono: "coherent P m \<Longrightarrow> (\<And>k v. P k v \<Longrightarrow> Q k v) \<Longrightarrow> coherent Q m"
  by (simp add: coherent_def)

locale key_cache =
  fixes inv :: "'c \<Rightarrow> bool"
    and lookup :: "'c \<Rightarrow> string \<Rightarrow> 'v option"
    and contains :: "string \<Rightarrow> 'c \<Rightarrow> bool"
    and get :: "string \<Rightarrow> 'c \<Rightarrow> 'v result \<times> 'c"
    and put :: "string \<Rightarrow> 'v \<Rightarrow> 'c \<Rightarrow> unit result \<times> 'c"
    and erase :: "string \<Rightarrow> 'c \<Rightarrow> 'c"
    and clear :: "'c \<Rightarrow> 'c"
  assumes contains_lookup: "inv c \<Longrightarrow> contains k c \<longleftrightarrow> lookup c k \<noteq> None"
    and get_hit: "inv c \<Longrightarrow> lookup c k = Some v \<Longrightarrow> fst (get k c) = Inr v"
    and get_keeps: "inv c \<Longrightarrow> inv (snd (get k c)) \<and> lookup (snd (get k c)) = lookup c"
    and get_miss: "inv c \<Longrightarrow> lookup c k = None \<Longrightarrow> \<not> is_ok (fst (get k c))"
    and put_succeeds: "inv c \<Longrightarrow> fst (put k v c) = Inr () \<and> inv (snd (put k v c))"
    and put_lookup: "inv c \<Longrightarrow> lookup (snd (put k v c)) k = Some v"
    and put_other: "inv c \<Longrightarrow> k' \<noteq> k \<Longrightarrow> lookup (snd (put k v c)) k' \<in> {None, lookup c k'}"
    and erase_spec: "inv c \<Longrightarrow> inv (erase k c) \<and> lookup (erase k c) = (lookup c)(k := None)"
    and clear_spec: "inv c \<Longrightarrow> inv (clear c) \<and> lookup (clear c) = (\<lambda>_. None)"
begin

lemma coherent_put:
  assumes "inv c" and "coherent P (lookup c)" and "P k v"
  shows "coherent P (lookup (snd (put k v c)))"
proof (rule coherentI)
  fix k' v'
  assume l: "lookup (snd (put k v c)) k' = Some v'"
  show "P k' v'"
  proof (cases "k' = k")
    case True
    with l put_lookup [OF assms(1)] assms(3) show ?thesis by simp
  next
    case False
    from put_other [OF assms(1) this, of v] l assms(2) show ?thesis
      by (auto intro: coherentD dest: sym)
  qed
qed

lemma coherent_get: "inv c \<Longrightarrow> coherent P (lookup c) \<Longrightarrow> coherent P (lookup (snd (get k c)))"
  by (simp add: get_keeps)

lemma coherent_erase: "inv c \<Longrightarrow> coherent P (lookup c) \<Longrightarrow> coherent P (lookup (erase k c))"
  by (simp add: erase_spec coherent_drop)

text \<open>A hit answers with a value that has the property.\<close>

lemma get_coherent:
  "inv c \<Longrightarrow> coherent P (lookup c) \<Longrightarrow> contains k c \<Longrightarrow> \<exists>v. fst (get k c) = Inr v \<and> lookup c k = Some v \<and> P k v"
  by (auto simp: contains_lookup dest: coherentD get_hit)

text \<open>Erasing a key re-establishes a property that only that key may have lost.\<close>

lemma coherent_erase_key:
  assumes "inv c" and "\<And>k' v. k' \<noteq> k \<Longrightarrow> lookup c k' = Some v \<Longrightarrow> P k' v"
  shows "coherent P (lookup (erase k c))"
  using assms by (auto simp: erase_spec coherent_def)

lemmas contract = contains_lookup get_keeps put_succeeds put_lookup erase_spec clear_spec

end

end
