(* ===== verification/Lru_Cache.thy ===== *)
theory Lru_Cache
  imports Cache_Contract
begin

text \<open>
  \<^verbatim>\<open>src/distributed/discovery/include/lru_cache.h\<close>: the cache that keeps the most recently used
  entries. The source holds a \<open>std::list\<close> of pairs, most recent first, and a hash map from
  keys to list iterators. An iterator is modelled by the number of the list node it points to;
  a node that is not in the list any more is a dangling iterator, and following it is undefined
  behaviour.

  The theory defines the class, its invariant (map and list agree), a specification on plain
  association lists, and proves that every member function refines its specification. The
  contract that the users of a cache rely on is the locale \<open>key_cache\<close>, interpreted at the
  end on the class.
\<close>

section \<open>The class\<close>

type_synonym node = nat

record 'v lru_cache =
  cap :: nat
  next_node :: node
  items :: "(node \<times> string \<times> 'v) list"
  items_map :: "(string, node) umap"

definition lru_new :: "nat \<Rightarrow> 'v lru_cache" where
  "lru_new c = \<lparr>cap = c, next_node = 0, items = [], items_map = []\<rparr>"

text \<open>\<open>it->second\<close>: what an iterator points to, and \<open>splice\<close> of that node to the front.\<close>

fun node_value :: "node \<Rightarrow> (node \<times> string \<times> 'v) list \<Rightarrow> 'v option" where
  "node_value n [] = None"
| "node_value n ((m, k, v) # xs) = (if m = n then Some v else node_value n xs)"

fun set_node_value :: "node \<Rightarrow> 'v \<Rightarrow> (node \<times> string \<times> 'v) list \<Rightarrow> (node \<times> string \<times> 'v) list" where
  "set_node_value n v [] = []"
| "set_node_value n v ((m, k, w) # xs) =
     (if m = n then (m, k, v) # xs else (m, k, w) # set_node_value n v xs)"

definition splice_front :: "node \<Rightarrow> (node \<times> string \<times> 'v) list \<Rightarrow> (node \<times> string \<times> 'v) list" where
  "splice_front n xs = filter (\<lambda>e. fst e = n) xs @ filter (\<lambda>e. fst e \<noteq> n) xs"

definition erase_node :: "node \<Rightarrow> (node \<times> string \<times> 'v) list \<Rightarrow> (node \<times> string \<times> 'v) list" where
  "erase_node n xs = filter (\<lambda>e. fst e \<noteq> n) xs"

definition lru_contains :: "string \<Rightarrow> 'v lru_cache \<Rightarrow> bool" where
  "lru_contains key c = map_contains key (items_map c)"

definition lru_get :: "string \<Rightarrow> 'v lru_cache \<Rightarrow> 'v result \<times> 'v lru_cache" where
  "lru_get key c =
     (case map_of (items_map c) key of
        None \<Rightarrow> (Inl (Out_of_range (''Key not found in lru_cache: '' @ key)), c)
      | Some n \<Rightarrow>
          (case node_value n (items c) of
             None \<Rightarrow> (Inl (Undefined_behaviour ''dangling iterator''), c)
           | Some v \<Rightarrow> (Inr v, c\<lparr>items := splice_front n (items c)\<rparr>)))"

definition lru_put :: "string \<Rightarrow> 'v \<Rightarrow> 'v lru_cache \<Rightarrow> unit result \<times> 'v lru_cache" where
  "lru_put key v c =
     (case map_of (items_map c) key of
        Some n \<Rightarrow>
          (case node_value n (items c) of
             None \<Rightarrow> (Inl (Undefined_behaviour ''dangling iterator''), c)
           | Some _ \<Rightarrow> (Inr (), c\<lparr>items := splice_front n (set_node_value n v (items c))\<rparr>))
      | None \<Rightarrow>
          if cap c \<le> length (items c) \<and> items c = []
          then (Inl (Undefined_behaviour ''back() of an empty list''), c)
          else
            let c1 = (if cap c \<le> length (items c)
                      then c\<lparr>items_map := map_erase (fst (snd (last (items c)))) (items_map c),
                             items := butlast (items c)\<rparr>
                      else c);
                n = next_node c1
            in (Inr (), c1\<lparr>items := (n, key, v) # items c1, next_node := Suc n,
                           items_map := map_assign key n (items_map c1)\<rparr>))"

definition lru_erase :: "string \<Rightarrow> 'v lru_cache \<Rightarrow> 'v lru_cache" where
  "lru_erase key c =
     (case map_of (items_map c) key of
        None \<Rightarrow> c
      | Some n \<Rightarrow> c\<lparr>items := erase_node n (items c), items_map := map_erase key (items_map c)\<rparr>)"

definition lru_clear :: "'v lru_cache \<Rightarrow> 'v lru_cache" where
  "lru_clear c = c\<lparr>items := [], items_map := []\<rparr>"

section \<open>Specification: an association list in order of use\<close>

type_synonym 'v recency = "(string \<times> 'v) list"

definition lru_abs :: "'v lru_cache \<Rightarrow> 'v recency" where
  "lru_abs c = map snd (items c)"

definition touch :: "string \<Rightarrow> 'v \<Rightarrow> 'v recency \<Rightarrow> 'v recency" where
  "touch k v xs = (k, v) # filter (\<lambda>e. fst e \<noteq> k) xs"

definition spec_get :: "string \<Rightarrow> 'v recency \<Rightarrow> 'v recency" where
  "spec_get k xs = (case map_of xs k of None \<Rightarrow> xs | Some v \<Rightarrow> touch k v xs)"

definition spec_put :: "nat \<Rightarrow> string \<Rightarrow> 'v \<Rightarrow> 'v recency \<Rightarrow> 'v recency" where
  "spec_put c k v xs = take c (touch k v xs)"

definition spec_erase :: "string \<Rightarrow> 'v recency \<Rightarrow> 'v recency" where
  "spec_erase k xs = filter (\<lambda>e. fst e \<noteq> k) xs"

section \<open>Invariant\<close>

definition entry_index :: "(node \<times> string \<times> 'v) list \<Rightarrow> (string, node) umap" where
  "entry_index xs = map (\<lambda>e. (fst (snd e), fst e)) xs"

definition lru_inv :: "'v lru_cache \<Rightarrow> bool" where
  "lru_inv c \<longleftrightarrow>
     0 < cap c \<and> length (items c) \<le> cap c
     \<and> distinct (map fst (items c)) \<and> distinct (map (fst \<circ> snd) (items c))
     \<and> keys_distinct (items_map c)
     \<and> map_of (items_map c) = map_of (entry_index (items c))
     \<and> list_all (\<lambda>e. fst e < next_node c) (items c)"


section \<open>Nodes and keys of a list of entries\<close>

definition entries_ok :: "(node \<times> string \<times> 'v) list \<Rightarrow> bool" where
  "entries_ok xs \<longleftrightarrow> distinct (map fst xs) \<and> distinct (map (fst \<circ> snd) xs)"

lemma entries_ok_Cons [simp]:
  "entries_ok ((n, k, v) # xs) \<longleftrightarrow>
     entries_ok xs \<and> (\<forall>k' v'. (n, k', v') \<notin> set xs) \<and> (\<forall>n' v'. (n', k, v') \<notin> set xs)"
  by (force simp: entries_ok_def)

lemma entries_ok_Nil [simp]: "entries_ok []"
  by (simp add: entries_ok_def)

lemma entries_ok_filter: "entries_ok xs \<Longrightarrow> entries_ok (filter P xs)"
  by (auto simp: entries_ok_def distinct_map_filter)

lemma entries_ok_butlast: "entries_ok xs \<Longrightarrow> entries_ok (butlast xs)"
  by (simp add: entries_ok_def map_butlast distinct_butlast)

lemma node_key: "entries_ok xs \<Longrightarrow> (n, k, v) \<in> set xs \<Longrightarrow> (n, k', v') \<in> set xs \<Longrightarrow> k' = k \<and> v' = v"
  by (induction xs) auto

lemma key_node: "entries_ok xs \<Longrightarrow> (n, k, v) \<in> set xs \<Longrightarrow> (n', k, v') \<in> set xs \<Longrightarrow> n' = n \<and> v' = v"
  by (induction xs) auto

lemma index_Some [simp]:
  "entries_ok xs \<Longrightarrow> map_of (entry_index xs) k = Some n \<longleftrightarrow> (\<exists>v. (n, k, v) \<in> set xs)"
  by (induction xs) (auto simp: entry_index_def)

lemma index_None: "map_of (entry_index xs) k = None \<longleftrightarrow> k \<notin> (fst \<circ> snd) ` set xs"
  by (induction xs) (auto simp: entry_index_def)

lemma index_filter:
  "map_of (entry_index (filter (\<lambda>e. fst (snd e) \<noteq> k) xs)) = (map_of (entry_index xs))(k := None)"
  by (rule ext) (induction xs, auto simp: entry_index_def)

lemma abs_Some:
  "entries_ok xs \<Longrightarrow> map_of (map snd xs) k = Some v \<longleftrightarrow> (\<exists>n. (n, k, v) \<in> set xs)"
  by (induction xs) auto

lemma abs_None: "map_of (map snd xs) k = None \<longleftrightarrow> k \<notin> (fst \<circ> snd) ` set xs"
  by (induction xs) auto

lemma node_value_Some [simp]:
  "entries_ok xs \<Longrightarrow> node_value n xs = Some v \<longleftrightarrow> (\<exists>k. (n, k, v) \<in> set xs)"
  by (induction xs) (auto split: if_splits)

lemma filter_node: "entries_ok xs \<Longrightarrow> (n, k, v) \<in> set xs \<Longrightarrow> filter (\<lambda>e. fst e = n) xs = [(n, k, v)]"
  by (induction xs) (auto simp: filter_empty_conv)

lemma filter_other_node:
  "entries_ok xs \<Longrightarrow> (n, k, v) \<in> set xs \<Longrightarrow>
   filter (\<lambda>e. fst e \<noteq> n) xs = filter (\<lambda>e. fst (snd e) \<noteq> k) xs"
  by (rule filter_cong) (auto dest: node_key key_node)

lemma set_node_value_entries:
  "entries_ok xs \<Longrightarrow> (n, k, v) \<in> set xs \<Longrightarrow>
   set_node_value n w xs = map (\<lambda>e. if fst e = n then (n, k, w) else e) xs"
proof (induction xs)
  case (Cons e xs)
  obtain m k' v' where e: "e = (m, k', v')" by (cases e) auto
  show ?case
  proof (cases "m = n")
    case True
    with Cons.prems e have "\<forall>x \<in> set xs. fst x \<noteq> n" "k' = k" by auto
    with True e show ?thesis by (auto intro!: map_idI[symmetric])
  next
    case False
    with Cons e show ?thesis by auto
  qed
qed simp

lemma entries_ok_set_value:
  "entries_ok xs \<Longrightarrow> (n, k, v) \<in> set xs \<Longrightarrow>
   map fst (set_node_value n w xs) = map fst xs
   \<and> map (fst \<circ> snd) (set_node_value n w xs) = map (fst \<circ> snd) xs"
  by (induction xs) auto

lemma splice_front_abs:
  assumes ok: "entries_ok xs" and mem: "(n, k, v) \<in> set xs"
  shows "map snd (splice_front n xs) = touch k v (map snd xs)"
  by (simp add: splice_front_def touch_def filter_node [OF ok mem] filter_other_node [OF ok mem]
      filter_map o_def)

lemma revalue_other_keys:
  "(\<And>e. e \<in> set xs \<Longrightarrow> fst e = n \<Longrightarrow> fst (snd e) = k) \<Longrightarrow>
   filter (\<lambda>e. fst e \<noteq> k) (map snd (map (\<lambda>e. if fst e = n then (n, k, v) else e) xs))
   = filter (\<lambda>e. fst e \<noteq> k) (map snd xs)"
  by (induction xs) auto

lemma set_splice_front [simp]: "set (splice_front n xs) = set xs"
  by (auto simp: splice_front_def)

lemma length_splice_front [simp]: "length (splice_front n xs) = length xs"
  by (simp add: splice_front_def sum_length_filter_compl)

lemma entries_ok_splice: "entries_ok xs \<Longrightarrow> entries_ok (splice_front n xs)"
proof -
  assume ok: "entries_ok xs"
  have *: "distinct (map g (splice_front n xs))" if "distinct (map g xs)" for g :: "(node \<times> string \<times> 'a) \<Rightarrow> 'b"
    using that by (auto simp: splice_front_def distinct_map inj_on_def)
  show ?thesis using ok by (simp add: entries_ok_def *)
qed


section \<open>Every member function refines its specification\<close>

lemma lru_inv_entries: "lru_inv c \<Longrightarrow> entries_ok (items c)"
  by (simp add: lru_inv_def entries_ok_def)

lemma lru_index:
  "lru_inv c \<Longrightarrow> map_of (items_map c) k = Some n \<longleftrightarrow> (\<exists>v. (n, k, v) \<in> set (items c))"
  using index_Some [OF lru_inv_entries, of c k n] by (simp add: lru_inv_def)

lemma lru_abs_Some:
  "lru_inv c \<Longrightarrow> map_of (lru_abs c) k = Some v \<longleftrightarrow> (\<exists>n. (n, k, v) \<in> set (items c))"
  using abs_Some [OF lru_inv_entries, of c k v] by (simp add: lru_abs_def)

lemma lru_abs_index: "lru_inv c \<Longrightarrow> map_of (lru_abs c) k = None \<longleftrightarrow> map_of (items_map c) k = None"
  by (auto simp: lru_inv_def lru_abs_def abs_None index_None)

lemma lru_abs_distinct: "lru_inv c \<Longrightarrow> keys_distinct (lru_abs c)"
  by (simp add: lru_inv_def lru_abs_def)

lemma lru_abs_length: "lru_inv c \<Longrightarrow> length (lru_abs c) \<le> cap c"
  by (simp add: lru_inv_def lru_abs_def)

lemma lru_new_inv [simp]: "0 < n \<Longrightarrow> lru_inv (lru_new n)"
  by (simp add: lru_inv_def lru_new_def entry_index_def)

lemma lru_contains_abs: "lru_inv c \<Longrightarrow> lru_contains k c \<longleftrightarrow> map_of (lru_abs c) k \<noteq> None"
  by (simp add: lru_contains_def map_contains_iff lru_abs_index)

text \<open>Rearranging or revaluing the list behind the map keeps the invariant.\<close>

lemma lru_inv_items:
  assumes inv: "lru_inv c" and ok: "entries_ok ys" and len: "length ys = length (items c)"
    and keys: "(\<lambda>e. (fst (snd e), fst e)) ` set ys = (\<lambda>e. (fst (snd e), fst e)) ` set (items c)"
  shows "lru_inv (c\<lparr>items := ys\<rparr>)"
proof -
  have same: "(\<exists>v. (n, k, v) \<in> set ys) \<longleftrightarrow> (\<exists>v. (n, k, v) \<in> set (items c))" for n k
  proof -
    have "(\<exists>v. (n, k, v) \<in> set zs) \<longleftrightarrow> (k, n) \<in> (\<lambda>e. (fst (snd e), fst e)) ` set zs"
      for zs :: "(nat \<times> string \<times> 'a) list" by force
    then show ?thesis using keys by simp
  qed
  have "map_of (entry_index ys) = map_of (entry_index (items c))"
  proof
    fix k
    show "map_of (entry_index ys) k = map_of (entry_index (items c)) k"
      using index_Some [OF ok, of k] index_Some [OF lru_inv_entries [OF inv], of k] same
      by (metis option.exhaust)
  qed
  moreover have "list_all (\<lambda>e. fst e < next_node c) ys"
  proof -
    have "fst ` set ys = snd ` (\<lambda>e. (fst (snd e), fst e)) ` set ys" by (simp add: image_image)
    also have "\<dots> = fst ` set (items c)" by (simp add: keys image_image)
    finally show ?thesis using inv by (force simp: lru_inv_def list_all_iff)
  qed
  ultimately show ?thesis using inv ok len by (simp add: lru_inv_def entries_ok_def)
qed

lemma lru_get_hit:
  assumes inv: "lru_inv c" and v: "map_of (lru_abs c) key = Some v"
  shows "\<exists>c'. lru_get key c = (Inr v, c') \<and> lru_inv c' \<and> lru_abs c' = spec_get key (lru_abs c)
    \<and> cap c' = cap c"
proof -
  from v inv obtain n where n: "(n, key, v) \<in> set (items c)" by (auto simp: lru_abs_Some)
  with inv have m: "map_of (items_map c) key = Some n" by (auto simp: lru_index)
  have ok: "entries_ok (items c)" by (rule lru_inv_entries [OF inv])
  from ok n have nv: "node_value n (items c) = Some v" by auto
  have "lru_inv (c\<lparr>items := splice_front n (items c)\<rparr>)"
    by (rule lru_inv_items [OF inv]) (simp_all add: entries_ok_splice ok)
  then show ?thesis
    by (simp add: lru_get_def m nv lru_abs_def splice_front_abs [OF ok n] spec_get_def
        v [unfolded lru_abs_def])
qed

lemma lru_get_miss:
  "lru_inv c \<Longrightarrow> map_of (lru_abs c) key = None \<Longrightarrow>
   lru_get key c = (Inl (Out_of_range (''Key not found in lru_cache: '' @ key)), c)"
  by (simp add: lru_get_def lru_abs_index)

lemma lru_put_existing:
  assumes inv: "lru_inv c" and n: "(n, key, w) \<in> set (items c)"
  shows "\<exists>c'. lru_put key v c = (Inr (), c') \<and> lru_inv c'
    \<and> lru_abs c' = touch key v (lru_abs c) \<and> cap c' = cap c"
proof -
  from inv n have m: "map_of (items_map c) key = Some n" by (auto simp: lru_index)
  have ok: "entries_ok (items c)" by (rule lru_inv_entries [OF inv])
  from ok n have nv: "node_value n (items c) = Some w" by auto
  have same_key: "fst (snd e) = key" if "e \<in> set (items c)" "fst e = n" for e
    using node_key [OF ok n, of "fst (snd e)" "snd (snd e)"] that by (cases e) simp
  let ?ys = "set_node_value n v (items c)"
  have ys: "?ys = map (\<lambda>e. if fst e = n then (n, key, v) else e) (items c)"
    by (rule set_node_value_entries [OF ok n])
  have okY: "entries_ok ?ys"
    using ok entries_ok_set_value [OF ok n, of v] by (simp add: entries_ok_def)
  have nY: "(n, key, v) \<in> set ?ys"
    unfolding ys using n by force
  have idx: "(\<lambda>e. (fst (snd e), fst e)) ` set ?ys = (\<lambda>e. (fst (snd e), fst e)) ` set (items c)"
    unfolding ys set_map image_image by (rule image_cong) (auto simp: same_key)
  have "lru_inv (c\<lparr>items := splice_front n ?ys\<rparr>)"
    by (rule lru_inv_items [OF inv]) (simp_all add: entries_ok_splice okY idx, simp add: ys)
  moreover have "touch key v (map snd ?ys) = touch key v (map snd (items c))"
    unfolding touch_def ys
    by (rule arg_cong [where f = "(#) (key, v)", OF revalue_other_keys]) (rule same_key)
  ultimately show ?thesis
    by (simp add: lru_put_def m nv lru_abs_def splice_front_abs [OF okY nY])
qed


text \<open>Inserting a new key: the least recently used entry makes room for it.\<close>

lemma lru_inv_butlast:
  assumes inv: "lru_inv c" and ne: "items c \<noteq> []"
  shows "lru_inv (c\<lparr>items_map := map_erase (fst (snd (last (items c)))) (items_map c),
                   items := butlast (items c)\<rparr>)"
proof -
  obtain ys n k v where xs: "items c = ys @ [(n, k, v)]"
    using ne by (metis append_butlast_last_id prod_cases3)
  have ok: "entries_ok (items c)" by (rule lru_inv_entries [OF inv])
  have ky: "k \<notin> (fst \<circ> snd) ` set ys" using ok by (auto simp: xs entries_ok_def)
  have "filter (\<lambda>e. fst (snd e) \<noteq> k) (items c) = ys"
    using ky by (auto simp: xs filter_id_conv)
  then have "map_of (entry_index ys) = (map_of (items_map c))(k := None)"
    using inv index_filter [of k "items c"] by (simp add: lru_inv_def)
  then show ?thesis
    using inv by (simp add: lru_inv_def xs)
qed

lemma lru_inv_push:
  assumes inv: "lru_inv c" and new: "map_of (items_map c) key = None"
    and room: "length (items c) < cap c"
  shows "lru_inv (c\<lparr>items := (next_node c, key, v) # items c, next_node := Suc (next_node c),
                   items_map := map_assign key (next_node c) (items_map c)\<rparr>)"
proof -
  from inv new have "key \<notin> (fst \<circ> snd) ` set (items c)"
    by (simp add: lru_inv_def index_None)
  moreover from inv have "next_node c \<notin> fst ` set (items c)"
    by (auto simp: lru_inv_def list_all_iff)
  moreover from inv have "list_all (\<lambda>e. fst e < Suc (next_node c)) (items c)"
    by (auto simp: lru_inv_def list_all_iff)
  ultimately show ?thesis
    using inv room by (simp add: lru_inv_def entry_index_def)
qed

lemma touch_new: "map_of xs k = None \<Longrightarrow> touch k v xs = (k, v) # xs"
  by (auto simp: touch_def map_of_eq_None_iff filter_id_conv image_iff)

lemma lru_put_ok:
  assumes inv: "lru_inv c"
  shows "\<exists>c'. lru_put key v c = (Inr (), c') \<and> lru_inv c'
    \<and> lru_abs c' = spec_put (cap c) key v (lru_abs c) \<and> cap c' = cap c"
proof (cases "map_of (items_map c) key")
  case (Some n)
  with inv obtain w where "(n, key, w) \<in> set (items c)" by (auto simp: lru_index)
  from lru_put_existing [OF inv this, of v] obtain c' where
    c': "lru_put key v c = (Inr (), c')" "lru_inv c'" "lru_abs c' = touch key v (lru_abs c)"
        "cap c' = cap c" by auto
  from c'(2,4) have "length (lru_abs c') \<le> cap c" by (simp add: lru_inv_def lru_abs_def)
  with c' show ?thesis by (auto simp: spec_put_def)
next
  case None
  let ?full = "cap c \<le> length (items c)"
  define c1 where "c1 = (if ?full then c\<lparr>items_map := map_erase (fst (snd (last (items c)))) (items_map c),
                                        items := butlast (items c)\<rparr> else c)"
  have ne: "?full \<Longrightarrow> items c \<noteq> []" using inv by (auto simp: lru_inv_def)
  have inv1: "lru_inv c1" using inv lru_inv_butlast [OF inv ne] by (simp add: c1_def)
  have new1: "map_of (items_map c1) key = None" using None by (simp add: c1_def)
  have room: "length (items c1) < cap c1" using inv by (auto simp: c1_def lru_inv_def)
  have abs1: "lru_abs c1 = take (cap c - 1) (lru_abs c)"
    using inv by (auto simp: c1_def lru_abs_def lru_inv_def butlast_conv_take take_map)
  have "lru_put key v c =
    (Inr (), c1\<lparr>items := (next_node c1, key, v) # items c1, next_node := Suc (next_node c1),
                items_map := map_assign key (next_node c1) (items_map c1)\<rparr>)"
    using ne by (auto simp: lru_put_def None c1_def Let_def)
  moreover have "(key, v) # lru_abs c1 = spec_put (cap c) key v (lru_abs c)"
  proof -
    have "map_of (lru_abs c) key = None" using inv None by (simp add: lru_abs_index)
    then show ?thesis
      using inv by (simp add: abs1 spec_put_def touch_new lru_inv_def take_Cons')
  qed
  ultimately show ?thesis
    using lru_inv_push [OF inv1 new1 room, of v] by (simp add: lru_abs_def c1_def)
qed

lemma lru_erase_ok:
  assumes inv: "lru_inv c"
  shows "lru_inv (lru_erase key c) \<and> lru_abs (lru_erase key c) = spec_erase key (lru_abs c)"
proof (cases "map_of (items_map c) key")
  case None
  then have "map_of (lru_abs c) key = None" using inv by (simp add: lru_abs_index)
  then have "spec_erase key (lru_abs c) = lru_abs c"
    by (auto simp: spec_erase_def map_of_eq_None_iff filter_id_conv image_iff)
  then show ?thesis using None inv by (simp add: lru_erase_def)
next
  case (Some n)
  have ok: "entries_ok (items c)" by (rule lru_inv_entries [OF inv])
  from Some inv obtain w where n: "(n, key, w) \<in> set (items c)" by (auto simp: lru_index)
  have er: "erase_node n (items c) = filter (\<lambda>e. fst (snd e) \<noteq> key) (items c)"
    unfolding erase_node_def by (rule filter_other_node [OF ok n])
  have okE: "entries_ok (erase_node n (items c))"
    by (simp add: erase_node_def entries_ok_filter ok)
  have "map_of (entry_index (erase_node n (items c))) = (map_of (items_map c))(key := None)"
    using inv by (simp add: er index_filter lru_inv_def)
  moreover have "length (erase_node n (items c)) \<le> cap c"
    unfolding erase_node_def
    by (rule le_trans [OF length_filter_le]) (use inv in \<open>simp add: lru_inv_def\<close>)
  moreover have "list_all (\<lambda>e. fst e < next_node c) (erase_node n (items c))"
    using inv by (auto simp: lru_inv_def erase_node_def list_all_iff)
  moreover have e: "lru_erase key c
      = c\<lparr>items := erase_node n (items c), items_map := map_erase key (items_map c)\<rparr>"
    by (simp add: lru_erase_def Some)
  ultimately have "lru_inv (lru_erase key c)"
    using inv okE unfolding e by (simp add: lru_inv_def entries_ok_def)
  then show ?thesis
    by (simp add: e lru_abs_def er spec_erase_def filter_map o_def)
qed

lemma lru_clear_ok: "lru_inv c \<Longrightarrow> lru_inv (lru_clear c) \<and> lru_abs (lru_clear c) = []"
  by (simp add: lru_inv_def lru_clear_def lru_abs_def entry_index_def)


section \<open>Runs of operations\<close>

datatype 'v cache_op = Get string | Put string 'v | Erase string | Clear

fun lru_apply :: "'v cache_op \<Rightarrow> 'v lru_cache \<Rightarrow> 'v option result \<times> 'v lru_cache" where
  "lru_apply (Get k) c = (let (r, c') = lru_get k c in (map_sum id Some r, c'))"
| "lru_apply (Put k v) c = (let (r, c') = lru_put k v c in (map_sum id (\<lambda>_. None) r, c'))"
| "lru_apply (Erase k) c = (Inr None, lru_erase k c)"
| "lru_apply Clear c = (Inr None, lru_clear c)"

fun spec_apply :: "nat \<Rightarrow> 'v cache_op \<Rightarrow> 'v recency \<Rightarrow> 'v option result \<times> 'v recency" where
  "spec_apply n (Get k) xs =
     (case map_of xs k of
        None \<Rightarrow> (Inl (Out_of_range (''Key not found in lru_cache: '' @ k)), xs)
      | Some v \<Rightarrow> (Inr (Some v), touch k v xs))"
| "spec_apply n (Put k v) xs = (Inr None, spec_put n k v xs)"
| "spec_apply n (Erase k) xs = (Inr None, spec_erase k xs)"
| "spec_apply n Clear xs = (Inr None, [])"

fun lru_run :: "'v cache_op list \<Rightarrow> 'v lru_cache \<Rightarrow> 'v option result list \<times> 'v lru_cache" where
  "lru_run [] c = ([], c)"
| "lru_run (x # xs) c =
     (let (r, c1) = lru_apply x c; (rs, c2) = lru_run xs c1 in (r # rs, c2))"

lemma lru_apply_refines:
  assumes inv: "lru_inv c"
  shows "lru_inv (snd (lru_apply x c)) \<and> cap (snd (lru_apply x c)) = cap c
    \<and> fst (lru_apply x c) = fst (spec_apply (cap c) x (lru_abs c))
    \<and> lru_abs (snd (lru_apply x c)) = snd (spec_apply (cap c) x (lru_abs c))"
proof (cases x)
  case (Get k)
  then show ?thesis
  proof (cases "map_of (lru_abs c) k")
    case None
    with Get inv show ?thesis by (simp add: lru_get_miss)
  next
    case (Some v)
    from lru_get_hit [OF inv Some] Get Some show ?thesis by (auto simp: spec_get_def)
  qed
next
  case (Put k v)
  from lru_put_ok [OF inv, of k v] Put show ?thesis by auto
next
  case (Erase k)
  from lru_erase_ok [OF inv, of k] Erase show ?thesis
    by (simp add: lru_erase_def split: option.splits)
next
  case Clear
  with lru_clear_ok [OF inv] show ?thesis by (simp add: lru_clear_def)
qed

lemma lru_run_Cons:
  "lru_run (x # xs) c = (fst (lru_apply x c) # fst (lru_run xs (snd (lru_apply x c))),
                         snd (lru_run xs (snd (lru_apply x c))))"
  by (simp add: split_beta Let_def)

declare lru_run.simps(2) [simp del]

lemma lru_run_inv: "lru_inv c \<Longrightarrow> lru_inv (snd (lru_run xs c)) \<and> cap (snd (lru_run xs c)) = cap c"
proof (induction xs arbitrary: c)
  case (Cons x xs)
  from lru_apply_refines [OF Cons.prems, of x] Cons.IH [of "snd (lru_apply x c)"]
  show ?case by (simp add: lru_run_Cons)
qed simp

text \<open>What a cache of unlimited capacity would hold, most recent first.\<close>

fun touched :: "'v cache_op \<Rightarrow> 'v recency \<Rightarrow> 'v recency" where
  "touched (Get k) xs = spec_get k xs"
| "touched (Put k v) xs = touch k v xs"
| "touched (Erase k) xs = spec_erase k xs"
| "touched Clear xs = []"

definition recency_of :: "'v cache_op list \<Rightarrow> 'v recency" where
  "recency_of xs = fold touched xs []"

fun only_uses :: "'v cache_op \<Rightarrow> bool" where
  "only_uses (Get k) = True"
| "only_uses (Put k v) = True"
| "only_uses (Erase k) = False"
| "only_uses Clear = False"

lemma touch_distinct [simp]: "keys_distinct xs \<Longrightarrow> keys_distinct (touch k v xs)"
  by (auto simp: touch_def distinct_map_filter)

lemma touched_distinct: "keys_distinct xs \<Longrightarrow> keys_distinct (touched x xs)"
  by (cases x) (auto simp: spec_get_def spec_erase_def distinct_map_filter split: option.splits)

lemma length_filter_key:
  "keys_distinct xs \<Longrightarrow> length xs \<le> Suc (length (filter (\<lambda>e. fst e \<noteq> k) xs))"
proof (induction xs)
  case (Cons e xs)
  show ?case
  proof (cases "fst e = k")
    case True
    with Cons.prems have "filter (\<lambda>e. fst e \<noteq> k) xs = xs" by (auto simp: filter_id_conv image_iff)
    with True show ?thesis by simp
  qed (use Cons in auto)
qed simp

lemma take_touch_take:
  assumes "keys_distinct xs" and "0 < n"
  shows "take n (touch k v (take n xs)) = take n (touch k v xs)"
proof -
  obtain m where n: "n = Suc m" using assms(2) by (cases n) auto
  let ?f = "filter (\<lambda>e. fst e \<noteq> k)"
  have "?f xs = ?f (take n xs) @ ?f (drop n xs)"
    by (simp flip: filter_append)
  moreover have "m \<le> length (?f (take n xs)) \<or> drop n xs = []"
  proof -
    have "keys_distinct (take n xs)" using assms(1) by (simp add: distinct_take flip: take_map)
    from length_filter_key [OF this, of k] show ?thesis by (auto simp: n)
  qed
  ultimately show ?thesis by (auto simp: touch_def n)
qed

lemma map_of_take: "map_of (take n xs) k = Some v \<Longrightarrow> map_of xs k = Some v"
  by (metis append_take_drop_id map_add_Some_iff map_of_append)

lemma lru_run_recency:
  assumes "lru_inv c" and "keys_distinct xs" and "lru_abs c = take (cap c) xs"
    and "list_all only_uses ops" and "list_all is_ok (fst (lru_run ops c))"
  shows "lru_abs (snd (lru_run ops c)) = take (cap c) (fold touched ops xs)"
  using assms
proof (induction ops arbitrary: c xs)
  case Nil
  then show ?case by simp
next
  case (Cons x ops)
  let ?c = "snd (lru_apply x c)"
  note step = lru_apply_refines [OF Cons.prems(1), of x]
  have pos: "0 < cap c" using Cons.prems(1) by (simp add: lru_inv_def)
  have ok: "is_ok (fst (spec_apply (cap c) x (take (cap c) xs)))"
    using Cons.prems(3,5) step by (simp add: lru_run_Cons)
  have "lru_abs ?c = take (cap c) (touched x xs)"
  proof (cases x)
    case (Get k)
    with ok obtain v where v: "map_of (take (cap c) xs) k = Some v"
      by (auto split: option.splits)
    have "lru_abs ?c = touch k v (take (cap c) xs)"
      using step Get v Cons.prems(3) by simp
    with step lru_abs_length [of ?c] have "length (touch k v (take (cap c) xs)) \<le> cap c"
      by simp
    then have "touch k v (take (cap c) xs) = take (cap c) (touch k v xs)"
      using take_touch_take [OF Cons.prems(2) pos, of k v] by simp
    with Get v map_of_take [OF v] step Cons.prems(3) show ?thesis by (simp add: spec_get_def)
  next
    case (Put k v)
    with step Cons.prems(3) take_touch_take [OF Cons.prems(2) pos, of k v] show ?thesis
      by (simp add: spec_put_def)
  qed (use Cons.prems(4) in simp_all)
  then have "lru_abs (snd (lru_run ops ?c)) = take (cap ?c) (fold touched ops (touched x xs))"
    using Cons.prems(2,4,5) step
    by (intro Cons.IH) (simp_all add: touched_distinct lru_run_Cons)
  then show ?case using step by (simp add: lru_run_Cons)
qed


section \<open>The contract of a cache\<close>

lemma spec_put_lookup:
  "0 < n \<Longrightarrow> map_of (spec_put n k v xs) k = Some v"
  by (cases n) (simp_all add: spec_put_def touch_def)

lemma touch_other: "k' \<noteq> k \<Longrightarrow> map_of (touch k v xs) k' = map_of xs k'"
  by (induction xs) (auto simp: touch_def)

lemma spec_put_other:
  "k' \<noteq> k \<Longrightarrow> map_of (spec_put n k v xs) k' \<in> {None, map_of xs k'}"
  using map_of_take [of n "touch k v xs" k']
  by (cases "map_of (take n (touch k v xs)) k'") (auto simp: spec_put_def touch_other)

lemma spec_get_lookup: "map_of (spec_get k xs) = map_of xs"
proof
  fix x
  show "map_of (spec_get k xs) x = map_of xs x"
    by (cases "x = k") (auto simp: spec_get_def touch_other split: option.splits, simp add: touch_def)
qed

lemma spec_erase_lookup: "map_of (spec_erase k xs) = (map_of xs)(k := None)"
  by (rule ext) (induction xs, auto simp: spec_erase_def)

interpretation lru: key_cache lru_inv "\<lambda>c. map_of (lru_abs c)" lru_contains lru_get lru_put lru_erase lru_clear
proof (unfold_locales, goal_cases)
  case (1 c k) then show ?case by (rule lru_contains_abs)
next
  case (2 c k v) then show ?case using lru_get_hit by fastforce
next
  case (3 c k) then show ?case
    using lru_get_hit [of c k] lru_get_miss [of c k]
    by (cases "map_of (lru_abs c) k") (auto simp: spec_get_lookup)
next
  case (4 c k) then show ?case by (simp add: lru_get_miss)
next
  case (5 c k v) then show ?case using lru_put_ok [OF 5, of k v] by auto
next
  case (6 c k v) then show ?case
    using lru_put_ok [OF 6, of k v] by (auto simp: spec_put_lookup lru_inv_def)
next
  case (7 c k' k v) then show ?case
    using lru_put_ok [OF 7(1), of k v] spec_put_other [OF 7(2), of "cap c" v "lru_abs c"] by auto
next
  case (8 c k) then show ?case by (simp add: lru_erase_ok spec_erase_lookup)
next
  case (9 c) then show ?case by (simp add: lru_clear_ok)
qed

text \<open>Concrete runs are evaluated on the specification.\<close>

fun spec_run :: "nat \<Rightarrow> 'v cache_op list \<Rightarrow> 'v recency \<Rightarrow> 'v option result list \<times> 'v recency" where
  "spec_run n [] xs = ([], xs)"
| "spec_run n (x # ops) xs =
     (let (r, ys) = spec_apply n x xs; (rs, zs) = spec_run n ops ys in (r # rs, zs))"

lemma lru_run_spec:
  "lru_inv c \<Longrightarrow> spec_run (cap c) ops (lru_abs c) = (fst (lru_run ops c), lru_abs (snd (lru_run ops c)))"
proof (induction ops arbitrary: c)
  case (Cons x ops)
  from lru_apply_refines [OF Cons.prems, of x] Cons.IH [of "snd (lru_apply x c)"]
  show ?case by (simp add: lru_run_Cons split_beta Let_def)
qed simp

lemma lru_run_new:
  "0 < n \<Longrightarrow> fst (lru_run ops (lru_new n)) = fst (spec_run n ops [])
    \<and> lru_abs (snd (lru_run ops (lru_new n))) = snd (spec_run n ops [])"
  using lru_run_spec [OF lru_new_inv, of n ops] by (simp add: lru_new_def lru_abs_def)

lemmas spec_exec = spec_put_def spec_get_def spec_erase_def touch_def recency_of_def

section \<open>Properties\<close>

text \<open>
  C15: every member function of the cache refines its specification on the plain list of
  entries in order of use. Started in a state where list and map agree, \<open>get\<close>, \<open>put\<close>,
  \<open>erase\<close> and \<open>clear\<close> never follow a dangling iterator, keep list and map in agreement,
  return what the specification returns (the exception of a missing key included) and leave
  the contents and the order the specification gives.
\<close>

theorem lru_operations_refine:
  assumes "lru_inv c"
  shows "lru_inv (snd (lru_apply x c)) \<and> cap (snd (lru_apply x c)) = cap c
    \<and> (fst (lru_apply x c), lru_abs (snd (lru_apply x c))) = spec_apply (cap c) x (lru_abs c)"
  using lru_apply_refines [OF assms, of x] by (simp add: prod_eq_iff)

theorem lru_operations_refine_witness:
  "lru_inv (snd (lru_apply (Put ''c'' (30::nat)) (snd (lru_run [Put ''a'' 10, Put ''b'' 20, Get ''a''] (lru_new 2)))))
   \<and> lru_abs (snd (lru_apply (Put ''c'' (30::nat)) (snd (lru_run [Put ''a'' 10, Put ''b'' 20, Get ''a''] (lru_new 2)))))
     = [(''c'', 30), (''a'', 10)]"
proof -
  let ?c = "snd (lru_run [Put ''a'' (10::nat), Put ''b'' 20, Get ''a''] (lru_new 2))"
  have inv: "lru_inv ?c" by (rule conjunct1 [OF lru_run_inv [OF lru_new_inv]]) simp
  have "lru_abs ?c = snd (spec_run 2 [Put ''a'' (10::nat), Put ''b'' 20, Get ''a''] [])"
    by (rule conjunct2 [OF lru_run_new]) simp
  then have c: "lru_abs ?c = [(''a'', 10), (''b'', 20)]"
    by (simp add: spec_exec)
  have "cap ?c = cap (lru_new 2 :: nat lru_cache)"
    by (rule conjunct2 [OF lru_run_inv [OF lru_new_inv]]) simp
  also have "\<dots> = 2" by (simp add: lru_new_def)
  finally have cap: "cap ?c = 2" .
  show ?thesis
    using lru_operations_refine [OF inv, of "Put ''c'' 30"] by (simp add: c cap spec_exec)
qed

text \<open>
  C16: the cache holds exactly the most recently used entries. After any sequence of puts and
  successful gets on a new cache of capacity \<open>n\<close>, its contents are the first \<open>n\<close> entries of
  the list a cache of unlimited capacity would hold, in the same order and with the values
  last put.
\<close>

theorem lru_keeps_most_recent:
  assumes "0 < n" and "list_all only_uses ops" and "list_all is_ok (fst (lru_run ops (lru_new n)))"
  shows "lru_abs (snd (lru_run ops (lru_new n))) = take n (recency_of ops)"
  using lru_run_recency [of "lru_new n" "[]" ops] assms
  by (simp add: recency_of_def lru_new_def lru_abs_def lru_new_inv [unfolded lru_new_def])

theorem lru_keeps_most_recent_witness:
  "lru_abs (snd (lru_run [Put ''a'' (10::nat), Put ''b'' 20, Get ''a'', Put ''c'' 30] (lru_new 2)))
   = [(''c'', 30), (''a'', 10)]"
proof -
  let ?ops = "[Put ''a'' (10::nat), Put ''b'' 20, Get ''a'', Put ''c'' 30]"
  have "list_all is_ok (fst (lru_run ?ops (lru_new 2)))"
    using lru_run_new [of 2 ?ops] by (simp add: spec_exec)
  then have "lru_abs (snd (lru_run ?ops (lru_new 2))) = take 2 (recency_of ?ops)"
    by (intro lru_keeps_most_recent) simp_all
  also have "\<dots> = [(''c'', 30), (''a'', 10)]" by (simp add: spec_exec)
  finally show ?thesis .
qed

end
