(* ===== verification/Sha256.thy ===== *)
theory Sha256
  imports Prelude
begin

unbundle bit_operations_syntax

text \<open>
  \<^verbatim>\<open>src/distributed/utils/sha256.cpp\<close> and \<^verbatim>\<open>include/sha256.h\<close>: the hash by which a worker
  recognises that its copy of a problem library is out of date.

  The class \<open>SHA256\<close> is a record; the compression is the unrolled one of the source (eight
  register-renaming lines per round, the message schedule extended eight words at a time).
  Memory that the source leaves uninitialised (\<open>m_buffer\<close> before the first byte, the local
  array \<open>extra\<close>) is an argument, so that the theorems hold for any contents of it.

  The reference is the hash of the standard: pad the message, cut it into blocks, run the
  register-rotating step sixty-four times per block, with constants that are written apart from those of
  the class and checked against their definition as fractions of roots of primes. The theory proves that the class computes
  it, however the message is cut into calls of \<open>add\<close>.
\<close>

section \<open>The class\<close>

record sha256 =
  m_numBytes :: u64
  m_bufferSize :: nat
  m_buffer :: bytes
  m_hash :: "u32 list"

definition BlockSize :: nat where
  "BlockSize = 512 div 8"

lemma BlockSize_eq [simp]: "BlockSize = 64"
  by (simp add: BlockSize_def)

definition sha_reset :: "sha256 \<Rightarrow> sha256" where
  "sha_reset s = s\<lparr>m_numBytes := 0, m_bufferSize := 0,
     m_hash := [0x6a09e667, 0xbb67ae85, 0x3c6ef372, 0xa54ff53a,
                0x510e527f, 0x9b05688c, 0x1f83d9ab, 0x5be0cd19]\<rparr>"

text \<open>The mixing functions.\<close>

definition rotate_word :: "u32 \<Rightarrow> nat \<Rightarrow> u32" where
  "rotate_word a c = drop_bit c a OR push_bit (32 - c) a"

definition swap_word :: "u32 \<Rightarrow> u32" where
  "swap_word x = drop_bit 24 x OR (drop_bit 8 x AND 0x0000FF00)
     OR (push_bit 8 x AND 0x00FF0000) OR push_bit 24 x"

definition f1 :: "u32 \<Rightarrow> u32 \<Rightarrow> u32 \<Rightarrow> u32" where
  "f1 e f g =
     (let term1 = rotate_word e 6 XOR rotate_word e 11 XOR rotate_word e 25;
          term2 = (e AND f) XOR (NOT e AND g)
      in term1 + term2)"

definition f2 :: "u32 \<Rightarrow> u32 \<Rightarrow> u32 \<Rightarrow> u32" where
  "f2 a b c =
     (let term1 = rotate_word a 2 XOR rotate_word a 13 XOR rotate_word a 22;
          term2 = ((a OR b) AND c) OR (a AND b)
      in term1 + term2)"

text \<open>The constants of the sixty-four lines, eight for each round of the source.\<close>

definition round_constants :: "u32 list list" where
  "round_constants =
    [[0x428a2f98, 0x71374491, 0xb5c0fbcf, 0xe9b5dba5, 0x3956c25b, 0x59f111f1, 0x923f82a4, 0xab1c5ed5],
     [0xd807aa98, 0x12835b01, 0x243185be, 0x550c7dc3, 0x72be5d74, 0x80deb1fe, 0x9bdc06a7, 0xc19bf174],
     [0xe49b69c1, 0xefbe4786, 0x0fc19dc6, 0x240ca1cc, 0x2de92c6f, 0x4a7484aa, 0x5cb0a9dc, 0x76f988da],
     [0x983e5152, 0xa831c66d, 0xb00327c8, 0xbf597fc7, 0xc6e00bf3, 0xd5a79147, 0x06ca6351, 0x14292967],
     [0x27b70a85, 0x2e1b2138, 0x4d2c6dfc, 0x53380d13, 0x650a7354, 0x766a0abb, 0x81c2c92e, 0x92722c85],
     [0xa2bfe8a1, 0xa81a664b, 0xc24b8b70, 0xc76c51a3, 0xd192e819, 0xd6990624, 0xf40e3585, 0x106aa070],
     [0x19a4c116, 0x1e376c08, 0x2748774c, 0x34b0bcb5, 0x391c0cb3, 0x4ed8aa4a, 0x5b9cca4f, 0x682e6ff3],
     [0x748f82ee, 0x78a5636f, 0x84c87814, 0x8cc70208, 0x90befffa, 0xa4506ceb, 0xbef9a3f7, 0xc67178f2]]"

type_synonym registers = "u32 \<times> u32 \<times> u32 \<times> u32 \<times> u32 \<times> u32 \<times> u32 \<times> u32"

text \<open>
  One round: eight lines, each with the registers renamed instead of moved. \<open>k\<close> are the
  constants of the round and \<open>w\<close> the eight schedule words it reads.
\<close>

definition sha_round :: "u32 list \<Rightarrow> u32 list \<Rightarrow> registers \<Rightarrow> registers" where
  "sha_round k w r =
    (let (a, b, c, d, e, f, g, h) = r;
         x = h + f1 e f g + k ! 0 + w ! 0; y = f2 a b c; d = d + x; h = x + y;
         x = g + f1 d e f + k ! 1 + w ! 1; y = f2 h a b; c = c + x; g = x + y;
         x = f + f1 c d e + k ! 2 + w ! 2; y = f2 g h a; b = b + x; f = x + y;
         x = e + f1 b c d + k ! 3 + w ! 3; y = f2 f g h; a = a + x; e = x + y;
         x = d + f1 a b c + k ! 4 + w ! 4; y = f2 e f g; h = h + x; d = x + y;
         x = c + f1 h a b + k ! 5 + w ! 5; y = f2 d e f; g = g + x; c = x + y;
         x = b + f1 g h a + k ! 6 + w ! 6; y = f2 c d e; f = f + x; b = x + y;
         x = a + f1 f g h + k ! 7 + w ! 7; y = f2 b c d; e = e + x; a = x + y
     in (a, b, c, d, e, f, g, h))"

text \<open>Loading the block on a little-endian machine, and the schedule loops (\<open>i < n\<close>).\<close>

fun load_le32 :: "bytes \<Rightarrow> u32" where
  "load_le32 [b0, b1, b2, b3] =
     ucast b0 OR push_bit 8 (ucast b1) OR push_bit 16 (ucast b2) OR push_bit 24 (ucast b3)"
| "load_le32 _ = 0"

definition load_words :: "bytes \<Rightarrow> u32 list" where
  "load_words data = map (\<lambda>i. swap_word (load_le32 (take 4 (drop (4 * i) data)))) [0..<16]"

definition next_word :: "u32 list \<Rightarrow> nat \<Rightarrow> u32" where
  "next_word words i =
     words ! (i - 16)
     + (rotate_word (words ! (i - 15)) 7 XOR rotate_word (words ! (i - 15)) 18 XOR drop_bit 3 (words ! (i - 15)))
     + words ! (i - 7)
     + (rotate_word (words ! (i - 2)) 17 XOR rotate_word (words ! (i - 2)) 19 XOR drop_bit 10 (words ! (i - 2)))"

function extend_words :: "nat \<Rightarrow> u32 list \<Rightarrow> u32 list" where
  "extend_words n words =
     (if length words < n then extend_words n (words @ [next_word words (length words)]) else words)"
  by pat_completeness auto
termination
  by (relation "measure (\<lambda>(n, words). n - length words)") auto

declare extend_words.simps [simp del]

definition round_at :: "nat \<Rightarrow> u32 list \<Rightarrow> registers \<Rightarrow> registers" where
  "round_at j words = sha_round (round_constants ! j) (take 8 (drop (8 * j) words))"

definition processBlock :: "bytes \<Rightarrow> u32 list \<Rightarrow> u32 list" where
  "processBlock data hash =
    (let r = (hash ! 0, hash ! 1, hash ! 2, hash ! 3, hash ! 4, hash ! 5, hash ! 6, hash ! 7);
         words = load_words data;
         r = round_at 0 words r;
         r = round_at 1 words r;
         words = extend_words 24 words; r = round_at 2 words r;
         words = extend_words 32 words; r = round_at 3 words r;
         words = extend_words 40 words; r = round_at 4 words r;
         words = extend_words 48 words; r = round_at 5 words r;
         words = extend_words 56 words; r = round_at 6 words r;
         words = extend_words 64 words; r = round_at 7 words r;
         (a, b, c, d, e, f, g, h) = r
     in [hash ! 0 + a, hash ! 1 + b, hash ! 2 + c, hash ! 3 + d,
         hash ! 4 + e, hash ! 5 + f, hash ! 6 + g, hash ! 7 + h])"

text \<open>\<open>add\<close>: fill the buffer, process whole blocks in place, keep the rest.\<close>

fun fill_buffer :: "sha256 \<Rightarrow> bytes \<Rightarrow> sha256 \<times> bytes" where
  "fill_buffer s [] = (s, [])"
| "fill_buffer s (b # current) =
     (if m_bufferSize s < BlockSize
      then fill_buffer (s\<lparr>m_buffer := (m_buffer s)[m_bufferSize s := b],
                          m_bufferSize := Suc (m_bufferSize s)\<rparr>) current
      else (s, b # current))"

function process_blocks :: "sha256 \<Rightarrow> bytes \<Rightarrow> sha256 \<times> bytes" where
  "process_blocks s current =
     (if BlockSize \<le> length current
      then process_blocks (s\<lparr>m_hash := processBlock (take BlockSize current) (m_hash s),
                             m_numBytes := m_numBytes s + of_nat BlockSize\<rparr>)
                          (drop BlockSize current)
      else (s, current))"
  by pat_completeness auto
termination
  by (relation "measure (\<lambda>(s, current). length current)") auto

declare process_blocks.simps [simp del]

fun keep_rest :: "sha256 \<Rightarrow> bytes \<Rightarrow> sha256" where
  "keep_rest s [] = s"
| "keep_rest s (b # current) =
     keep_rest (s\<lparr>m_buffer := (m_buffer s)[m_bufferSize s := b],
                  m_bufferSize := Suc (m_bufferSize s)\<rparr>) current"

definition sha_add :: "bytes \<Rightarrow> sha256 \<Rightarrow> sha256" where
  "sha_add data s =
    (let (s1, current) = (if 0 < m_bufferSize s then fill_buffer s data else (s, data));
         s2 = (if m_bufferSize s1 = BlockSize
               then s1\<lparr>m_hash := processBlock (m_buffer s1) (m_hash s1),
                       m_numBytes := m_numBytes s1 + of_nat BlockSize, m_bufferSize := 0\<rparr>
               else s1)
     in if current = [] then s2
        else let (s3, rest) = process_blocks s2 current in keep_rest s3 rest)"

text \<open>\<open>processBuffer\<close>: padding, one or two last blocks. \<open>extra\<close> is the uninitialised local array.\<close>

definition padded_length :: "nat \<Rightarrow> nat" where
  "padded_length bufferSize =
    (let paddedLength = bufferSize * 8 + 1;
         lower11Bits = paddedLength mod 512
     in (if lower11Bits \<le> 448 then paddedLength + (448 - lower11Bits)
         else paddedLength + (512 + 448 - lower11Bits)) div 8)"

definition msg_bits_bytes :: "u64 \<Rightarrow> bytes" where
  "msg_bits_bytes msgBits = map (\<lambda>k. ucast (drop_bit k msgBits AND 0xFF)) [56, 48, 40, 32, 24, 16, 8, 0]"

definition write_at :: "nat \<Rightarrow> bytes \<Rightarrow> bytes \<Rightarrow> bytes" where
  "write_at i bs xs = take i xs @ bs @ drop (i + length bs) xs"

definition zero_range :: "nat list \<Rightarrow> bytes \<Rightarrow> bytes" where
  "zero_range is xs = fold (\<lambda>i b. b[i := 0]) is xs"

definition processBuffer :: "bytes \<Rightarrow> sha256 \<Rightarrow> sha256" where
  "processBuffer extra s =
    (let n = m_bufferSize s;
         paddedLength = padded_length n;
         (buf, ext) = (if n < BlockSize then ((m_buffer s)[n := 128], extra)
                       else (m_buffer s, extra[0 := 128]));
         buf = zero_range [n + 1..<BlockSize] buf;
         ext = zero_range (map (\<lambda>i. i - BlockSize) [max (n + 1) BlockSize..<paddedLength]) ext;
         bits = msg_bits_bytes (8 * (m_numBytes s + of_nat n));
         (buf, ext) = (if paddedLength < BlockSize then (write_at paddedLength bits buf, ext)
                       else (buf, write_at (paddedLength - BlockSize) bits ext));
         hash = processBlock buf (m_hash s);
         hash = (if BlockSize < paddedLength then processBlock ext hash else hash)
     in s\<lparr>m_buffer := buf, m_hash := hash\<rparr>)"

definition hash_bytes :: "u32 \<Rightarrow> bytes" where
  "hash_bytes x = map (\<lambda>k. ucast (drop_bit k x AND 0xFF)) [24, 16, 8, 0]"

definition getHash_raw :: "bytes \<Rightarrow> sha256 \<Rightarrow> bytes \<times> sha256" where
  "getHash_raw extra s =
    (let oldHash = m_hash s; s1 = processBuffer extra s
     in (concat (map hash_bytes (m_hash s1)), s1\<lparr>m_hash := oldHash\<rparr>))"

definition dec2hex :: string where
  "dec2hex = ''0123456789abcdef''"

definition hex_byte :: "byte \<Rightarrow> string" where
  "hex_byte b = [dec2hex ! unat (drop_bit 4 b AND 15), dec2hex ! unat (b AND 15)]"

definition getHash :: "bytes \<Rightarrow> sha256 \<Rightarrow> string \<times> sha256" where
  "getHash extra s = (let (raw, s1) = getHash_raw extra s in (concat (map hex_byte raw), s1))"

definition sha_call :: "bytes \<Rightarrow> bytes \<Rightarrow> sha256 \<Rightarrow> string \<times> sha256" where
  "sha_call extra data s = getHash extra (sha_add data (sha_reset s))"


section \<open>The standard's compression\<close>

text \<open>
  The constants are not taken from the class but written down again, as plain numbers, and proved to be
  what the standard defines: the
  first 32 bits of the fractional parts of the cube roots of the first 64 primes; the initial hash
  consists of those of the square roots of the first eight. \<open>root_fraction e p k\<close> says that \<open>k\<close> is the
  fraction of the \<open>e\<close>-th root of \<open>p\<close> in units of 2^-32, rounded down; \<open>a\<close> is the integer part.
\<close>

text \<open>The primes up to 312: no divisor whose square is at most the number, and 17 is the largest that matters.\<close>

definition small_primes :: "int list" where
  "small_primes = filter (\<lambda>n. list_all (\<lambda>d. n < d * d \<or> n mod d \<noteq> 0) [2..17]) [2..312]"

definition root_fraction :: "nat \<Rightarrow> int \<Rightarrow> int \<Rightarrow> bool" where
  "root_fraction e p k \<longleftrightarrow>
     (let a = last (takeWhile (\<lambda>a. a ^ e \<le> p) [1..17])
      in 0 \<le> k \<and> k < 2 ^ 32 \<and> (a * 2 ^ 32 + k) ^ e \<le> p * 2 ^ (32 * e) \<and> p * 2 ^ (32 * e) < (a * 2 ^ 32 + k + 1) ^ e)"

definition std_constants :: "u32 list" where
  "std_constants =
    [1116352408, 1899447441, 3049323471, 3921009573, 961987163, 1508970993, 2453635748, 2870763221,
     3624381080, 310598401, 607225278, 1426881987, 1925078388, 2162078206, 2614888103, 3248222580,
     3835390401, 4022224774, 264347078, 604807628, 770255983, 1249150122, 1555081692, 1996064986,
     2554220882, 2821834349, 2952996808, 3210313671, 3336571891, 3584528711, 113926993, 338241895,
     666307205, 773529912, 1294757372, 1396182291, 1695183700, 1986661051, 2177026350, 2456956037,
     2730485921, 2820302411, 3259730800, 3345764771, 3516065817, 3600352804, 4094571909, 275423344,
     430227734, 506948616, 659060556, 883997877, 958139571, 1322822218, 1537002063, 1747873779,
     1955562222, 2024104815, 2227730452, 2361852424, 2428436474, 2756734187, 3204031479, 3329325298]"

definition std_constant :: "nat \<Rightarrow> u32" where
  "std_constant t = std_constants ! t"

definition initial_hash :: "u32 list" where
  "initial_hash = [0x6a09e667, 0xbb67ae85, 0x3c6ef372, 0xa54ff53a,
                   0x510e527f, 0x9b05688c, 0x1f83d9ab, 0x5be0cd19]"

lemma constants_of_standard:
  "list_all2 (\<lambda>p k. root_fraction 3 p (uint k)) small_primes std_constants"
  "list_all2 (\<lambda>p k. root_fraction 2 p (uint k)) (take 8 small_primes) initial_hash"
  by code_simp+

definition std_step :: "u32 \<Rightarrow> u32 \<Rightarrow> registers \<Rightarrow> registers" where
  "std_step k w r =
    (let (a, b, c, d, e, f, g, h) = r;
         t1 = h + (word_rotr 6 e XOR word_rotr 11 e XOR word_rotr 25 e)
              + ((e AND f) XOR (NOT e AND g)) + k + w;
         t2 = (word_rotr 2 a XOR word_rotr 13 a XOR word_rotr 22 a)
              + ((a AND b) XOR (a AND c) XOR (b AND c))
     in (t1 + t2, a, b, c, d + t1, e, f, g))"

fun load_be32 :: "bytes \<Rightarrow> u32" where
  "load_be32 [b0, b1, b2, b3] =
     push_bit 24 (ucast b0) OR push_bit 16 (ucast b1) OR push_bit 8 (ucast b2) OR ucast b3"
| "load_be32 _ = 0"

fun std_schedule :: "bytes \<Rightarrow> nat \<Rightarrow> u32" where
  "std_schedule data t =
    (if t < 16 then load_be32 (take 4 (drop (4 * t) data))
     else (word_rotr 17 (std_schedule data (t - 2)) XOR word_rotr 19 (std_schedule data (t - 2))
             XOR drop_bit 10 (std_schedule data (t - 2)))
          + std_schedule data (t - 7)
          + (word_rotr 7 (std_schedule data (t - 15)) XOR word_rotr 18 (std_schedule data (t - 15))
             XOR drop_bit 3 (std_schedule data (t - 15)))
          + std_schedule data (t - 16))"

declare std_schedule.simps [simp del]

definition std_compress :: "u32 list \<Rightarrow> bytes \<Rightarrow> u32 list" where
  "std_compress H data =
    (let (a, b, c, d, e, f, g, h) =
           fold (\<lambda>t. std_step (std_constant t) (std_schedule data t)) [0..<64]
             (H ! 0, H ! 1, H ! 2, H ! 3, H ! 4, H ! 5, H ! 6, H ! 7)
     in map2 (+) [H ! 0, H ! 1, H ! 2, H ! 3, H ! 4, H ! 5, H ! 6, H ! 7] [a, b, c, d, e, f, g, h])"

section \<open>The unrolled compression computes it\<close>

lemma rotate_word_rotr: "0 < c \<Longrightarrow> c < 32 \<Longrightarrow> rotate_word a c = word_rotr c a"
proof (rule bit_eqI)
  fix n assume c: "0 < c" "c < 32" and n: "possible_bit TYPE(32 word) n"
  then have n32: "n < 32" by (simp add: possible_bit_word)
  show "bit (rotate_word a c) n = bit (word_rotr c a) n"
  proof (cases "n + c < 32")
    case True
    with c n32 have "\<not> 32 - c \<le> n" by simp
    with True c n32 show ?thesis
      by (simp add: rotate_word_def bit_simps add.commute)
  next
    case False
    with c n32 have "(n + c) mod 32 = n - (32 - c)" by (simp add: mod_if)
    moreover have "32 - c \<le> n" using c False by simp
    moreover have "\<not> bit a (c + n)" using False
      by (auto dest: bit_imp_le_length)
    ultimately show ?thesis using c n32 False
      by (simp add: rotate_word_def bit_simps add.commute)
  qed
qed

lemma majority_form: "((a OR b) AND c) OR (a AND b) = (a AND b) XOR (a AND c) XOR (b AND (c::u32))"
  by (rule bit_eqI) (auto simp: bit_simps)

lemma f1_std:
  "f1 e f g = (word_rotr 6 e XOR word_rotr 11 e XOR word_rotr 25 e) + ((e AND f) XOR (NOT e AND g))"
  by (simp add: f1_def rotate_word_rotr)

lemma f2_std:
  "f2 a b c = (word_rotr 2 a XOR word_rotr 13 a XOR word_rotr 22 a)
     + ((a AND b) XOR (a AND c) XOR (b AND c))"
  by (simp add: f2_def rotate_word_rotr majority_form)

lemma std_step_f:
  "std_step k w (a, b, c, d, e, f, g, h) =
     (h + f1 e f g + k + w + f2 a b c, a, b, c, d + (h + f1 e f g + k + w), e, f, g)"
  by (simp add: std_step_def f1_std f2_std Let_def add.assoc)

text \<open>Eight renamed lines are eight steps of the rotating registers.\<close>

lemma sha_round_steps:
  "sha_round [k0, k1, k2, k3, k4, k5, k6, k7] [w0, w1, w2, w3, w4, w5, w6, w7] r =
     std_step k7 w7 (std_step k6 w6 (std_step k5 w5 (std_step k4 w4
       (std_step k3 w3 (std_step k2 w2 (std_step k1 w1 (std_step k0 w0 r)))))))"
proof -
  obtain a b c d e f g h where fields: "r = (a, b, c, d, e, f, g, h)"
    by (cases r) auto
  show ?thesis unfolding fields by (simp add: sha_round_def std_step_f Let_def ac_simps)
qed

lemma swap_masks:
  "(0x0000FF00 :: u32) = push_bit 8 (mask 8)" "(0x00FF0000 :: u32) = push_bit 16 (mask 8)"
  by (simp_all add: mask_eq_decr_exp push_bit_eq_mult)

lemma swap_load: "swap_word (load_le32 [b0, b1, b2, b3]) = load_be32 [b0, b1, b2, b3]"
proof (rule bit_eqI)
  fix n assume "possible_bit TYPE(32 word) n"
  then have n: "n < 32" by (simp add: possible_bit_word)
  then consider "n < 8" | "8 \<le> n \<and> n < 16" | "16 \<le> n \<and> n < 24" | "24 \<le> n" by linarith
  then show "bit (swap_word (load_le32 [b0, b1, b2, b3])) n = bit (load_be32 [b0, b1, b2, b3]) n"
    using n by cases (auto simp: swap_word_def swap_masks bit_simps dest: bit_imp_le_length)
qed


lemma length_load_words [simp]: "length (load_words data) = 16"
  by (simp add: load_words_def)

lemma four_bytes: "length bs = 4 \<Longrightarrow> \<exists>b0 b1 b2 b3. bs = [b0, b1, b2, b3]"
  by (auto simp: eval_nat_numeral length_Suc_conv)

lemma load_words_schedule:
  assumes "length data = 64"
  shows "load_words data = map (std_schedule data) [0..<16]"
proof -
  have "swap_word (load_le32 (take 4 (drop (4 * i) data))) = std_schedule data i" if "i < 16" for i
  proof -
    have "length (take 4 (drop (4 * i) data)) = 4" using assms that by simp
    then obtain b0 b1 b2 b3 where "take 4 (drop (4 * i) data) = [b0, b1, b2, b3]"
      using four_bytes by blast
    then show ?thesis using that
      by (simp only: std_schedule.simps [of data i] swap_load if_True)
  qed
  then show ?thesis by (auto simp: load_words_def)
qed

lemma next_word_schedule:
  assumes "16 \<le> m"
  shows "next_word (map (std_schedule data) [0..<m]) m = std_schedule data m"
  using assms
  by (subst std_schedule.simps) (simp add: next_word_def rotate_word_rotr ac_simps)

lemma extend_words_schedule:
  "16 \<le> m \<Longrightarrow> m \<le> n \<Longrightarrow>
   extend_words n (map (std_schedule data) [0..<m]) = map (std_schedule data) [0..<n]"
proof (induction "n - m" arbitrary: m)
  case 0
  then show ?case by (simp add: extend_words.simps)
next
  case (Suc k)
  then have "m < n" by simp
  have "extend_words n (map (std_schedule data) [0..<m])
      = extend_words n (map (std_schedule data) [0..<Suc m])"
    using \<open>m < n\<close> Suc.prems(1) by (subst extend_words.simps) (simp add: next_word_schedule)
  then show ?case using Suc.hyps(1) [of "Suc m"] Suc.hyps(2) Suc.prems by simp
qed

text \<open>The steps \<open>8 j\<close> to \<open>8 j + 7\<close> of the standard are round \<open>j\<close> of the source.\<close>

definition std_steps :: "bytes \<Rightarrow> nat \<Rightarrow> nat \<Rightarrow> registers \<Rightarrow> registers" where
  "std_steps data m n = fold (\<lambda>t. std_step (std_constant t) (std_schedule data t)) [m..<n]"

lemma upt_8: "[m..<m + 8] = [m, m + 1, m + 2, m + 3, m + 4, m + 5, m + 6, m + 7]"
  by (simp add: upt_conv_Cons eval_nat_numeral)

lemma round_constants_at:
  assumes "j < 8"
  shows "round_constants ! j = [std_constant (8 * j), std_constant (8 * j + 1), std_constant (8 * j + 2),
    std_constant (8 * j + 3), std_constant (8 * j + 4), std_constant (8 * j + 5),
    std_constant (8 * j + 6), std_constant (8 * j + 7)]"
proof -
  from assms have "j \<in> {0, 1, 2, 3, 4, 5, 6, 7}" by auto
  then show ?thesis by (auto simp: round_constants_def std_constant_def std_constants_def)
qed

lemma round_at_steps:
  assumes "j < 8" and "8 * j + 8 \<le> n"
  shows "round_at j (map (std_schedule data) [0..<n]) r = std_steps data (8 * j) (8 * j + 8) r"
proof -
  have "take 8 (drop (8 * j) [0..<n]) = [8 * j..<8 * j + 8]" using assms(2) by simp
  then have "take 8 (drop (8 * j) (map (std_schedule data) [0..<n]))
      = map (std_schedule data) [8 * j..<8 * j + 8]"
    by (simp only: drop_map take_map)
  then show ?thesis
    by (simp add: round_at_def round_constants_at [OF assms(1)] upt_8 sha_round_steps std_steps_def)
qed

lemma std_steps_append:
  "m \<le> k \<Longrightarrow> k \<le> n \<Longrightarrow> std_steps data k n (std_steps data m k r) = std_steps data m n r"
proof -
  assume "m \<le> k" "k \<le> n"
  then have "[m..<n] = [m..<k] @ [k..<n]" by (metis le_Suc_ex upt_add_eq_append)
  then show ?thesis by (simp add: std_steps_def)
qed

lemma processBlock_std:
  assumes "length data = 64"
  shows "processBlock data H = std_compress H data"
proof -
  note round = round_at_steps [of 0, simplified] round_at_steps [of 1, simplified]
    round_at_steps [of 2, simplified] round_at_steps [of 3, simplified]
    round_at_steps [of 4, simplified] round_at_steps [of 5, simplified]
    round_at_steps [of 6, simplified] round_at_steps [of 7, simplified]
  show ?thesis
    unfolding processBlock_def std_compress_def std_steps_def [symmetric]
    by (simp add: load_words_schedule [OF assms] extend_words_schedule round std_steps_append
        Let_def split: prod.splits del: upt_Suc)
qed

section \<open>The standard's hash of a message\<close>

function hash_blocks :: "u32 list \<Rightarrow> bytes \<Rightarrow> u32 list" where
  "hash_blocks H M =
     (if 64 \<le> length M then hash_blocks (std_compress H (take 64 M)) (drop 64 M) else H)"
  by pat_completeness auto
termination
  by (relation "measure (\<lambda>(H, M). length M)") auto

declare hash_blocks.simps [simp del]

definition std_pad :: "bytes \<Rightarrow> bytes" where
  "std_pad M = M @ [0x80] @ replicate ((119 - length M mod 64) mod 64) 0
     @ msg_bits_bytes (of_nat (8 * length M))"

definition std_sha256 :: "bytes \<Rightarrow> bytes" where
  "std_sha256 M = concat (map hash_bytes (hash_blocks initial_hash (std_pad M)))"

lemma hash_blocks_short [simp]: "length M < 64 \<Longrightarrow> hash_blocks H M = H"
  by (simp add: hash_blocks.simps)

lemma hash_blocks_step: "length B = 64 \<Longrightarrow> hash_blocks H (B @ M) = hash_blocks (std_compress H B) M"
  by (subst hash_blocks.simps) simp

lemma hash_blocks_one [simp]: "length B = 64 \<Longrightarrow> hash_blocks H B = std_compress H B"
  using hash_blocks_step [of B H "[]"] by simp

lemma hash_blocks_append: "64 dvd length A \<Longrightarrow> hash_blocks H (A @ B) = hash_blocks (hash_blocks H A) B"
proof (induction H A rule: hash_blocks.induct)
  case (1 H A)
  show ?case
  proof (cases "64 \<le> length A")
    case True
    moreover from True 1(2) have "64 dvd length (drop 64 A)" by (simp add: dvd_minus_self)
    ultimately show ?thesis using 1(1) hash_blocks.simps [of H A] hash_blocks.simps [of H "A @ B"]
      by simp
  next
    case False
    with 1(2) have "A = []" by (auto dest: dvd_imp_le)
    then show ?thesis by simp
  qed
qed

section \<open>What an object has absorbed\<close>

text \<open>
  \<open>absorbed M s\<close>: the bytes \<open>M\<close> went into \<open>s\<close>, its whole blocks into the hash words, the
  rest into the buffer. The rest of the buffer is arbitrary.
\<close>

definition absorbed :: "bytes \<Rightarrow> sha256 \<Rightarrow> bool" where
  "absorbed M s \<longleftrightarrow>
    length (m_buffer s) = 64 \<and>
    (\<exists>A R. M = A @ R \<and> 64 dvd length A \<and> length R < 64 \<and> m_bufferSize s = length R \<and>
       take (length R) (m_buffer s) = R \<and> m_numBytes s = of_nat (length A) \<and>
       m_hash s = hash_blocks initial_hash A)"

lemma absorbedI:
  "length (m_buffer s) = 64 \<Longrightarrow> M = A @ R \<Longrightarrow> 64 dvd length A \<Longrightarrow> length R < 64 \<Longrightarrow>
   m_bufferSize s = length R \<Longrightarrow> take (length R) (m_buffer s) = R \<Longrightarrow>
   m_numBytes s = of_nat (length A) \<Longrightarrow> m_hash s = hash_blocks initial_hash A \<Longrightarrow> absorbed M s"
  unfolding absorbed_def by blast

lemma absorbedE:
  assumes "absorbed M s"
  obtains A R where "length (m_buffer s) = 64" "M = A @ R" "64 dvd length A" "length R < 64"
    "m_bufferSize s = length R" "take (length R) (m_buffer s) = R"
    "m_numBytes s = of_nat (length A)" "m_hash s = hash_blocks initial_hash A"
  using assms unfolding absorbed_def by blast

lemma reset_absorbs_nothing: "length (m_buffer s) = 64 \<Longrightarrow> absorbed [] (sha_reset s)"
  by (rule absorbedI [where A = "[]" and R = "[]"]) (simp_all add: sha_reset_def initial_hash_def)

lemma keep_rest_eq:
  "m_bufferSize s + length cur \<le> length (m_buffer s) \<Longrightarrow>
   keep_rest s cur = s\<lparr>m_buffer := take (m_bufferSize s) (m_buffer s) @ cur
       @ drop (m_bufferSize s + length cur) (m_buffer s),
     m_bufferSize := m_bufferSize s + length cur\<rparr>"
proof (induction cur arbitrary: s)
  case Nil
  then show ?case by simp
next
  case (Cons b cur)
  then show ?case
    by (simp add: take_update_swap drop_update_swap upd_conv_take_nth_drop add.commute)
qed

lemma fill_buffer_eq:
  "m_bufferSize s \<le> 64 \<Longrightarrow> length (m_buffer s) = 64 \<Longrightarrow> k = min (64 - m_bufferSize s) (length cur) \<Longrightarrow>
   fill_buffer s cur = (keep_rest s (take k cur), drop k cur)"
proof (induction cur arbitrary: s k)
  case Nil
  then show ?case by simp
next
  case (Cons b cur)
  show ?case
  proof (cases "m_bufferSize s < 64")
    case True
    then obtain d where d: "64 - m_bufferSize s = Suc d" by (metis Suc_diff_Suc)
    then have "63 - m_bufferSize s = d" by simp
    with d True Cons.prems Cons.IH [OF _ _ refl] show ?thesis by (simp add: min_def)
  next
    case False
    with Cons.prems show ?thesis by simp
  qed
qed

lemma process_blocks_eq:
  "\<exists>B R. cur = B @ R \<and> 64 dvd length B \<and> length R < 64 \<and>
     process_blocks s cur = (s\<lparr>m_hash := hash_blocks (m_hash s) B,
       m_numBytes := m_numBytes s + of_nat (length B)\<rparr>, R)"
proof (induction s cur rule: process_blocks.induct)
  case (1 s cur)
  show ?case
  proof (cases "64 \<le> length cur")
    case True
    then obtain B R where IH: "drop 64 cur = B @ R" "64 dvd length B" "length R < 64"
      "process_blocks (s\<lparr>m_hash := processBlock (take 64 cur) (m_hash s), m_numBytes := m_numBytes s + 64\<rparr>)
         (drop 64 cur) = (s\<lparr>m_hash := hash_blocks (processBlock (take 64 cur) (m_hash s)) B,
           m_numBytes := m_numBytes s + 64 + of_nat (length B)\<rparr>, R)"
      using 1 by auto
    have "cur = (take 64 cur @ B) @ R" using IH(1) by (metis append.assoc append_take_drop_id)
    moreover have "64 dvd length (take 64 cur @ B)" using True IH(2) by simp
    moreover have "hash_blocks (m_hash s) (take 64 cur @ B)
        = hash_blocks (processBlock (take 64 cur) (m_hash s)) B"
      using True by (simp add: hash_blocks_step processBlock_std)
    moreover have "process_blocks s cur = (s\<lparr>m_hash := hash_blocks (m_hash s) (take 64 cur @ B),
       m_numBytes := m_numBytes s + of_nat (length (take 64 cur @ B))\<rparr>, R)"
      using True IH(4) calculation(3) by (subst process_blocks.simps) (simp add: ac_simps)
    ultimately show ?thesis using IH(3) by blast
  next
    case False
    then show ?thesis
      by (intro exI [of _ "[]"] exI [of _ cur]) (simp add: process_blocks.simps)
  qed
qed


lemma absorbed_keep_rest:
  assumes "absorbed M s" and "m_bufferSize s + length cur < 64"
  shows "absorbed (M @ cur) (keep_rest s cur)"
  using assms(1)
proof (rule absorbedE)
  fix A R
  assume s: "length (m_buffer s) = 64" "M = A @ R" "64 dvd length A" "length R < 64"
    "m_bufferSize s = length R" "take (length R) (m_buffer s) = R"
    "m_numBytes s = of_nat (length A)" "m_hash s = hash_blocks initial_hash A"
  show "absorbed (M @ cur) (keep_rest s cur)"
    by (rule absorbedI [where A = A and R = "R @ cur"]) (use s assms(2) in \<open>simp_all add: keep_rest_eq\<close>)
qed

lemma absorbed_process_blocks:
  assumes "absorbed M s" and "m_bufferSize s = 0" and "process_blocks s cur = (s', rest)"
  shows "\<exists>B. cur = B @ rest \<and> absorbed (M @ B) s' \<and> m_bufferSize s' = 0 \<and> length rest < 64"
  using assms(1)
proof (rule absorbedE)
  fix A R
  assume s: "length (m_buffer s) = 64" "M = A @ R" "64 dvd length A" "length R < 64"
    "m_bufferSize s = length R" "take (length R) (m_buffer s) = R"
    "m_numBytes s = of_nat (length A)" "m_hash s = hash_blocks initial_hash A"
  obtain B where B: "cur = B @ rest" "64 dvd length B" "length rest < 64"
      "s' = s\<lparr>m_hash := hash_blocks (m_hash s) B, m_numBytes := m_numBytes s + of_nat (length B)\<rparr>"
    using process_blocks_eq [of cur s] assms(3) by auto
  have "absorbed (M @ B) s'"
    by (rule absorbedI [where A = "A @ B" and R = "[]"])
      (use s B assms(2) in \<open>simp_all add: hash_blocks_append\<close>)
  with B assms(2) show ?thesis by auto
qed

text \<open>The buffer became full: the block goes into the hash words.\<close>

lemma absorbed_flush:
  assumes "absorbed M s" and "m_bufferSize s + length cur = 64" and "s1 = keep_rest s cur"
  shows "absorbed (M @ cur) (s1\<lparr>m_hash := processBlock (m_buffer s1) (m_hash s1),
           m_numBytes := m_numBytes s1 + of_nat BlockSize, m_bufferSize := 0\<rparr>)"
  using assms(1)
proof (rule absorbedE)
  fix A R
  assume s: "length (m_buffer s) = 64" "M = A @ R" "64 dvd length A" "length R < 64"
    "m_bufferSize s = length R" "take (length R) (m_buffer s) = R"
    "m_numBytes s = of_nat (length A)" "m_hash s = hash_blocks initial_hash A"
  have "length R + length cur = 64" using assms(2) s by simp
  then have "hash_blocks initial_hash (A @ (R @ cur))
      = processBlock (R @ cur) (hash_blocks initial_hash A)"
    using s by (simp add: hash_blocks_append processBlock_std del: append_assoc)
  with s assms(2) show ?thesis unfolding assms(3)
    by (intro absorbedI [where A = "A @ R @ cur" and R = "[]"])
      (simp_all add: keep_rest_eq)
qed

lemma sha_add_absorbs:
  assumes "absorbed M s"
  shows "absorbed (M @ data) (sha_add data s)"
proof -
  from assms have size: "m_bufferSize s < 64" "length (m_buffer s) = 64"
    by (auto elim: absorbedE)
  define k where "k = (if 0 < m_bufferSize s then min (64 - m_bufferSize s) (length data) else 0)"
  define s1 where "s1 = keep_rest s (take k data)"
  have first: "(if 0 < m_bufferSize s then fill_buffer s data else (s, data)) = (s1, drop k data)"
    using size by (simp add: k_def s1_def fill_buffer_eq)
  have k: "m_bufferSize s + k \<le> 64" "k \<le> length data" using size by (auto simp: k_def)
  have sz1: "m_bufferSize s1 = m_bufferSize s + k"
    using k size by (simp add: s1_def keep_rest_eq)
  define s2 where "s2 = (if m_bufferSize s1 = 64
    then s1\<lparr>m_hash := processBlock (m_buffer s1) (m_hash s1),
            m_numBytes := m_numBytes s1 + of_nat BlockSize, m_bufferSize := 0\<rparr> else s1)"
  have a2: "absorbed (M @ take k data) s2"
  proof (cases "m_bufferSize s1 = 64")
    case True
    then show ?thesis using absorbed_flush [OF assms _ s1_def] k sz1 by (simp add: s2_def)
  next
    case False
    then show ?thesis using absorbed_keep_rest [OF assms, of "take k data"] k sz1
      by (simp add: s2_def s1_def)
  qed
  show ?thesis
  proof (cases "drop k data = []")
    case True
    then show ?thesis using a2 first by (simp add: sha_add_def s2_def)
  next
    case False
    then have z: "m_bufferSize s2 = 0" using k size sz1 by (auto simp: s2_def k_def min_def split: if_splits)
    obtain s3 rest where p: "process_blocks s2 (drop k data) = (s3, rest)" by fastforce
    from absorbed_process_blocks [OF a2 z p] obtain B where B: "drop k data = B @ rest"
      "absorbed ((M @ take k data) @ B) s3" "m_bufferSize s3 = 0" "length rest < 64" by blast
    have "absorbed (((M @ take k data) @ B) @ rest) (keep_rest s3 rest)"
      by (rule absorbed_keep_rest) (use B in auto)
    moreover have "((M @ take k data) @ B) @ rest = M @ data"
      by (metis B(1) append.assoc append_take_drop_id)
    ultimately show ?thesis using False first p by (simp add: sha_add_def s2_def)
  qed
qed

section \<open>Padding\<close>

lemma padded_length_eq:
  assumes "n < 64"
  shows "padded_length n = (if n < 56 then 56 else 120)"
proof (cases "n < 56")
  case True
  then show ?thesis by (simp add: padded_length_def Let_def)
next
  case False
  with assms show ?thesis by (simp add: padded_length_def Let_def)
qed

lemma zero_range_eq:
  "i \<le> j \<Longrightarrow> j \<le> length xs \<Longrightarrow>
   zero_range [i..<j] xs = take i xs @ replicate (j - i) 0 @ drop j xs"
proof (induction "j - i" arbitrary: i xs)
  case 0
  then show ?case by (simp add: zero_range_def)
next
  case (Suc d)
  then have "i < j" by simp
  then have "zero_range [i..<j] xs = zero_range [Suc i..<j] (xs[i := 0])"
    by (simp add: zero_range_def upt_rec)
  also have "\<dots> = take (Suc i) (xs[i := 0]) @ replicate (j - Suc i) 0 @ drop j (xs[i := 0])"
    using Suc.hyps(1) [of "Suc i" "xs[i := 0]"] Suc.hyps(2) Suc.prems by simp
  also have "\<dots> = take i xs @ replicate (j - i) 0 @ drop j xs"
    using \<open>i < j\<close> Suc.prems(2)
    by (simp add: take_Suc_conv_app_nth Suc_diff_Suc [symmetric])
  finally show ?case .
qed

lemma length_msg_bits_bytes [simp]: "length (msg_bits_bytes b) = 8"
  by (simp add: msg_bits_bytes_def)

text \<open>The blocks \<open>processBuffer\<close> builds from the rest \<open>R\<close> of the message.\<close>

text \<open>
  What the padding writes: the marker and zeros behind the \<open>R\<close> bytes that are left (\<open>marked\<close>), and
  the number of bits in the last eight bytes of this block or of one more.
\<close>

definition marked :: "bytes \<Rightarrow> bytes" where
  "marked R = R @ 128 # replicate (63 - length R) 0"

lemma marked_buffer:
  assumes "length R < 64" and "take (length R) buf = R" and "length buf = 64"
  shows "zero_range [length R + 1..<64] (buf[length R := 128]) = marked R" "length (marked R) = 64"
  using assms by (simp_all add: zero_range_eq marked_def upd_conv_take_nth_drop)

lemma one_block:
  assumes "length R < 56" and "length bits = 8"
  shows "write_at 56 bits (marked R) = R @ [128] @ replicate ((119 - length R) mod 64) 0 @ bits"
    and "length (write_at 56 bits (marked R)) = 64"
proof -
  have "(119 - length R) mod 64 = 55 - length R" using assms(1) by (simp add: mod_if)
  then show "write_at 56 bits (marked R) = R @ [128] @ replicate ((119 - length R) mod 64) 0 @ bits"
    using assms by (simp add: write_at_def marked_def take_Cons' min_def)
  show "length (write_at 56 bits (marked R)) = 64" using assms by (simp add: write_at_def marked_def)
qed

lemma two_blocks:
  assumes "56 \<le> length R" and "length R < 64" and "length bits = 8" and "length extra = 64"
  shows "marked R @ write_at 56 bits (replicate 56 0 @ drop 56 extra) = R @ [128] @ replicate ((119 - length R) mod 64) 0 @ bits"
    and "length (write_at 56 bits (replicate 56 0 @ drop 56 extra)) = 64"
    and "zero_range (map (\<lambda>i. i - 64) [64..<120]) extra = replicate 56 0 @ drop 56 extra"
proof -
  have "(119 - length R) mod 64 = (63 - length R) + 56" using assms(1,2) by (simp add: mod_if)
  then have "replicate ((119 - length R) mod 64) (0 :: byte) = replicate (63 - length R) 0 @ replicate 56 0"
    by (simp only: replicate_add)
  then show "marked R @ write_at 56 bits (replicate 56 0 @ drop 56 extra) = R @ [128] @ replicate ((119 - length R) mod 64) 0 @ bits"
    using assms(3,4) by (simp add: write_at_def marked_def)
  show "length (write_at 56 bits (replicate 56 0 @ drop 56 extra)) = 64" using assms(3,4) by (simp add: write_at_def)
  have "map (\<lambda>i. i - 64) [64..<120] = [0..<56::nat]"
    by (simp del: upt_rec_numeral add: list_eq_iff_nth_eq)
  then show "zero_range (map (\<lambda>i. i - 64) [64..<120]) extra = replicate 56 0 @ drop 56 extra"
    using zero_range_eq [of 0 56 extra] assms(4) by simp
qed

lemma processBuffer_eq:
  assumes "absorbed (A @ R) s" and "64 dvd length A" and "length R < 64" and "length extra = 64"
    and "m_bufferSize s = length R" and "take (length R) (m_buffer s) = R"
    and "m_numBytes s = of_nat (length A)" and "length (m_buffer s) = 64"
  shows "m_hash (processBuffer extra s) = hash_blocks (m_hash s)
           (R @ [128] @ replicate ((119 - length R) mod 64) 0
             @ msg_bits_bytes (of_nat (8 * length (A @ R))))
     \<and> m_bufferSize (processBuffer extra s) = length R
     \<and> m_numBytes (processBuffer extra s) = of_nat (length A)
     \<and> length (m_buffer (processBuffer extra s)) = 64
     \<and> take (length R) (m_buffer (processBuffer extra s)) = R"
proof -
  let ?n = "length R"
  define bits where "bits = msg_bits_bytes (of_nat (8 * length (A @ R)))"
  have bits: "msg_bits_bytes (8 * m_numBytes s + 8 * of_nat ?n) = bits" "length bits = 8"
    using assms(7) by (simp_all add: bits_def ring_distribs)
  note mark = marked_buffer [OF assms(3,6,8)]
  show ?thesis
  proof (cases "?n < 56")
    case True
    note blk = one_block [OF True bits(2)]
    have "zero_range (map (\<lambda>i. i - 64) [max (?n + 1) 64..<56]) extra = extra" by (simp add: zero_range_def)
    then have "processBuffer extra s = s\<lparr>m_buffer := write_at 56 bits (marked R),
        m_hash := processBlock (write_at 56 bits (marked R)) (m_hash s)\<rparr>"
      using True assms(3,5) by (simp add: processBuffer_def padded_length_eq Let_def mark [simplified] bits)
    moreover have "processBlock (write_at 56 bits (marked R)) (m_hash s) = hash_blocks (m_hash s) (write_at 56 bits (marked R))"
      using blk(2) by (simp add: processBlock_std)
    ultimately show ?thesis using blk assms(5,7) by (simp add: bits_def)
  next
    case False
    then have "56 \<le> ?n" by simp
    note blk = two_blocks [OF this assms(3) bits(2) assms(4)]
    let ?b = "write_at 56 bits (replicate 56 0 @ drop 56 extra)"
    have m: "max (?n + 1) 64 = 64" using assms(3) by simp
    have "processBuffer extra s = s\<lparr>m_buffer := marked R, m_hash := processBlock ?b (processBlock (marked R) (m_hash s))\<rparr>"
      using False assms(3,5)
      by (simp add: processBuffer_def padded_length_eq Let_def blk(3) m [simplified] mark [simplified] bits
          del: upt_rec_numeral)
    moreover have "processBlock ?b (processBlock (marked R) (m_hash s)) = hash_blocks (m_hash s) (marked R @ ?b)"
      using blk(2) mark(2) by (simp add: processBlock_std hash_blocks_step)
    ultimately show ?thesis using blk(1) mark(2) assms(5,7) by (simp add: bits_def marked_def)
  qed
qed

lemma hash_blocks_padded:
  assumes "64 dvd length A" and "length R < 64"
  shows "hash_blocks (hash_blocks initial_hash A)
      (R @ [128] @ replicate ((119 - length R) mod 64) 0 @ msg_bits_bytes (of_nat (8 * length (A @ R))))
    = hash_blocks initial_hash (std_pad (A @ R))"
proof -
  have "length (A @ R) mod 64 = length R"
    using assms by (auto elim!: dvdE)
  then show ?thesis
    using hash_blocks_append [OF assms(1), of initial_hash] by (simp add: std_pad_def)
qed

text \<open>The digest of an object, and that asking for it leaves the object as it was.\<close>

lemma getHash_absorbed:
  assumes "absorbed M s" and "length extra = 64"
  shows "fst (getHash extra s) = concat (map hex_byte (std_sha256 M))
    \<and> absorbed M (snd (getHash extra s))"
  using assms(1)
proof (rule absorbedE)
  fix A R
  assume s: "length (m_buffer s) = 64" "M = A @ R" "64 dvd length A" "length R < 64"
    "m_bufferSize s = length R" "take (length R) (m_buffer s) = R"
    "m_numBytes s = of_nat (length A)" "m_hash s = hash_blocks initial_hash A"
  note p = processBuffer_eq [OF assms(1) [unfolded s(2)] s(3,4) assms(2) s(5,6,7,1)]
  have "absorbed M (snd (getHash extra s))"
    by (rule absorbedI [where A = A and R = R])
      (use s p in \<open>simp_all add: getHash_def getHash_raw_def Let_def\<close>)
  moreover have "fst (getHash extra s) = concat (map hex_byte (std_sha256 M))"
    using p hash_blocks_padded [OF s(3,4)]
    by (simp add: getHash_def getHash_raw_def Let_def std_sha256_def s(2,8))
  ultimately show ?thesis by blast
qed

section \<open>Using the class\<close>

text \<open>Any mixture of \<open>add\<close>, \<open>getHash\<close> and \<open>reset\<close> on one object, with the digests it returns.\<close>

datatype sha_op = Add bytes | Digest bytes | Reset

fun sha_apply :: "sha_op \<Rightarrow> sha256 \<Rightarrow> string list \<times> sha256" where
  "sha_apply (Add data) s = ([], sha_add data s)"
| "sha_apply (Digest extra) s = (let (d, s') = getHash extra s in ([d], s'))"
| "sha_apply Reset s = ([], sha_reset s)"

fun sha_run :: "sha_op list \<Rightarrow> sha256 \<Rightarrow> string list \<times> sha256" where
  "sha_run [] s = ([], s)"
| "sha_run (x # xs) s = (let (d, s1) = sha_apply x s; (ds, s2) = sha_run xs s1 in (d @ ds, s2))"

text \<open>What the digests have to be: the standard's hash of the bytes since the last reset.\<close>

definition hex_digest :: "bytes \<Rightarrow> string" where
  "hex_digest M = concat (map hex_byte (std_sha256 M))"

lemma length_std_compress: "length (std_compress H data) = 8"
  by (simp add: std_compress_def Let_def split: prod.splits)

lemma length_hash_blocks: "length H = 8 \<Longrightarrow> length (hash_blocks H M) = 8"
  by (induction H M rule: hash_blocks.induct) (subst hash_blocks.simps, simp add: length_std_compress)

lemma length_concat_const: "(\<And>x. length (f x) = n) \<Longrightarrow> length (concat (map f xs)) = n * length xs"
  by (induction xs) simp_all

lemma length_hex_digest: "length (hex_digest M) = 64"
proof -
  have "length (std_sha256 M) = 4 * 8"
    unfolding std_sha256_def
    by (subst length_concat_const [where n = 4])
      (simp_all add: hash_bytes_def length_hash_blocks initial_hash_def)
  then show ?thesis
    unfolding hex_digest_def
    by (subst length_concat_const [where n = 2]) (simp_all add: hex_byte_def)
qed

fun std_run :: "sha_op list \<Rightarrow> bytes \<Rightarrow> string list" where
  "std_run [] M = []"
| "std_run (Add data # xs) M = std_run xs (M @ data)"
| "std_run (Digest extra # xs) M = hex_digest M # std_run xs M"
| "std_run (Reset # xs) M = std_run xs []"

fun sized :: "sha_op \<Rightarrow> bool" where
  "sized (Digest extra) = (length extra = 64)"
| "sized _ = True"

lemma sha_run_std: "absorbed M s \<Longrightarrow> list_all sized xs \<Longrightarrow> fst (sha_run xs s) = std_run xs M"
proof (induction xs arbitrary: M s)
  case Nil
  then show ?case by simp
next
  case (Cons x xs)
  have len: "length (m_buffer s) = 64" using Cons.prems(1) by (rule absorbedE)
  show ?case
  proof (cases x)
    case (Add data)
    then show ?thesis
      using Cons.IH [OF sha_add_absorbs [OF Cons.prems(1)], of data] Cons.prems(2)
      by (simp add: case_prod_beta Let_def)
  next
    case (Digest extra)
    with Cons.prems(2) have "length extra = 64" by simp
    from getHash_absorbed [OF Cons.prems(1) this] Digest Cons.IH [of M "snd (getHash extra s)"] Cons.prems(2)
    show ?thesis by (simp add: case_prod_beta Let_def hex_digest_def)
  next
    case Reset
    then show ?thesis
      using Cons.IH [OF reset_absorbs_nothing [OF len]] Cons.prems(2)
      by (simp add: case_prod_beta Let_def)
  qed
qed

section \<open>Properties\<close>

text \<open>
  C14: The unrolled, register-renaming compression \<open>processBlock\<close> with its schedule computed
  eight words at a time is, on every 64-byte block and every chaining value, the sixty-four
  rotating steps of the SHA-256 standard over the full message schedule.
\<close>

theorem processBlock_is_standard:
  assumes "length data = 64"
  shows "processBlock data H = std_compress H data"
  by (rule processBlock_std [OF assms])

theorem processBlock_is_standard_witness:
  "processBlock (replicate 64 7) initial_hash = std_compress initial_hash (replicate 64 7)"
  by (rule processBlock_is_standard) simp

text \<open>
  C13: However a message is cut into calls of \<open>add\<close>, however often the digest is asked for in
  between and whatever the uninitialised memory (the buffer of a fresh object, the array
  \<open>extra\<close>) holds, every digest is the hexadecimal SHA-256 of exactly the bytes added since
  the last \<open>reset\<close>, padded as the standard says.
\<close>

theorem sha256_streaming:
  assumes "length (m_buffer s) = 64" and "list_all sized xs"
  shows "fst (sha_run (Reset # xs) s) = std_run xs []"
  using sha_run_std [OF reset_absorbs_nothing [OF assms(1)] assms(2)]
  by (simp add: case_prod_beta Let_def)

text \<open>The object before its constructor ran, filled with some byte.\<close>

definition raw_sha :: "byte \<Rightarrow> sha256" where
  "raw_sha b = \<lparr>m_numBytes = 5, m_bufferSize = 9, m_buffer = replicate 64 b, m_hash = []\<rparr>"

theorem sha256_streaming_witness:
  "fst (sha_run [Reset, Add [0x61], Digest (replicate 64 3), Add [0x62, 0x63], Digest (replicate 64 8)] (raw_sha 1))
     = [hex_digest [0x61], hex_digest [0x61, 0x62, 0x63]]"
  by (subst sha256_streaming) (simp_all add: raw_sha_def)

text \<open>
  The call operator hashes a whole buffer to 64 lower-case hexadecimal digits which do not
  depend on what the object held before or on uninitialised memory: the SHA-256 of the buffer.
\<close>

theorem sha256_of_buffer:
  assumes "length (m_buffer s) = 64" and "length extra = 64"
  shows "fst (sha_call extra data s) = hex_digest data \<and> length (hex_digest data) = 64"
proof -
  have "fst (sha_call extra data s) = hex_digest data"
    unfolding sha_call_def hex_digest_def
    using getHash_absorbed [OF sha_add_absorbs [OF reset_absorbs_nothing [OF assms(1)]] assms(2), of data]
    by simp
  then show ?thesis by (simp add: length_hex_digest)
qed

theorem sha256_of_buffer_witness:
  "fst (sha_call (replicate 64 9) [0x61, 0x62, 0x63] (raw_sha 4)) = hex_digest [0x61, 0x62, 0x63]"
  by (rule conjunct1 [OF sha256_of_buffer]) (simp_all add: raw_sha_def)

end
