(* ===== verification/Hash_Cache.thy ===== *)
theory Hash_Cache
  imports Lru_Cache Sha256
begin

text \<open>
  \<^verbatim>\<open>src/distributed/discovery/include/hash_cache.h\<close> and \<^verbatim>\<open>hash_cache.cpp\<close>: the SHA-256 digests
  of library files by file name, kept in a bounded cache. Built on the contract of the cache
  (locale \<open>key_cache\<close>, interpretation \<open>lru\<close>) and on \<open>SHA256\<close>.
\<close>

abbreviation lru_lookup :: "'v lru_cache \<Rightarrow> string \<rightharpoonup> 'v" where
  "lru_lookup c \<equiv> map_of (lru_abs c)"

record hash_cache =
  hc_lruCache :: "string lru_cache"

definition hash_cache_new :: "nat \<Rightarrow> hash_cache" where
  "hash_cache_new capacity = \<lparr>hc_lruCache = lru_new capacity\<rparr>"

text \<open>
  \<open>SHA256 sha256; sha256(data, size)\<close>: the memory a local object and the local array \<open>extra\<close>
  happen to hold is taken as zero; the digest does not depend on it (\<open>sha256_of_hex\<close>).
\<close>

definition sha256_of :: "bytes \<Rightarrow> string" where
  "sha256_of data = fst (sha_call (replicate 64 0) data
     \<lparr>m_numBytes = 0, m_bufferSize = 0, m_buffer = replicate 64 0, m_hash = []\<rparr>)"

definition hash_file :: "string \<Rightarrow> bytes \<Rightarrow> hash_cache \<Rightarrow> string result \<times> hash_cache" where
  "hash_file name file c =
    (let hash = sha256_of file
     in case lru_put name hash (hc_lruCache c) of
          (Inl e, l) \<Rightarrow> (Inl e, c\<lparr>hc_lruCache := l\<rparr>)
        | (Inr _, l) \<Rightarrow> (Inr hash, c\<lparr>hc_lruCache := l\<rparr>))"

definition has_file :: "string \<Rightarrow> hash_cache \<Rightarrow> bool" where
  "has_file name c = lru_contains name (hc_lruCache c)"

definition get_file_hash :: "string \<Rightarrow> hash_cache \<Rightarrow> string option result \<times> hash_cache" where
  "get_file_hash name c =
    (if lru_contains name (hc_lruCache c)
     then (case lru_get name (hc_lruCache c) of
             (Inl e, l) \<Rightarrow> (Inl e, c\<lparr>hc_lruCache := l\<rparr>)
           | (Inr h, l) \<Rightarrow> (Inr (Some h), c\<lparr>hc_lruCache := l\<rparr>))
     else (Inr None, c))"

definition hash_cache_erase :: "string \<Rightarrow> hash_cache \<Rightarrow> hash_cache" where
  "hash_cache_erase name c = c\<lparr>hc_lruCache := lru_erase name (hc_lruCache c)\<rparr>"

section \<open>Lemmas\<close>

lemma sha256_of_hex: "sha256_of data = hex_digest data"
  unfolding sha256_of_def sha_call_def hex_digest_def
  by (rule conjunct1 [OF getHash_absorbed],
      rule sha_add_absorbs [where M = "[]", simplified], rule reset_absorbs_nothing) simp_all

definition hc_inv :: "hash_cache \<Rightarrow> bool" where
  "hc_inv c = lru_inv (hc_lruCache c)"

abbreviation hc_lookup :: "hash_cache \<Rightarrow> string \<rightharpoonup> string" where
  "hc_lookup c \<equiv> lru_lookup (hc_lruCache c)"

lemma hash_cache_new_inv: "0 < n \<Longrightarrow> hc_inv (hash_cache_new n)"
  by (simp add: hc_inv_def hash_cache_new_def)

lemma hash_cache_new_empty [simp]: "hc_lookup (hash_cache_new n) = (\<lambda>_. None)"
  by (simp add: hash_cache_new_def lru_new_def lru_abs_def)

lemma has_file_lookup: "hc_inv c \<Longrightarrow> has_file name c \<longleftrightarrow> hc_lookup c name \<noteq> None"
  by (simp add: hc_inv_def has_file_def lru.contains_lookup)

lemma hash_file_ok:
  assumes "hc_inv c"
  shows "\<exists>c'. hash_file name file c = (Inr (sha256_of file), c') \<and> hc_inv c'
    \<and> hc_lookup c' name = Some (sha256_of file)
    \<and> (\<forall>k. k \<noteq> name \<longrightarrow> hc_lookup c' k \<in> {None, hc_lookup c k})"
proof -
  let ?l = "hc_lruCache c"
  have inv: "lru_inv ?l" using assms by (simp add: hc_inv_def)
  note put = lru.put_succeeds [OF inv, of name "sha256_of file"]
    lru.put_lookup [OF inv, of name "sha256_of file"]
    lru.put_other [OF inv, of _ name "sha256_of file"]
  obtain r l' where l': "lru_put name (sha256_of file) ?l = (r, l')" by fastforce
  have "hash_file name file c = (Inr (sha256_of file), c\<lparr>hc_lruCache := l'\<rparr>)"
    using put(1) l' by (simp add: hash_file_def)
  moreover have "hc_inv (c\<lparr>hc_lruCache := l'\<rparr>)" using put(1) l' by (simp add: hc_inv_def)
  moreover have "hc_lookup (c\<lparr>hc_lruCache := l'\<rparr>) name = Some (sha256_of file)"
    using put(2) l' by simp
  moreover have "\<forall>k. k \<noteq> name \<longrightarrow> hc_lookup (c\<lparr>hc_lruCache := l'\<rparr>) k \<in> {None, hc_lookup c k}"
    using put(3) l' by simp
  ultimately show ?thesis by blast
qed

lemma get_file_hash_ok:
  assumes "hc_inv c"
  shows "\<exists>c'. get_file_hash name c = (Inr (hc_lookup c name), c') \<and> hc_inv c' \<and> hc_lookup c' = hc_lookup c"
proof (cases "hc_lookup c name")
  case None
  then show ?thesis using assms by (simp add: get_file_hash_def hc_inv_def lru.contains_lookup)
next
  case (Some h)
  have inv: "lru_inv (hc_lruCache c)" using assms by (simp add: hc_inv_def)
  obtain l' where l': "lru_get name (hc_lruCache c) = (Inr h, l')" "lru_inv l'"
      "lru_lookup l' = hc_lookup c"
    using lru.get_hit [OF inv Some] lru.get_keeps [OF inv, of name]
    by (cases "lru_get name (hc_lruCache c)") auto
  then show ?thesis
    using Some inv by (simp add: get_file_hash_def hc_inv_def lru.contains_lookup)
qed

lemma hash_cache_erase_ok:
  "hc_inv c \<Longrightarrow> hc_inv (hash_cache_erase name c)
     \<and> hc_lookup (hash_cache_erase name c) = (hc_lookup c)(name := None)"
  by (simp add: hc_inv_def hash_cache_erase_def lru.erase_spec)

section \<open>Runs\<close>

datatype hc_op = Hash_file string bytes | Get_hash string | Erase_hash string

fun hc_apply :: "hc_op \<Rightarrow> hash_cache \<Rightarrow> string option result \<times> hash_cache" where
  "hc_apply (Hash_file n f) c = (case hash_file n f c of (r, c') \<Rightarrow> (map_sum id Some r, c'))"
| "hc_apply (Get_hash n) c = get_file_hash n c"
| "hc_apply (Erase_hash n) c = (Inr None, hash_cache_erase n c)"

text \<open>The file last hashed under each name; an erased name has none.\<close>

fun filed :: "hc_op list \<Rightarrow> (string \<rightharpoonup> bytes) \<Rightarrow> string \<rightharpoonup> bytes" where
  "filed [] m = m"
| "filed (Hash_file n f # ops) m = filed ops (m(n \<mapsto> f))"
| "filed (Get_hash n # ops) m = filed ops m"
| "filed (Erase_hash n # ops) m = filed ops (m(n := None))"

fun hc_run :: "hc_op list \<Rightarrow> hash_cache \<Rightarrow> hash_cache" where
  "hc_run [] c = c"
| "hc_run (x # ops) c = hc_run ops (snd (hc_apply x c))"

abbreviation tracks :: "hash_cache \<Rightarrow> (string \<rightharpoonup> bytes) \<Rightarrow> bool" where
  "tracks c m \<equiv> hc_inv c \<and> (\<forall>n. hc_lookup c n \<in> {None, map_option sha256_of (m n)})"

lemma hc_apply_tracks: "tracks c m \<Longrightarrow> tracks (snd (hc_apply x c)) (filed [x] m)"
proof (cases x)
  case (Hash_file n f)
  assume t: "tracks c m"
  obtain c' where "hash_file n f c = (Inr (sha256_of f), c')" "hc_inv c'"
      "hc_lookup c' n = Some (sha256_of f)" "\<forall>k. k \<noteq> n \<longrightarrow> hc_lookup c' k \<in> {None, hc_lookup c k}"
    using hash_file_ok t by blast
  with t Hash_file show ?thesis by auto metis
next
  case (Get_hash n)
  assume t: "tracks c m"
  then show ?thesis using get_file_hash_ok [of c n] Get_hash by auto
next
  case (Erase_hash n)
  assume t: "tracks c m"
  then show ?thesis using hash_cache_erase_ok [of c n] Erase_hash by auto
qed

lemma hc_run_tracks: "tracks c m \<Longrightarrow> tracks (hc_run ops c) (filed ops m)"
proof (induction ops arbitrary: c m)
  case (Cons x ops)
  have "filed (x # ops) m = filed ops (filed [x] m)" by (cases x) simp_all
  with Cons.IH [OF hc_apply_tracks [OF Cons.prems]] show ?case by simp
qed simp

section \<open>Properties\<close>

text \<open>
  The hash cache never answers with a stale digest of a file it was given: after any
  sequence of \<open>hash_file\<close>, \<open>get_file_hash\<close> and \<open>erase\<close> on a new cache, a lookup of a name
  answers nothing or the SHA-256 of the file last hashed under that name, never throws, and
  an erased name answers nothing.
\<close>

theorem hash_cache_answers_last_file:
  assumes "0 < capacity"
  shows "\<exists>c'. get_file_hash name (hc_run ops (hash_cache_new capacity))
       = (Inr (hc_lookup (hc_run ops (hash_cache_new capacity)) name), c')
     \<and> hc_lookup (hc_run ops (hash_cache_new capacity)) name
         \<in> {None, map_option hex_digest (filed ops (\<lambda>_. None) name)}"
proof -
  have "tracks (hc_run ops (hash_cache_new capacity)) (filed ops (\<lambda>_. None))"
    by (rule hc_run_tracks) (simp add: hash_cache_new_inv assms)
  moreover have "sha256_of = hex_digest" by (rule ext) (rule sha256_of_hex)
  ultimately show ?thesis using get_file_hash_ok by fastforce
qed

theorem hash_cache_answers_last_file_witness:
  "\<exists>r c'. get_file_hash ''a'' (hc_run [Hash_file ''a'' [1], Hash_file ''b'' [], Hash_file ''a'' [2]] (hash_cache_new 50))
       = (Inr r, c') \<and> r \<in> {None, Some (hex_digest [2])}"
  using hash_cache_answers_last_file
    [of 50 "''a''" "[Hash_file ''a'' [1], Hash_file ''b'' [], Hash_file ''a'' [2]]"]
  by auto

end
