(* ===== verification/Lib_Loader.thy ===== *)
theory Lib_Loader
  imports Prelude
begin

text \<open>
  \<^verbatim>\<open>src/distributed/dynamic/include/lib_loader.h\<close> and \<^verbatim>\<open>defines.h\<close>: the loader of one shared
  library. The operating system's interface (\<open>dlopen\<close>, \<open>dlsym\<close>, \<open>dlclose\<close>, \<open>dlerror\<close> or their
  Windows counterparts) and the functions of the library itself are not code of the
  repository: they are the fields of the record \<open>dl_api\<close>, an argument of every operation that
  uses them. A handle or a function pointer is a number, \<open>0\<close> the null pointer. \<open>dlopen\<close> sees
  the file that the path names at that moment. The allocator and the cloner of a library may throw;
  their exceptions pass through the loader.

  The calls of the optional function \<open>run_after_load\<close> of a library are returned in the order
  they happen, so that it can be stated how often it runs.
\<close>

datatype platform = Win32 | Apple | Linux

record ('p, 'u) dl_api =
  platform :: platform
  dl_open :: "string \<Rightarrow> bytes option \<Rightarrow> nat"
  dl_sym :: "nat \<Rightarrow> string \<Rightarrow> nat"
  dl_close :: "nat \<Rightarrow> int"
  dl_error :: "string option"
  last_error :: nat
  call_alloc :: "nat \<Rightarrow> 'p \<Rightarrow> 'u result"
  call_clone :: "nat \<Rightarrow> 'u \<Rightarrow> 'u result"

section \<open>The portable layer\<close>

definition portable_dlopen :: "('p, 'u) dl_api \<Rightarrow> (string \<Rightarrow> bytes option) \<Rightarrow> string \<Rightarrow> nat" where
  "portable_dlopen api fs path = dl_open api path (fs path)"

definition portable_dlsym :: "('p, 'u) dl_api \<Rightarrow> nat \<Rightarrow> string \<Rightarrow> nat" where
  "portable_dlsym api handle symbol = dl_sym api handle symbol"

definition portable_dlclose :: "('p, 'u) dl_api \<Rightarrow> nat \<Rightarrow> int" where
  "portable_dlclose api handle = dl_close api handle"

definition has_dlclose_failed :: "platform \<Rightarrow> int \<Rightarrow> bool" where
  "has_dlclose_failed p return_value = (if p = Win32 then return_value = 0 else return_value \<noteq> 0)"

definition error_msg :: "('p, 'u) dl_api \<Rightarrow> string" where
  "error_msg api =
    (if platform api = Win32 then ''LoadLibrary / CloseLibrary error code: '' @ nat_str (last_error api)
     else case dl_error api of Some err \<Rightarrow> err | None \<Rightarrow> ''Unknown Error'')"

definition portable_dll_extension :: "platform \<Rightarrow> string" where
  "portable_dll_extension p =
    (case p of Win32 \<Rightarrow> ''.dll'' | Apple \<Rightarrow> ''.dylib'' | Linux \<Rightarrow> ''.so'')"

section \<open>The loader\<close>

record lib_loader =
  ll_handle :: nat
  pathToLib :: string
  allocSymbol :: string
  deleteSymbol :: string
  runAfterLoadSymbol :: string
  cloneSymbol :: string
  afterLoadExecuted :: bool

definition lib_loader_new :: "string \<Rightarrow> lib_loader" where
  "lib_loader_new path = \<lparr>ll_handle = 0, pathToLib = path, allocSymbol = ''allocator'',
     deleteSymbol = ''deleter'', runAfterLoadSymbol = ''run_after_load'', cloneSymbol = ''cloner'',
     afterLoadExecuted = False\<rparr>"

text \<open>\<open>std::shared_ptr\<close> with the deleter of the library.\<close>

record 'u shared_obj =
  sp_get :: 'u
  sp_deleter :: nat

definition open_lib :: "('p, 'u) dl_api \<Rightarrow> (string \<Rightarrow> bytes option) \<Rightarrow> lib_loader \<Rightarrow> unit result \<times> lib_loader" where
  "open_lib api fs l =
    (let l' = l\<lparr>ll_handle := portable_dlopen api fs (pathToLib l)\<rparr>
     in if ll_handle l' = 0 then (Inl (Runtime_error (error_msg api)), l') else (Inr (), l'))"

definition close_lib :: "('p, 'u) dl_api \<Rightarrow> lib_loader \<Rightarrow> unit result \<times> lib_loader" where
  "close_lib api l =
    (if ll_handle l = 0 then (Inr (), l)
     else if has_dlclose_failed (platform api) (portable_dlclose api (ll_handle l))
     then (Inl (Runtime_error (error_msg api)), l)
     else (Inr (), l\<lparr>ll_handle := 0\<rparr>))"

definition ensure_after_load :: "('p, 'u) dl_api \<Rightarrow> lib_loader \<Rightarrow> nat list \<times> lib_loader" where
  "ensure_after_load api l =
    (if afterLoadExecuted l then ([], l)
     else let l' = l\<lparr>afterLoadExecuted := True\<rparr>;
              runAfterLoadFunc = portable_dlsym api (ll_handle l') (runAfterLoadSymbol l')
          in (if runAfterLoadFunc \<noteq> 0 then [runAfterLoadFunc] else [], l'))"

definition get_instance ::
  "('p, 'u) dl_api \<Rightarrow> 'p \<Rightarrow> lib_loader \<Rightarrow> 'u shared_obj result \<times> nat list \<times> lib_loader" where
  "get_instance api params l =
    (let allocFunc = portable_dlsym api (ll_handle l) (allocSymbol l);
         deleteFunc = portable_dlsym api (ll_handle l) (deleteSymbol l);
         (calls, l1) = ensure_after_load api l
     in if allocFunc = 0 \<or> deleteFunc = 0
        then (case close_lib api l1 of
                (Inl e, l2) \<Rightarrow> (Inl e, calls, l2)
              | (Inr _, l2) \<Rightarrow> (Inl (Runtime_error (''Can't find allocator or deleter symbol in '' @ pathToLib l)), calls, l2))
        else (map_sum id (\<lambda>p. \<lparr>sp_get = p, sp_deleter = deleteFunc\<rparr>) (call_alloc api allocFunc params), calls, l1))"

definition clone_instance ::
  "('p, 'u) dl_api \<Rightarrow> 'u shared_obj \<Rightarrow> lib_loader \<Rightarrow> 'u shared_obj result \<times> nat list \<times> lib_loader" where
  "clone_instance api other l =
    (let cloneFunc = portable_dlsym api (ll_handle l) (cloneSymbol l);
         deleteFunc = portable_dlsym api (ll_handle l) (deleteSymbol l);
         (calls, l1) = ensure_after_load api l
     in if cloneFunc = 0 \<or> deleteFunc = 0
        then (Inl (Runtime_error (''Can't find clone or deleter symbol in '' @ pathToLib l)), calls, l1)
        else (map_sum id (\<lambda>p. \<lparr>sp_get = p, sp_deleter = deleteFunc\<rparr>) (call_clone api cloneFunc (sp_get other)), calls, l1))"

section \<open>Lemmas\<close>

lemma close_lib_cases:
  obtains (kept) e where "close_lib api l = (Inl e, l)" "ll_handle l \<noteq> 0"
  | (closed) "close_lib api l = (Inr (), l\<lparr>ll_handle := 0\<rparr>)"
  by (cases "ll_handle l = 0"; cases "has_dlclose_failed (platform api) (portable_dlclose api (ll_handle l))")
    (auto simp: close_lib_def)

lemma close_lib_handle: "ll_handle (snd (close_lib api l)) \<in> {0, ll_handle l}"
  by (cases api l rule: close_lib_cases) auto

lemma close_lib_ok: "fst (close_lib api l) = Inr () \<Longrightarrow> ll_handle (snd (close_lib api l)) = 0"
  by (cases api l rule: close_lib_cases) auto

lemma open_lib_ok: "fst (open_lib api fs l) = Inr () \<longleftrightarrow> portable_dlopen api fs (pathToLib l) \<noteq> 0"
  by (simp add: open_lib_def Let_def)

lemma open_lib_handle [simp]: "ll_handle (snd (open_lib api fs l)) = portable_dlopen api fs (pathToLib l)"
  by (simp add: open_lib_def Let_def)

lemma ensure_after_load_handle [simp]:
  "ll_handle (snd (ensure_after_load api l)) = ll_handle l"
  "afterLoadExecuted (snd (ensure_after_load api l))"
  by (simp_all add: ensure_after_load_def Let_def)

lemma get_instance_handle: "ll_handle (snd (snd (get_instance api p l))) \<in> {0, ll_handle l}"
proof -
  obtain calls l1 where e: "ensure_after_load api l = (calls, l1)" by fastforce
  then have "ll_handle l1 = ll_handle l" using ensure_after_load_handle(1) [of api l] by simp
  then show ?thesis
    by (cases api l1 rule: close_lib_cases) (simp_all add: get_instance_def Let_def e)
qed

lemma clone_instance_handle [simp]: "ll_handle (snd (snd (clone_instance api q l))) = ll_handle l"
proof -
  obtain calls l1 where e: "ensure_after_load api l = (calls, l1)" by fastforce
  then have "ll_handle l1 = ll_handle l" using ensure_after_load_handle(1) [of api l] by simp
  then show ?thesis by (simp add: clone_instance_def Let_def e)
qed

lemma instance_path [simp]:
  "pathToLib (snd (snd (get_instance api p l))) = pathToLib l"
  "pathToLib (snd (snd (clone_instance api q l))) = pathToLib l"
proof -
  obtain calls l1 where e: "ensure_after_load api l = (calls, l1)" by fastforce
  then have "pathToLib l1 = pathToLib l" by (auto simp: ensure_after_load_def Let_def split: if_splits)
  then show "pathToLib (snd (snd (get_instance api p l))) = pathToLib l"
    by (cases api l1 rule: close_lib_cases) (simp_all add: get_instance_def Let_def e)
  show "pathToLib (snd (snd (clone_instance api q l))) = pathToLib l"
    using \<open>pathToLib l1 = pathToLib l\<close> by (simp add: clone_instance_def Let_def e)
qed

lemma close_lib_after_load [simp]: "afterLoadExecuted (snd (close_lib api l)) = afterLoadExecuted l"
  by (cases api l rule: close_lib_cases) simp_all

lemma instance_hook:
  "fst (snd (get_instance api p l)) = fst (ensure_after_load api l)"
  "afterLoadExecuted (snd (snd (get_instance api p l)))"
  "fst (snd (clone_instance api q l)) = fst (ensure_after_load api l)"
  "afterLoadExecuted (snd (snd (clone_instance api q l)))"
proof -
  obtain calls l1 where e: "ensure_after_load api l = (calls, l1)" by fastforce
  then have a: "afterLoadExecuted l1" using ensure_after_load_handle(2) [of api l] by simp
  show "fst (snd (get_instance api p l)) = fst (ensure_after_load api l)"
    by (auto simp: get_instance_def Let_def e split: prod.splits sum.splits)
  show "afterLoadExecuted (snd (snd (get_instance api p l)))"
    by (cases api l1 rule: close_lib_cases) (simp_all add: get_instance_def Let_def e a)
  show "fst (snd (clone_instance api q l)) = fst (ensure_after_load api l)"
    by (simp add: clone_instance_def Let_def e)
  show "afterLoadExecuted (snd (snd (clone_instance api q l)))"
    by (simp add: clone_instance_def Let_def e a)
qed

text \<open>Uses of one loader between two calls of \<open>open_lib\<close>.\<close>

datatype ('p, 'u) loader_use = Get_instance 'p | Clone_instance "'u shared_obj"

fun use_loader :: "('p, 'u) dl_api \<Rightarrow> ('p, 'u) loader_use \<Rightarrow> lib_loader
    \<Rightarrow> 'u shared_obj result \<times> nat list \<times> lib_loader" where
  "use_loader api (Get_instance p) l = get_instance api p l"
| "use_loader api (Clone_instance q) l = clone_instance api q l"

fun use_all :: "('p, 'u) dl_api \<Rightarrow> ('p, 'u) loader_use list \<Rightarrow> lib_loader \<Rightarrow> nat list \<times> lib_loader" where
  "use_all api [] l = ([], l)"
| "use_all api (x # xs) l =
     (let (r, calls, l1) = use_loader api x l; (more, l2) = use_all api xs l1 in (calls @ more, l2))"

lemma use_loader_hook:
  "fst (snd (use_loader api x l)) = fst (ensure_after_load api l)"
  "afterLoadExecuted (snd (snd (use_loader api x l)))"
  by (cases x; simp add: instance_hook)+

lemma use_all_executed: "afterLoadExecuted l \<Longrightarrow> fst (use_all api xs l) = []"
proof (induction xs arbitrary: l)
  case (Cons x xs)
  then show ?case using use_loader_hook [of api x l]
    by (simp add: ensure_after_load_def case_prod_beta Let_def)
qed simp

section \<open>Properties\<close>

text \<open>
  C22: the initialisation hook of a library runs exactly once. Of all the objects created or
  cloned through one loader, the first brings the call of the library's \<open>run_after_load\<close> (if
  the library exports one) and no other does, also when creating an object fails.
\<close>

theorem run_after_load_once:
  "fst (use_all api (x # xs) (snd (open_lib api fs (lib_loader_new path))))
     = (let f = dl_sym api (dl_open api path (fs path)) ''run_after_load'' in if f = 0 then [] else [f])"
proof -
  let ?l = "snd (open_lib api fs (lib_loader_new path))"
  have "fst (use_all api (x # xs) ?l) = fst (ensure_after_load api ?l)"
    using use_loader_hook [of api x ?l] use_all_executed
    by (simp add: case_prod_beta Let_def)
  then show ?thesis
    by (simp add: ensure_after_load_def open_lib_def lib_loader_new_def portable_dlopen_def
        portable_dlsym_def Let_def)
qed

end
