(* ===== verification/Udp_Registry.thy ===== *)
theory Udp_Registry
  imports Hash_Cache Lib_Loader
begin

text \<open>
  \<^verbatim>\<open>src/distributed/discovery/include/udp_registry.h\<close> and \<^verbatim>\<open>udp_registry.cpp\<close>: the singleton that
  finds the library of a user-defined problem, fetches it from the controller when it is not
  there, replaces it when its digest is not the one the controller announced, and keeps the
  loaders of the libraries that are open.

  The mutex is recursive and every public function but \<open>get_lib_file_hash\<close> holds it from its first
  statement to its last, so a call is one step on the registry; \<open>get_lib_file_hash\<close> holds it while it
  reads the file, but not while it looks the digest up (\<open>digest_of\<close>, a step of its own when threads
  interleave). The state contains the file system the registry
  reads and writes. What the operating system decides (whether a file can be opened, how many
  bytes of a write reach the file, whether the stream has noticed by the time it is checked, or
  only loses the rest when it is closed, whether a removal succeeds) is in the record \<open>host\<close>, together with the
  dynamic-linking interface; the provider function is registered by the worker and may throw.
  Paths are POSIX paths.
\<close>

record ('p, 'u) host =
  h_api :: "('p, 'u) dl_api"
  can_read :: "string \<Rightarrow> bool"
  can_seek :: "string \<Rightarrow> bool"
  can_create :: "string \<Rightarrow> bool"
  written :: "string \<Rightarrow> bytes \<Rightarrow> nat"
  noticed :: "string \<Rightarrow> bytes \<Rightarrow> bool"
  make_dir :: "string \<Rightarrow> unit result"
  remove_file :: "string \<Rightarrow> bool result"
  lib_file_name_of :: "'u \<Rightarrow> string"

type_synonym provider = "string \<Rightarrow> bytes option result"

record registry =
  local_cache :: string
  use_in_memory :: bool
  libFilesBuffer :: "bytes lru_cache"
  lib_loaders :: "(string, lib_loader) umap"
  udp_provider :: "provider option"
  reg_hashes :: hash_cache
  files :: "string \<Rightarrow> bytes option"
  dirs :: "string list"
  hook_calls :: "nat list"

definition registry_new :: "(string \<Rightarrow> bytes option) \<Rightarrow> string list \<Rightarrow> registry" where
  "registry_new fs ds = \<lparr>local_cache = ''.'', use_in_memory = True, libFilesBuffer = lru_new 5,
     lib_loaders = [], udp_provider = None, reg_hashes = hash_cache_new 50, files = fs, dirs = ds,
     hook_calls = []\<rparr>"

section \<open>Paths and files\<close>

definition get_lib_path :: "('p, 'u) host \<Rightarrow> string \<Rightarrow> registry \<Rightarrow> string" where
  "get_lib_path h libName r =
     path_append (local_cache r) (libName @ portable_dll_extension (platform (h_api h)))"

definition exists_path :: "string \<Rightarrow> registry \<Rightarrow> bool" where
  "exists_path p r \<longleftrightarrow> files r p \<noteq> None \<or> p \<in> set (dirs r)"

definition is_lib_in_cache :: "('p, 'u) host \<Rightarrow> string \<Rightarrow> registry \<Rightarrow> bool" where
  "is_lib_in_cache h libName r = exists_path (get_lib_path h libName r) r"

definition save_lib_into_fs :: "('p, 'u) host \<Rightarrow> string \<Rightarrow> bytes \<Rightarrow> registry \<Rightarrow> unit result \<times> registry" where
  "save_lib_into_fs h libName libFile r =
    (let libPath = get_lib_path h libName r
     in and_then
          (if exists_path (local_cache r) r then (Inr (), r)
           else case make_dir h (local_cache r) of
                  Inl e \<Rightarrow> (Inl e, r)
                | Inr _ \<Rightarrow> (Inr (), r\<lparr>dirs := local_cache r # dirs r\<rparr>))
          (\<lambda>_ r. if \<not> can_create h libPath
                 then (Inl (Runtime_error (''Error: Failed to open file '' @ libPath)), r)
                 else let n = written h libPath libFile;
                          r' = r\<lparr>files := (files r)(libPath \<mapsto> take n libFile)\<rparr>
                      in if n < length libFile \<and> noticed h libPath libFile
                         then (Inl (Runtime_error (''Error: Failed write to file '' @ libPath)), r')
                         else (Inr (), r')))"

definition load_lib :: "('p, 'u) host \<Rightarrow> string \<Rightarrow> registry \<Rightarrow> unit result \<times> registry" where
  "load_lib h libName r =
    (let loaders = map_emplace libName (lib_loader_new (get_lib_path h libName r)) (lib_loaders r)
     in case map_at libName loaders of
          Inl e \<Rightarrow> (Inl e, r\<lparr>lib_loaders := loaders\<rparr>)
        | Inr l \<Rightarrow>
            (let (res, l') = open_lib (h_api h) (files r) l
             in (res, r\<lparr>lib_loaders := map_assign libName l' loaders\<rparr>)))"

definition unload_lib :: "('p, 'u) host \<Rightarrow> string \<Rightarrow> registry \<Rightarrow> unit result \<times> registry" where
  "unload_lib h libName r =
    (case map_of (lib_loaders r) libName of
       None \<Rightarrow> (Inr (), r)
     | Some l \<Rightarrow>
         (case close_lib (h_api h) l of
            (Inl e, l') \<Rightarrow> (Inl e, r\<lparr>lib_loaders := map_assign libName l' (lib_loaders r)\<rparr>)
          | (Inr _, _) \<Rightarrow> (Inr (), r\<lparr>lib_loaders := map_erase libName (lib_loaders r)\<rparr>)))"

definition delete_lib_file :: "('p, 'u) host \<Rightarrow> string \<Rightarrow> registry \<Rightarrow> unit result \<times> registry" where
  "delete_lib_file h libName r =
    (let libPath = get_lib_path h libName r;
         r1 = (if use_in_memory r then r\<lparr>libFilesBuffer := lru_erase libPath (libFilesBuffer r)\<rparr> else r);
         r2 = (if has_file libName (reg_hashes r1)
               then r1\<lparr>reg_hashes := hash_cache_erase libName (reg_hashes r1)\<rparr> else r1)
     in if exists_path libPath r2
        then (case remove_file h libPath of
                Inl e \<Rightarrow> (Inl e, r2)
              | Inr False \<Rightarrow> (Inl (Runtime_error (''Failed to delete file: '' @ libPath)), r2)
              | Inr True \<Rightarrow> (Inr (), r2\<lparr>files := (files r2)(libPath := None),
                                       dirs := removeAll libPath (dirs r2)\<rparr>))
        else (Inr (), r2))"

section \<open>Public member functions\<close>

definition get_lib_as_file :: "('p, 'u) host \<Rightarrow> string \<Rightarrow> registry \<Rightarrow> bytes option result \<times> registry" where
  "get_lib_as_file h libName r =
    (if \<not> is_lib_in_cache h libName r
     then (case udp_provider r of
             None \<Rightarrow> (Inr None, r)
           | Some provider \<Rightarrow>
               (case provider libName of
                  Inl e \<Rightarrow> (Inl e, r)
                | Inr None \<Rightarrow> (Inr None, r)
                | Inr (Some libFile) \<Rightarrow>
                    and_then (save_lib_into_fs h libName libFile r) (\<lambda>_ r. (Inr (Some libFile), r))))
     else let libPath = get_lib_path h libName r
          in if use_in_memory r \<and> lru_contains libPath (libFilesBuffer r)
             then (case lru_get libPath (libFilesBuffer r) of
                     (Inl e, b) \<Rightarrow> (Inl e, r\<lparr>libFilesBuffer := b\<rparr>)
                   | (Inr f, b) \<Rightarrow> (Inr (Some f), r\<lparr>libFilesBuffer := b\<rparr>))
             else if \<not> can_read h libPath \<or> \<not> can_seek h libPath then (Inr None, r)
             else (case files r libPath of
                     None \<Rightarrow> (Inr None, r)
                   | Some fileContent \<Rightarrow>
                       if use_in_memory r
                       then (case lru_put libPath fileContent (libFilesBuffer r) of
                               (Inl e, b) \<Rightarrow> (Inr None, r\<lparr>libFilesBuffer := b\<rparr>)
                             | (Inr _, b) \<Rightarrow> (Inr (Some fileContent), r\<lparr>libFilesBuffer := b\<rparr>))
                       else (Inr (Some fileContent), r)))"

text \<open>What \<open>get_lib_file_hash\<close> does outside of the lock, with the file \<open>f\<close> that it has read.\<close>

definition digest_of :: "string \<Rightarrow> bytes \<Rightarrow> hash_cache \<Rightarrow> string option result \<times> hash_cache" where
  "digest_of libName f c =
    (if has_file libName c then get_file_hash libName c
     else (case hash_file libName f c of (d, c') \<Rightarrow> (map_sum id Some d, c')))"

definition get_lib_file_hash :: "('p, 'u) host \<Rightarrow> string \<Rightarrow> registry \<Rightarrow> string option result \<times> registry" where
  "get_lib_file_hash h libName r =
    and_then (get_lib_as_file h libName r)
      (\<lambda>file r. case file of
          None \<Rightarrow> (Inr None, r)
        | Some f \<Rightarrow> (case digest_of libName f (reg_hashes r) of (d, c) \<Rightarrow> (d, r\<lparr>reg_hashes := c\<rparr>)))"

text \<open>
  The middle of \<open>initialize_udp\<close> and of \<open>construct_udp\<close>: nothing if the library is loaded,
  else load it from the local cache, else fetch it from the provider, store and load it.
\<close>

definition ensure_loaded :: "string \<Rightarrow> ('p, 'u) host \<Rightarrow> string \<Rightarrow> registry \<Rightarrow> unit result \<times> registry" where
  "ensure_loaded what h name r =
    (let not_found = Runtime_error (''Error: cannot '' @ what @ '' udp: '' @ name
           @ '', this dynamic library was not found.'')
     in if map_contains name (lib_loaders r) then (Inr (), r)
        else if is_lib_in_cache h name r then load_lib h name r
        else case udp_provider r of
               None \<Rightarrow> (Inl not_found, r)
             | Some provider \<Rightarrow>
                 (case provider name of
                    Inl e \<Rightarrow> (Inl e, r)
                  | Inr None \<Rightarrow> (Inl not_found, r)
                  | Inr (Some libFile) \<Rightarrow>
                      and_then (save_lib_into_fs h name libFile r) (\<lambda>_. load_lib h name)))"

text \<open>The first part of \<open>initialize_udp\<close>: is the local file the version the controller has?\<close>

definition check_version :: "('p, 'u) host \<Rightarrow> string \<Rightarrow> string option \<Rightarrow> registry \<Rightarrow> unit result \<times> registry" where
  "check_version h name libFileHash r =
    (case libFileHash of
       None \<Rightarrow> (Inr (), r)
     | Some wanted \<Rightarrow>
         and_then (get_lib_file_hash h name r)
           (\<lambda>hash r. case hash of
               None \<Rightarrow> (Inl (Runtime_error (''Error: cannot initialize udp: '' @ name
                          @ '', this dynamic library was not found.'')), r)
             | Some d \<Rightarrow>
                 if d \<noteq> wanted then and_then (unload_lib h name r) (\<lambda>_. delete_lib_file h name)
                 else (Inr (), r)))"

definition initialize_udp :: "('p, 'u) host \<Rightarrow> string \<Rightarrow> string option \<Rightarrow> registry \<Rightarrow> unit result \<times> registry" where
  "initialize_udp h name libFileHash r =
     and_then (check_version h name libFileHash r) (\<lambda>_. ensure_loaded ''initialize'' h name)"

definition construct_udp :: "('p, 'u) host \<Rightarrow> string \<Rightarrow> 'p \<Rightarrow> registry \<Rightarrow> 'u shared_obj result \<times> registry" where
  "construct_udp h name params r =
     and_then (ensure_loaded ''construct'' h name r)
       (\<lambda>_ r. case map_at name (lib_loaders r) of
           Inl e \<Rightarrow> (Inl e, r)
         | Inr l \<Rightarrow>
             (let (res, calls, l') = get_instance (h_api h) params l
              in (res, r\<lparr>lib_loaders := map_assign name l' (lib_loaders r),
                         hook_calls := hook_calls r @ calls\<rparr>)))"

definition clone_udp :: "('p, 'u) host \<Rightarrow> 'u shared_obj \<Rightarrow> registry \<Rightarrow> 'u shared_obj result \<times> registry" where
  "clone_udp h other r =
    (let libName = lib_file_name_of h (sp_get other)
     in if map_contains libName (lib_loaders r)
        then (case map_at libName (lib_loaders r) of
                Inl e \<Rightarrow> (Inl e, r)
              | Inr l \<Rightarrow>
                  (let (res, calls, l') = clone_instance (h_api h) other l
                   in (res, r\<lparr>lib_loaders := map_assign libName l' (lib_loaders r),
                              hook_calls := hook_calls r @ calls\<rparr>)))
        else (Inl (Runtime_error (''Error: cannot clone udp: '' @ libName
                    @ '', this dynamic library was not found.'')), r))"

definition register_udp_provider :: "provider \<Rightarrow> registry \<Rightarrow> registry" where
  "register_udp_provider providerFunc r = r\<lparr>udp_provider := Some providerFunc\<rparr>"

definition set_local_cache_dir :: "string \<Rightarrow> registry \<Rightarrow> registry" where
  "set_local_cache_dir directory r = r\<lparr>local_cache := directory\<rparr>"

definition use_in_memory_cache :: "bool \<Rightarrow> registry \<Rightarrow> registry" where
  "use_in_memory_cache value r =
    (let r' = (if value then r else r\<lparr>libFilesBuffer := lru_clear (libFilesBuffer r)\<rparr>)
     in r'\<lparr>use_in_memory := value\<rparr>)"

section \<open>Names and paths\<close>

text \<open>A name that starts with a slash would leave the cache directory.\<close>

definition relative :: "string \<Rightarrow> bool" where
  "relative n \<longleftrightarrow> n = [] \<or> hd n \<noteq> CHR ''/''"

abbreviation lib_ext :: "('p, 'u) host \<Rightarrow> string" where
  "lib_ext h \<equiv> portable_dll_extension (platform (h_api h))"

lemma lib_ext_dot: "lib_ext h \<noteq> [] \<and> hd (lib_ext h) \<noteq> CHR ''/''"
  by (simp add: portable_dll_extension_def split: platform.splits)

lemma get_lib_path_relative:
  "relative n \<Longrightarrow> get_lib_path h n r = (if local_cache r = [] \<or> last (local_cache r) = CHR ''/''
     then local_cache r @ n @ lib_ext h else local_cache r @ ''/'' @ n @ lib_ext h)"
  using lib_ext_dot [of h]
  by (cases n) (simp_all add: get_lib_path_def path_append_def relative_def)

lemma get_lib_path_inj:
  "relative a \<Longrightarrow> relative b \<Longrightarrow> get_lib_path h a r = get_lib_path h b r \<longleftrightarrow> a = b"
  by (auto simp: get_lib_path_relative split: if_splits)

lemma get_lib_path_cong: "local_cache r' = local_cache r \<Longrightarrow> get_lib_path h n r' = get_lib_path h n r"
  by (simp add: get_lib_path_def)

section \<open>Invariant: the caches agree with the files\<close>

definition hash_fits :: "('p, 'u) host \<Rightarrow> registry \<Rightarrow> string \<Rightarrow> string \<Rightarrow> bool" where
  "hash_fits h r n d \<longleftrightarrow>
     relative n \<and> (\<exists>c. files r (get_lib_path h n r) = Some c \<and> d = hex_digest c)"

definition loader_fits :: "('p, 'u) host \<Rightarrow> registry \<Rightarrow> string \<Rightarrow> lib_loader \<Rightarrow> bool" where
  "loader_fits h r n l \<longleftrightarrow>
     relative n \<and> pathToLib l = get_lib_path h n r
     \<and> (ll_handle l = 0
        \<or> (\<exists>c. files r (get_lib_path h n r) = Some c
             \<and> ll_handle l = dl_open (h_api h) (get_lib_path h n r) (Some c)))"

text \<open>A host that does not lose what it was given without the stream noticing.\<close>

definition writes_noticed :: "('p, 'u) host \<Rightarrow> bool" where
  "writes_noticed h \<longleftrightarrow> (\<forall>p f. written h p f < length f \<longrightarrow> noticed h p f)"

definition reg_inv :: "('p, 'u) host \<Rightarrow> registry \<Rightarrow> bool" where
  "reg_inv h r \<longleftrightarrow> writes_noticed h
     \<and> lru_inv (libFilesBuffer r) \<and> hc_inv (reg_hashes r)
     \<and> coherent (\<lambda>p c. files r p = Some c) (lru_lookup (libFilesBuffer r))
     \<and> (use_in_memory r \<or> lru_lookup (libFilesBuffer r) = (\<lambda>_. None))
     \<and> coherent (hash_fits h r) (hc_lookup (reg_hashes r))
     \<and> coherent (loader_fits h r) (map_of (lib_loaders r))"

text \<open>What \<open>dlopen\<close> is documented to do: a path without a file has no handle.\<close>

definition missing_not_loaded :: "('p, 'u) host \<Rightarrow> bool" where
  "missing_not_loaded h \<longleftrightarrow> (\<forall>p. dl_open (h_api h) p None = 0)"

lemma registry_new_inv: "writes_noticed h \<Longrightarrow> reg_inv h (registry_new fs ds)"
  by (simp add: reg_inv_def registry_new_def hash_cache_new_inv hash_cache_new_empty)
    (simp add: lru_new_def lru_abs_def)

lemma fits_same [simp]:
  "hash_fits h (r\<lparr>libFilesBuffer := b\<rparr>) = hash_fits h r"
  "loader_fits h (r\<lparr>libFilesBuffer := b\<rparr>) = loader_fits h r"
  "hash_fits h (r\<lparr>reg_hashes := c\<rparr>) = hash_fits h r"
  "loader_fits h (r\<lparr>reg_hashes := c\<rparr>) = loader_fits h r"
  "hash_fits h (r\<lparr>lib_loaders := m\<rparr>) = hash_fits h r"
  "loader_fits h (r\<lparr>lib_loaders := m\<rparr>) = loader_fits h r"
  "hash_fits h (r\<lparr>dirs := ds\<rparr>) = hash_fits h r"
  "loader_fits h (r\<lparr>dirs := ds\<rparr>) = loader_fits h r"
  "hash_fits h (r\<lparr>use_in_memory := u\<rparr>) = hash_fits h r"
  "loader_fits h (r\<lparr>use_in_memory := u\<rparr>) = loader_fits h r"
  "hash_fits h (r\<lparr>udp_provider := v\<rparr>) = hash_fits h r"
  "loader_fits h (r\<lparr>udp_provider := v\<rparr>) = loader_fits h r"
  "hash_fits h (r\<lparr>hook_calls := w\<rparr>) = hash_fits h r"
  "loader_fits h (r\<lparr>hook_calls := w\<rparr>) = loader_fits h r"
  by (simp_all add: hash_fits_def loader_fits_def get_lib_path_def fun_eq_iff)

text \<open>A file appears where there was none, and disappears when no loader uses it.\<close>

lemma new_file_inv:
  assumes "reg_inv h r" and "files r p = None"
  shows "reg_inv h (r\<lparr>files := (files r)(p \<mapsto> c)\<rparr>)"
proof -
  have 1: "hash_fits h r n d \<Longrightarrow> hash_fits h (r\<lparr>files := (files r)(p \<mapsto> c)\<rparr>) n d" for n d
    using assms(2) by (auto simp: hash_fits_def get_lib_path_def)
  have 2: "loader_fits h r n l \<Longrightarrow> loader_fits h (r\<lparr>files := (files r)(p \<mapsto> c)\<rparr>) n l" for n l
    using assms(2) by (auto simp: loader_fits_def get_lib_path_def)
  have "coherent (\<lambda>q x. ((files r)(p \<mapsto> c)) q = Some x) (lru_lookup (libFilesBuffer r))"
    using assms unfolding reg_inv_def coherent_def by fastforce
  moreover have "coherent (hash_fits h (r\<lparr>files := (files r)(p \<mapsto> c)\<rparr>)) (hc_lookup (reg_hashes r))"
    by (rule coherent_mono [OF _ 1]) (use assms(1) in \<open>simp_all add: reg_inv_def\<close>)
  moreover have "coherent (loader_fits h (r\<lparr>files := (files r)(p \<mapsto> c)\<rparr>)) (map_of (lib_loaders r))"
    by (rule coherent_mono [OF _ 2]) (use assms(1) in \<open>simp_all add: reg_inv_def\<close>)
  ultimately show ?thesis using assms(1) by (simp add: reg_inv_def)
qed

lemma gone_file_inv:
  assumes "reg_inv h r" and "relative n" and "p = get_lib_path h n r"
    and "map_of (lib_loaders r) n = None" and "hc_lookup (reg_hashes r) n = None"
    and "lru_lookup (libFilesBuffer r) p = None"
  shows "reg_inv h (r\<lparr>files := (files r)(p := None)\<rparr>)"
proof -
  have other: "m \<noteq> n \<Longrightarrow> relative m \<Longrightarrow> get_lib_path h m r \<noteq> p" for m
    using assms(2,3) get_lib_path_inj by metis
  let ?r = "r\<lparr>files := (files r)(p := None)\<rparr>"
  have 1: "hash_fits h ?r m d" if "hash_fits h r m d" "m \<noteq> n" for m d
    using that other by (auto simp: hash_fits_def get_lib_path_def)
  have 2: "loader_fits h ?r m l" if "loader_fits h r m l" "m \<noteq> n" for m l
    using that other by (auto simp: loader_fits_def get_lib_path_def)
  have "coherent (hash_fits h ?r) (hc_lookup (reg_hashes r))"
    using assms(1,5) 1 unfolding reg_inv_def coherent_def by (metis option.distinct(1))
  moreover have "coherent (loader_fits h ?r) (map_of (lib_loaders r))"
    using assms(1,4) 2 unfolding reg_inv_def coherent_def by (metis option.distinct(1))
  moreover have "coherent (\<lambda>q c. files ?r q = Some c) (lru_lookup (libFilesBuffer r))"
    using assms(1,6) unfolding reg_inv_def coherent_def by fastforce
  ultimately show ?thesis using assms(1) by (simp add: reg_inv_def)
qed

lemma loader_inv:
  "reg_inv h r \<Longrightarrow> loader_fits h r n l \<Longrightarrow> reg_inv h (r\<lparr>lib_loaders := map_assign n l (lib_loaders r)\<rparr>)"
  by (auto simp: reg_inv_def coherent_def)

section \<open>Every operation keeps the invariant\<close>

lemma dirs_inv [simp]: "reg_inv h (r\<lparr>dirs := ds\<rparr>) = reg_inv h r"
  by (simp add: reg_inv_def)

lemma hooks_inv [simp]: "reg_inv h (r\<lparr>hook_calls := w\<rparr>) = reg_inv h r"
  by (simp add: reg_inv_def)

lemma not_in_cache: "\<not> is_lib_in_cache h n r \<Longrightarrow> files r (get_lib_path h n r) = None"
  by (simp add: is_lib_in_cache_def exists_path_def)

text \<open>Storing a library: the outcomes, and the file on success.\<close>

lemma save_cases:
  obtains (no_dir) e where "save_lib_into_fs h n f r = (Inl e, r)"
  | (no_file) ds e where "save_lib_into_fs h n f r = (Inl e, r\<lparr>dirs := ds\<rparr>)"
  | (short) ds e where "save_lib_into_fs h n f r =
      (Inl e, r\<lparr>dirs := ds, files := (files r)(get_lib_path h n r \<mapsto> take (written h (get_lib_path h n r) f) f)\<rparr>)"
  | (stored) ds where "save_lib_into_fs h n f r =
      (Inr (), r\<lparr>dirs := ds, files := (files r)(get_lib_path h n r \<mapsto> take (written h (get_lib_path h n r) f) f)\<rparr>)"
    "writes_noticed h \<Longrightarrow> take (written h (get_lib_path h n r) f) f = f"
proof -
  have same: "r = r\<lparr>dirs := dirs r\<rparr>" by simp
  show ?thesis
  proof (cases "exists_path (local_cache r) r")
    case True
    then show ?thesis
      using that(1) that(3) [where ds = "dirs r"] that(4) [where ds = "dirs r"]
      by (fastforce simp: save_lib_into_fs_def writes_noticed_def Let_def split: if_splits)
  next
    case False
    then show ?thesis
      using that(1) that(2) [where ds = "local_cache r # dirs r"]
        that(3) [where ds = "local_cache r # dirs r"] that(4) [where ds = "local_cache r # dirs r"]
      by (cases "make_dir h (local_cache r)") (fastforce simp: save_lib_into_fs_def writes_noticed_def Let_def split: if_splits)+
  qed
qed

lemma save_inv:
  assumes "reg_inv h r" and "files r (get_lib_path h n r) = None"
  shows "reg_inv h (snd (save_lib_into_fs h n f r))"
proof -
  have new: "reg_inv h (r\<lparr>dirs := ds, files := (files r)(get_lib_path h n r \<mapsto> c)\<rparr>)" for ds c
    using new_file_inv [of h "r\<lparr>dirs := ds\<rparr>" "get_lib_path h n r" c] assms by simp
  show ?thesis
    using assms(1) by (cases h n f r rule: save_cases) (simp_all add: new)
qed

lemma save_ok:
  "save_lib_into_fs h n f r = (Inr (), r') \<Longrightarrow> writes_noticed h \<Longrightarrow>
   files r' = (files r)(get_lib_path h n r \<mapsto> f) \<and> local_cache r' = local_cache r
   \<and> lib_loaders r' = lib_loaders r \<and> reg_hashes r' = reg_hashes r \<and> udp_provider r' = udp_provider r"
  by (cases h n f r rule: save_cases) auto

lemma new_loader_fits: "relative n \<Longrightarrow> loader_fits h r n (lib_loader_new (get_lib_path h n r))"
  by (simp add: loader_fits_def lib_loader_new_def)

lemma emplace_loader_inv:
  assumes "reg_inv h r" and "relative n"
  shows "\<exists>l. map_of (map_emplace n (lib_loader_new (get_lib_path h n r)) (lib_loaders r)) n = Some l
    \<and> loader_fits h r n l"
proof (cases "map_contains n (lib_loaders r)")
  case True
  then obtain l where "map_of (lib_loaders r) n = Some l" by (auto simp: map_contains_iff)
  with assms True show ?thesis by (auto simp: reg_inv_def dest: coherentD)
next
  case False
  with assms(2) show ?thesis by (simp add: new_loader_fits)
qed

lemma open_lib_fits:
  assumes "missing_not_loaded h" and "loader_fits h r n l"
  shows "loader_fits h r n (snd (open_lib (h_api h) (files r) l))"
proof (cases "files r (get_lib_path h n r)")
  case None
  with assms show ?thesis
    by (simp add: loader_fits_def open_lib_def portable_dlopen_def Let_def missing_not_loaded_def)
next
  case (Some c)
  with assms show ?thesis
    by (simp add: loader_fits_def open_lib_def portable_dlopen_def Let_def)
qed

lemma load_lib_eq:
  assumes "map_of (map_emplace n (lib_loader_new (get_lib_path h n r)) (lib_loaders r)) n = Some l"
  shows "load_lib h n r = (fst (open_lib (h_api h) (files r) l),
    r\<lparr>lib_loaders := map_assign n (snd (open_lib (h_api h) (files r) l))
        (map_emplace n (lib_loader_new (get_lib_path h n r)) (lib_loaders r))\<rparr>)"
  using assms by (simp add: load_lib_def Let_def map_at_def case_prod_beta)

lemma assign_emplace_lookup:
  "map_of (map_assign n l (map_emplace n l0 m)) = map_of (map_assign n l m)"
  by (auto simp: map_of_emplace fun_eq_iff)

lemma reg_inv_lookup:
  "map_of m = map_of m' \<Longrightarrow> reg_inv h (r\<lparr>lib_loaders := m\<rparr>) = reg_inv h (r\<lparr>lib_loaders := m'\<rparr>)"
  by (simp add: reg_inv_def)

lemma load_inv:
  assumes "missing_not_loaded h" and "reg_inv h r" and "relative n"
  shows "reg_inv h (snd (load_lib h n r))"
proof -
  obtain l where l: "map_of (map_emplace n (lib_loader_new (get_lib_path h n r)) (lib_loaders r)) n = Some l"
      "loader_fits h r n l"
    using emplace_loader_inv [OF assms(2,3)] by blast
  have "reg_inv h (r\<lparr>lib_loaders := map_assign n (snd (open_lib (h_api h) (files r) l)) (lib_loaders r)\<rparr>)"
    by (rule loader_inv [OF assms(2) open_lib_fits [OF assms(1) l(2)]])
  then show ?thesis
    by (simp add: load_lib_eq [OF l(1)] reg_inv_lookup [OF assign_emplace_lookup])
qed

lemma close_lib_fits: "loader_fits h r n l \<Longrightarrow> loader_fits h r n (snd (close_lib api l))"
  by (cases api l rule: close_lib_cases) (auto simp: loader_fits_def)

lemma unload_inv:
  assumes "reg_inv h r"
  shows "reg_inv h (snd (unload_lib h n r))"
    "fst (unload_lib h n r) = Inr () \<Longrightarrow> map_of (lib_loaders (snd (unload_lib h n r))) n = None"
proof -
  have fits: "map_of (lib_loaders r) n = Some l \<Longrightarrow> loader_fits h r n l" for l
    using assms by (auto simp: reg_inv_def dest: coherentD)
  have erased: "reg_inv h (r\<lparr>lib_loaders := map_erase n (lib_loaders r)\<rparr>)"
    using assms by (auto simp: reg_inv_def coherent_def)
  show "reg_inv h (snd (unload_lib h n r))"
  proof (cases "map_of (lib_loaders r) n")
    case None
    then show ?thesis using assms by (simp add: unload_lib_def)
  next
    case (Some l)
    then show ?thesis
      using erased loader_inv [OF assms close_lib_fits [OF fits [OF Some]], of "h_api h"]
      by (cases "h_api h" l rule: close_lib_cases) (simp_all add: unload_lib_def)
  qed
  show "map_of (lib_loaders (snd (unload_lib h n r))) n = None" if "fst (unload_lib h n r) = Inr ()"
    using that
    by (auto simp: unload_lib_def split: option.splits sum.splits prod.splits)
qed

end
