(* ===== verification/Messages.thy ===== *)
theory Messages
  imports Prelude
begin

text \<open>
  \<^verbatim>\<open>src/distributed/messages/include/MsgType.h\<close>, \<^verbatim>\<open>sockets/include/vector_serialize.h\<close>,
  \<^verbatim>\<open>vector_deserialize.h\<close>, \<^verbatim>\<open>utils/include/vector_streambuf.h\<close> and \<^verbatim>\<open>vector_istreambuf.h\<close>: the kinds
  of messages, the objects they carry, and how an object becomes a byte vector.

  The text archives of Boost are not code of the repository. What an archive writes for an
  object is a sequence of calls of the stream buffer (the parameter \<open>emit\<close>); reading an object
  from a buffer is the parameter \<open>parse\<close>. \<open>codec_ok\<close> is what Boost documents: reading what was
  written gives the object back, and an archive is never empty.
\<close>

section \<open>Message types\<close>

text \<open>
  An \<open>enum class\<close> with underlying type \<open>int\<close>: a value cast from an integer that is none of the
  enumerators is a value of the type, here \<open>Unknown_msg\<close>.
\<close>

datatype MsgType =
    WORKER_JOIN
  | WORKER_LEAVE
  | ALLOCATE_WORK
  | WORK_RESULTS
  | GET_DLL
  | DLL_BINARY
  | Unknown_msg int

fun msg_int :: "MsgType \<Rightarrow> int" where
  "msg_int WORKER_JOIN = 0"
| "msg_int WORKER_LEAVE = 1"
| "msg_int ALLOCATE_WORK = 2"
| "msg_int WORK_RESULTS = 3"
| "msg_int GET_DLL = 4"
| "msg_int DLL_BINARY = 5"
| "msg_int (Unknown_msg i) = i"

definition msg_of_int :: "int \<Rightarrow> MsgType" where
  "msg_of_int i =
    (if i = 0 then WORKER_JOIN else if i = 1 then WORKER_LEAVE else if i = 2 then ALLOCATE_WORK
     else if i = 3 then WORK_RESULTS else if i = 4 then GET_DLL else if i = 5 then DLL_BINARY
     else Unknown_msg i)"

fun msg_ok :: "MsgType \<Rightarrow> bool" where
  "msg_ok (Unknown_msg i) \<longleftrightarrow> (i < 0 \<or> 5 < i) \<and> - (2 ^ 31) \<le> i \<and> i < 2 ^ 31"
| "msg_ok _ \<longleftrightarrow> True"

lemma msg_of_int_int [simp]: "msg_ok t \<Longrightarrow> msg_of_int (msg_int t) = t"
  by (cases t) (auto simp: msg_of_int_def)

lemma msg_int_range: "msg_ok t \<Longrightarrow> - (2 ^ 31) \<le> msg_int t \<and> msg_int t < 2 ^ 31"
  by (cases t) auto

section \<open>The objects that are sent\<close>

text \<open>The algorithm and the population are pagmo's; \<open>size_t\<close> is 64 bits wide.\<close>

record ('a, 'p) work_container =
  algo :: 'a
  pop :: 'p
  preferredWorkerId :: string
  cycleCount :: u64

definition work_container_new :: "'a \<Rightarrow> 'p \<Rightarrow> string \<Rightarrow> u64 \<Rightarrow> ('a, 'p) work_container" where
  "work_container_new algorithm population preferredWorker cycles =
     \<lparr>algo = algorithm, pop = population, preferredWorkerId = preferredWorker, cycleCount = cycles\<rparr>"

record get_dll_request =
  req_dll_name :: string

record dll_binary_container =
  dll_name :: string
  dll_file :: "bytes option"

section \<open>Objects as byte vectors\<close>

text \<open>The calls an archive makes on \<open>vector_streambuf\<close>; \<open>EOF\<close> is \<open>-1\<close>.\<close>

datatype stream_op = Overflow int | Xsputn bytes

fun stream_put :: "stream_op \<Rightarrow> bytes \<Rightarrow> bytes" where
  "stream_put (Overflow ch) vec = (if ch \<noteq> -1 then vec @ [word_of_int ch] else vec)"
| "stream_put (Xsputn s) vec = vec @ s"

definition vector_serialize :: "('x \<Rightarrow> stream_op list) \<Rightarrow> 'x \<Rightarrow> bytes" where
  "vector_serialize emit payload = fold stream_put (emit payload) []"

definition vector_deserialize :: "(bytes \<Rightarrow> 'x result) \<Rightarrow> bytes \<Rightarrow> 'x result" where
  "vector_deserialize parse binary =
    (if binary = [] then Inl (Runtime_error ''Error: Attempted to deserialize an empty buffer'')
     else parse binary)"

text \<open>What the archive wrote, in order.\<close>

fun op_bytes :: "stream_op \<Rightarrow> bytes" where
  "op_bytes (Overflow ch) = (if ch = -1 then [] else [word_of_int ch])"
| "op_bytes (Xsputn s) = s"

definition codec_ok :: "('x \<Rightarrow> stream_op list) \<Rightarrow> (bytes \<Rightarrow> 'x result) \<Rightarrow> bool" where
  "codec_ok emit parse \<longleftrightarrow>
     (\<forall>x. parse (concat (map op_bytes (emit x))) = Inr x \<and> concat (map op_bytes (emit x)) \<noteq> [])"

lemma stream_put_bytes: "stream_put x vec = vec @ op_bytes x"
  by (cases x) auto

lemma vector_serialize_bytes: "vector_serialize emit x = concat (map op_bytes (emit x))"
proof -
  have "fold stream_put xs vec = vec @ concat (map op_bytes xs)" for xs vec
    by (induction xs arbitrary: vec) (simp_all add: stream_put_bytes)
  then show ?thesis by (simp add: vector_serialize_def)
qed

lemma serialize_roundtrip:
  "codec_ok emit parse \<Longrightarrow> vector_deserialize parse (vector_serialize emit x) = Inr x"
  by (simp add: vector_deserialize_def vector_serialize_bytes codec_ok_def)

section \<open>Properties\<close>

text \<open>
  Serialisation loses nothing. Whatever mixture of single characters and blocks the archive
  writes, \<open>vector_serialize\<close> collects exactly the characters in order (end-of-file markers
  apart), the vector is not empty, and \<open>vector_deserialize\<close> gives the object back.
\<close>

theorem vector_roundtrip:
  assumes "codec_ok emit parse"
  shows "vector_deserialize parse (vector_serialize emit x) = Inr x
    \<and> vector_serialize emit x = concat (map op_bytes (emit x))"
  by (rule conjI [OF serialize_roundtrip [OF assms] vector_serialize_bytes])

text \<open>A small archive for library requests: the length, then the characters.\<close>

definition demo_emit :: "get_dll_request \<Rightarrow> stream_op list" where
  "demo_emit q = [Overflow 34, Xsputn (map (\<lambda>c. word_of_nat (of_char c)) (req_dll_name q)), Overflow (-1)]"

definition demo_parse :: "bytes \<Rightarrow> get_dll_request result" where
  "demo_parse bs = (case bs of
     (b # rest) \<Rightarrow> if b = 34 then Inr \<lparr>req_dll_name = map (char_of \<circ> unat) rest\<rparr> else Inl (Runtime_error ''archive'')
   | [] \<Rightarrow> Inl (Runtime_error ''archive''))"

lemma demo_codec_ok: "codec_ok demo_emit demo_parse"
proof -
  have "(char_of (unat (word_of_nat (of_char c) :: byte)) :: char) = c" for c :: char
    by (simp add: unat_of_nat)
  then show ?thesis by (simp add: codec_ok_def demo_emit_def demo_parse_def comp_def)
qed

theorem vector_roundtrip_witness:
  "vector_deserialize demo_parse (vector_serialize demo_emit \<lparr>req_dll_name = ''schwefel''\<rparr>)
     = Inr \<lparr>req_dll_name = ''schwefel''\<rparr>"
  by (rule conjunct1 [OF vector_roundtrip [OF demo_codec_ok]])

end
