(* ===== verification/Worker_Info.thy ===== *)
theory Worker_Info
  imports Cache_Contract
begin

text \<open>
  \<^verbatim>\<open>src/distributed/logic/include/worker_info_repository.h\<close> and \<^verbatim>\<open>worker_info_repository.cpp\<close>: which
  workers are connected, and how much work each worker has done, in total and per algorithm.

  The counters are \<open>uint64_t\<close>. A time point is a number of nanoseconds; each call that reads
  the clock takes the reading as an argument. Every member function holds the mutex while it
  runs, so a call is one step; the condition variable wakes a waiter whose predicate holds.
\<close>

record work_stats =
  workTime :: u64
  processedPopulation :: u64

definition no_stats :: work_stats where
  "no_stats = \<lparr>workTime = 0, processedPopulation = 0\<rparr>"

record worker_info =
  totalStats :: work_stats
  statsByAlgorithm :: "(string, work_stats) umap"
  lastWorkStartTime :: int

definition worker_info_new :: worker_info where
  "worker_info_new = \<lparr>totalStats = no_stats, statsByAlgorithm = [], lastWorkStartTime = 0\<rparr>"

record worker_repo =
  connectedWorkers :: "string list"
  workerRecords :: "(string, worker_info) umap"

definition worker_repo_new :: worker_repo where
  "worker_repo_new = \<lparr>connectedWorkers = [], workerRecords = []\<rparr>"

section \<open>Member functions\<close>

definition worker_joined :: "string \<Rightarrow> worker_info \<Rightarrow> worker_repo \<Rightarrow> worker_repo" where
  "worker_joined workerID info r =
    (let r1 = (if map_contains workerID (workerRecords r) then r
               else r\<lparr>workerRecords := map_emplace workerID info (workerRecords r)\<rparr>)
     in r1\<lparr>connectedWorkers := set_emplace workerID (connectedWorkers r1)\<rparr>)"

definition worker_left :: "string \<Rightarrow> worker_repo \<Rightarrow> worker_repo" where
  "worker_left workerID r = r\<lparr>connectedWorkers := set_erase workerID (connectedWorkers r)\<rparr>"

definition worker_started_work :: "int \<Rightarrow> string \<Rightarrow> worker_repo \<Rightarrow> unit result \<times> worker_repo" where
  "worker_started_work now workerID r =
    (case map_of (workerRecords r) workerID of
       None \<Rightarrow> (Inl (Runtime_error (''Cannot perform worker_started_work(), worker '' @ workerID
                    @ '' is not in _workerRecords.'')), r)
     | Some i \<Rightarrow> (Inr (), r\<lparr>workerRecords := map_assign workerID (i\<lparr>lastWorkStartTime := now\<rparr>) (workerRecords r)\<rparr>))"

text \<open>\<open>duration_cast\<close> truncates towards zero.\<close>

definition milliseconds :: "int \<Rightarrow> int" where
  "milliseconds d = (if 0 \<le> d then d div 1000000 else - ((- d) div 1000000))"

definition add_stats :: "u64 \<Rightarrow> u64 \<Rightarrow> work_stats \<Rightarrow> work_stats" where
  "add_stats t p s = s\<lparr>workTime := workTime s + t, processedPopulation := processedPopulation s + p\<rparr>"

text \<open>\<open>operator[]\<close> of a map creates the missing entry.\<close>

definition stats_of :: "string \<Rightarrow> (string, work_stats) umap \<Rightarrow> work_stats" where
  "stats_of algoName m = (case map_of m algoName of None \<Rightarrow> no_stats | Some s \<Rightarrow> s)"

definition finish_work :: "int \<Rightarrow> u64 \<Rightarrow> string \<Rightarrow> worker_info \<Rightarrow> worker_info" where
  "finish_work endTime population algoName wInfo =
    (let time = word_of_int (milliseconds (endTime - lastWorkStartTime wInfo))
     in wInfo\<lparr>totalStats := add_stats time population (totalStats wInfo),
              statsByAlgorithm := map_assign algoName
                (add_stats time population (stats_of algoName (statsByAlgorithm wInfo)))
                (statsByAlgorithm wInfo)\<rparr>)"

definition worker_finished_work :: "int \<Rightarrow> string \<Rightarrow> u64 \<Rightarrow> string \<Rightarrow> worker_repo \<Rightarrow> unit result \<times> worker_repo" where
  "worker_finished_work now workerID population algoName r =
    (case map_of (workerRecords r) workerID of
       None \<Rightarrow> (Inl (Runtime_error (''Cannot perform worker_finished_work(), worker '' @ workerID
                    @ '' is not in _workerRecords.'')), r)
     | Some i \<Rightarrow> (Inr (), r\<lparr>workerRecords := map_assign workerID (finish_work now population algoName i) (workerRecords r)\<rparr>))"

definition get_worker_info :: "string \<Rightarrow> worker_repo \<Rightarrow> worker_info option" where
  "get_worker_info workerID r = map_of (workerRecords r) workerID"

definition get_connected_workers :: "worker_repo \<Rightarrow> string list" where
  "get_connected_workers r = connectedWorkers r"

definition get_worker_count :: "worker_repo \<Rightarrow> nat" where
  "get_worker_count r = length (connectedWorkers r)"

text \<open>The predicate \<open>wait_until_worker_count\<close> waits for.\<close>

definition worker_count_reached :: "nat \<Rightarrow> worker_repo \<Rightarrow> bool" where
  "worker_count_reached target r \<longleftrightarrow> target \<le> length (connectedWorkers r)"

text \<open>
  Serialisation: the archive has the records with their statistics; start times and the set of
  connected workers are not written.
\<close>

type_synonym repo_archive = "(string \<times> work_stats \<times> (string, work_stats) umap) list"

definition repo_save :: "worker_repo \<Rightarrow> repo_archive" where
  "repo_save r = map (\<lambda>(k, i). (k, totalStats i, statsByAlgorithm i)) (workerRecords r)"

definition repo_load :: "repo_archive \<Rightarrow> worker_repo \<Rightarrow> worker_repo" where
  "repo_load ar r = r\<lparr>workerRecords :=
     map (\<lambda>(k, t, b). (k, \<lparr>totalStats = t, statsByAlgorithm = b, lastWorkStartTime = 0\<rparr>)) ar\<rparr>"

section \<open>Invariant: the totals are the sums over the algorithms\<close>

definition sum_over :: "(work_stats \<Rightarrow> u64) \<Rightarrow> (string, work_stats) umap \<Rightarrow> u64" where
  "sum_over f m = sum_list (map (f \<circ> snd) m)"

definition info_ok :: "worker_info \<Rightarrow> bool" where
  "info_ok i \<longleftrightarrow> keys_distinct (statsByAlgorithm i)
     \<and> workTime (totalStats i) = sum_over workTime (statsByAlgorithm i)
     \<and> processedPopulation (totalStats i) = sum_over processedPopulation (statsByAlgorithm i)"

definition repo_inv :: "worker_repo \<Rightarrow> bool" where
  "repo_inv r \<longleftrightarrow> distinct (connectedWorkers r) \<and> keys_distinct (workerRecords r)
     \<and> coherent (\<lambda>k i. info_ok i) (map_of (workerRecords r))
     \<and> set (connectedWorkers r) \<subseteq> dom (map_of (workerRecords r))"

lemma sum_over_assign:
  "keys_distinct m \<Longrightarrow> sum_over f (map_assign k v m)
     = sum_over f m - (case map_of m k of None \<Rightarrow> 0 | Some w \<Rightarrow> f w) + f v"
proof (induction m)
  case Nil
  then show ?case by (simp add: sum_over_def map_assign_def)
next
  case (Cons e m)
  obtain k' w where e: "e = (k', w)" by (cases e)
  show ?case
  proof (cases "k' = k")
    case True
    then show ?thesis using e by (simp add: sum_over_def map_assign_def)
  next
    case False
    then show ?thesis using Cons e by (simp add: sum_over_def map_assign_def)
  qed
qed

lemma worker_info_new_ok: "info_ok worker_info_new"
  by (simp add: info_ok_def worker_info_new_def no_stats_def sum_over_def)

lemma finish_work_ok: "info_ok i \<Longrightarrow> info_ok (finish_work now p a i)"
  by (cases "map_of (statsByAlgorithm i) a")
    (simp_all add: info_ok_def finish_work_def Let_def add_stats_def stats_of_def sum_over_assign no_stats_def)

lemma start_work_ok: "info_ok i \<Longrightarrow> info_ok (i\<lparr>lastWorkStartTime := t\<rparr>)"
  by (simp add: info_ok_def)

lemma repo_new_inv: "repo_inv worker_repo_new"
  by (simp add: repo_inv_def worker_repo_new_def)

lemma joined_inv:
  assumes "repo_inv r" and "info_ok i"
  shows "repo_inv (worker_joined w i r)"
proof (cases "map_contains w (workerRecords r)")
  case True
  then show ?thesis using assms
    by (auto simp: repo_inv_def worker_joined_def Let_def map_contains_dom)
next
  case False
  then show ?thesis using assms
    by (auto simp: repo_inv_def worker_joined_def Let_def coherent_upd)
qed

lemma left_inv: "repo_inv r \<Longrightarrow> repo_inv (worker_left w r)"
  by (auto simp: repo_inv_def worker_left_def)

lemma record_inv:
  "repo_inv r \<Longrightarrow> info_ok i \<Longrightarrow> repo_inv (r\<lparr>workerRecords := map_assign w i (workerRecords r)\<rparr>)"
  by (auto simp: repo_inv_def coherent_upd)

lemma inv_record_ok: "repo_inv r \<Longrightarrow> map_of (workerRecords r) w = Some i \<Longrightarrow> info_ok i"
  unfolding repo_inv_def by (blast dest: coherentD)

lemma started_inv: "repo_inv r \<Longrightarrow> repo_inv (snd (worker_started_work t w r))"
  by (cases "map_of (workerRecords r) w")
    (auto simp: worker_started_work_def intro: record_inv [OF _ start_work_ok [OF inv_record_ok]])

lemma finished_inv: "repo_inv r \<Longrightarrow> repo_inv (snd (worker_finished_work t w p a r))"
  by (cases "map_of (workerRecords r) w")
    (auto simp: worker_finished_work_def intro: record_inv [OF _ finish_work_ok [OF inv_record_ok]])

section \<open>What the operations change\<close>

lemma joined_records [simp]:
  "map_of (workerRecords (worker_joined w i r)) k =
     (if k = w \<and> map_of (workerRecords r) w = None then Some i else map_of (workerRecords r) k)"
  by (auto simp: worker_joined_def Let_def map_contains_iff)

lemma joined_connected [simp]:
  "set (connectedWorkers (worker_joined w i r)) = insert w (set (connectedWorkers r))"
  by (simp add: worker_joined_def Let_def)

lemma left_records [simp]: "workerRecords (worker_left w r) = workerRecords r"
  by (simp add: worker_left_def)

lemma left_connected [simp]: "set (connectedWorkers (worker_left w r)) = set (connectedWorkers r) - {w}"
  by (simp add: worker_left_def)

lemma started_connected [simp]: "connectedWorkers (snd (worker_started_work t w r)) = connectedWorkers r"
  by (simp add: worker_started_work_def split: option.splits)

lemma finished_connected [simp]: "connectedWorkers (snd (worker_finished_work t w p a r)) = connectedWorkers r"
  by (simp add: worker_finished_work_def split: option.splits)

lemma started_dom [simp]: "dom (map_of (workerRecords (snd (worker_started_work t w r)))) = dom (map_of (workerRecords r))"
  by (auto simp: worker_started_work_def split: option.splits)

lemma finished_dom [simp]: "dom (map_of (workerRecords (snd (worker_finished_work t w p a r)))) = dom (map_of (workerRecords r))"
  by (auto simp: worker_finished_work_def split: option.splits)

lemma started_ok [simp]: "is_ok (fst (worker_started_work t w r)) \<longleftrightarrow> w \<in> dom (map_of (workerRecords r))"
  by (auto simp: worker_started_work_def split: option.splits)

lemma finished_ok [simp]: "is_ok (fst (worker_finished_work t w p a r)) \<longleftrightarrow> w \<in> dom (map_of (workerRecords r))"
  by (auto simp: worker_finished_work_def split: option.splits)

section \<open>Runs\<close>

datatype repo_op =
    Joined string
  | Left string
  | Started int string
  | Finished int string u64 string

fun repo_apply :: "repo_op \<Rightarrow> worker_repo \<Rightarrow> worker_repo" where
  "repo_apply (Joined w) r = worker_joined w worker_info_new r"
| "repo_apply (Left w) r = worker_left w r"
| "repo_apply (Started t w) r = snd (worker_started_work t w r)"
| "repo_apply (Finished t w p a) r = snd (worker_finished_work t w p a r)"

fun repo_run :: "repo_op list \<Rightarrow> worker_repo \<Rightarrow> worker_repo" where
  "repo_run [] r = r"
| "repo_run (x # xs) r = repo_run xs (repo_apply x r)"

lemma repo_apply_inv: "repo_inv r \<Longrightarrow> repo_inv (repo_apply x r)"
  by (cases x) (simp_all add: joined_inv left_inv started_inv finished_inv worker_info_new_ok)

lemma repo_run_inv: "repo_inv r \<Longrightarrow> repo_inv (repo_run xs r)"
  by (induction xs arbitrary: r) (simp_all add: repo_apply_inv)

text \<open>
  The individuals that worker \<open>w\<close> reported for algorithm \<open>a\<close>; \<open>K\<close> are the workers that have a
  record, the reports of others are refused.
\<close>

fun reported :: "repo_op list \<Rightarrow> string set \<Rightarrow> string \<Rightarrow> string \<Rightarrow> u64" where
  "reported [] K w a = 0"
| "reported (Joined v # xs) K w a = reported xs (insert v K) w a"
| "reported (Left v # xs) K w a = reported xs K w a"
| "reported (Started t v # xs) K w a = reported xs K w a"
| "reported (Finished t v p b # xs) K w a =
     (if v = w \<and> b = a \<and> v \<in> K then p else 0) + reported xs K w a"

definition processed :: "string \<Rightarrow> string \<Rightarrow> worker_repo \<Rightarrow> u64" where
  "processed w a r = (case map_of (workerRecords r) w of
      None \<Rightarrow> 0
    | Some i \<Rightarrow> processedPopulation (stats_of a (statsByAlgorithm i)))"

lemma stats_of_finish:
  "stats_of a (statsByAlgorithm (finish_work t p b i)) =
     (if a = b then add_stats (word_of_int (milliseconds (t - lastWorkStartTime i))) p (stats_of b (statsByAlgorithm i))
      else stats_of a (statsByAlgorithm i))"
  by (simp add: finish_work_def Let_def stats_of_def)

lemma processed_apply:
  "processed w a (repo_apply x r) = processed w a r + reported [x] (dom (map_of (workerRecords r))) w a"
proof (cases x)
  case (Joined v)
  then show ?thesis
    by (auto simp: processed_def worker_info_new_def stats_of_def no_stats_def split: option.splits)
next
  case (Left v)
  then show ?thesis by (simp add: processed_def)
next
  case (Started t v)
  then show ?thesis by (auto simp: processed_def worker_started_work_def split: option.splits)
next
  case (Finished t v p b)
  then show ?thesis
    by (cases "map_of (workerRecords r) v")
      (auto simp: processed_def worker_finished_work_def stats_of_finish add_stats_def dom_def)
qed

lemma reported_Cons:
  "reported (x # xs) (dom (map_of (workerRecords r))) w a =
   reported [x] (dom (map_of (workerRecords r))) w a
   + reported xs (dom (map_of (workerRecords (repo_apply x r)))) w a"
proof (cases x)
  case (Joined v)
  have "dom (map_of (workerRecords (worker_joined v worker_info_new r))) = insert v (dom (map_of (workerRecords r)))"
    by (auto simp: dom_def split: if_splits)
  then show ?thesis using Joined by simp
qed simp_all

lemma processed_run:
  "processed w a (repo_run xs r) = processed w a r + reported xs (dom (map_of (workerRecords r))) w a"
proof (induction xs arbitrary: r)
  case (Cons x xs)
  show ?case
    using Cons.IH [of "repo_apply x r"] processed_apply [of w a x r] reported_Cons [of x xs r w a] by simp
qed simp

section \<open>Properties\<close>

text \<open>
  C18: the statistics of a worker account for exactly the work it reported. Whatever sequence
  of joins, departures, starts and finishes ran on a new repository, every worker that is
  connected has a record, its record for an algorithm counts the individuals of the finishes
  reported for that worker and algorithm since its first join (modulo the width of the counter,
  across departures and rejoins), and its totals of time and individuals are the sums over its
  algorithms.
\<close>

theorem repository_counts_work:
  assumes "r = repo_run xs worker_repo_new"
  shows "set (get_connected_workers r) \<subseteq> {w. get_worker_info w r \<noteq> None}
    \<and> (\<forall>w i. get_worker_info w r = Some i \<longrightarrow>
         (\<forall>a. processedPopulation (stats_of a (statsByAlgorithm i)) = reported xs {} w a)
         \<and> processedPopulation (totalStats i) = sum_over processedPopulation (statsByAlgorithm i)
         \<and> workTime (totalStats i) = sum_over workTime (statsByAlgorithm i))"
proof -
  have inv: "repo_inv r" unfolding assms by (rule repo_run_inv [OF repo_new_inv])
  have p: "processed w a r = reported xs {} w a" for w a
    using processed_run [of w a xs worker_repo_new] by (simp add: assms processed_def worker_repo_new_def)
  have "processedPopulation (stats_of a (statsByAlgorithm i)) = reported xs {} w a"
    if "map_of (workerRecords r) w = Some i" for w i a
    using p [of w a] that by (simp add: processed_def)
  moreover have "info_ok i" if "map_of (workerRecords r) w = Some i" for w i
    by (rule inv_record_ok [OF inv that])
  moreover have "set (connectedWorkers r) \<subseteq> {w. map_of (workerRecords r) w \<noteq> None}"
    using inv unfolding repo_inv_def dom_def by blast
  ultimately show ?thesis
    unfolding get_worker_info_def get_connected_workers_def info_ok_def by blast
qed

theorem repository_counts_work_witness:
  "processedPopulation (stats_of ''sade'' (statsByAlgorithm (the (get_worker_info ''w1''
     (repo_run [Joined ''w1'', Started 5 ''w1'', Finished 9 ''w1'' 20 ''sade'', Left ''w1'', Joined ''w1'',
                Finished 12 ''w1'' 22 ''sade'', Finished 13 ''w1'' 7 ''pso''] worker_repo_new))))) = 42"
proof -
  let ?xs = "[Joined ''w1'', Started 5 ''w1'', Finished 9 ''w1'' 20 ''sade'', Left ''w1'', Joined ''w1'',
                Finished 12 ''w1'' 22 ''sade'', Finished 13 ''w1'' 7 ''pso'']"
  have "get_worker_info ''w1'' (repo_run ?xs worker_repo_new) \<noteq> None"
    by (simp add: get_worker_info_def worker_joined_def worker_left_def worker_started_work_def
        worker_finished_work_def worker_repo_new_def map_emplace_def Let_def map_contains_iff)
  then obtain i where "get_worker_info ''w1'' (repo_run ?xs worker_repo_new) = Some i" by blast
  with repository_counts_work [OF refl, of ?xs] show ?thesis by auto
qed

text \<open>
  The saved repository can be read back. Loading what was saved gives every worker the
  statistics it had; start times are not kept, and nobody becomes connected by loading.
\<close>

theorem repository_roundtrip:
  "get_worker_info w (repo_load (repo_save r) r0) = map_option (\<lambda>i. i\<lparr>lastWorkStartTime := 0\<rparr>) (get_worker_info w r)
   \<and> get_connected_workers (repo_load (repo_save r) r0) = get_connected_workers r0"
proof -
  have "map_of (map (\<lambda>(k, t, b). (k, \<lparr>totalStats = t, statsByAlgorithm = b, lastWorkStartTime = 0\<rparr>))
      (map (\<lambda>(k, i). (k, totalStats i, statsByAlgorithm i)) m)) w
    = map_option (\<lambda>i. i\<lparr>lastWorkStartTime := 0\<rparr>) (map_of m w)" for m
    by (induction m) auto
  then show ?thesis by (simp add: get_worker_info_def get_connected_workers_def repo_load_def repo_save_def)
qed

end
