(* ===== verification/Uuid.thy ===== *)
theory Uuid
  imports Prelude
begin

unbundle bit_operations_syntax

text \<open>
  \<^verbatim>\<open>src/distributed/utils/include/UUID.h\<close>: the random identifiers of workers. The numbers that
  the random engine draws are an argument of \<open>uuid_New\<close>; the source draws sixteen of them from
  the closed interval from \<open>0\<close> to \<open>256\<close> and casts each to \<open>unsigned char\<close>.
\<close>

section \<open>The class\<close>

type_synonym UUID = bytes

definition uuid_New :: "nat list \<Rightarrow> UUID" where
  "uuid_New dist =
    (let d0 = map (\<lambda>index. word_of_nat (dist ! index)) [0..<16];
         d1 = d0[6 := (d0 ! 6 AND 0x0f) OR 0x40];
         d2 = d1[8 := (d1 ! 8 AND 0x3f) OR 0x80]
     in d2)"

text \<open>The conversion \<open>%02x\<close>.\<close>

definition hex_digits :: string where
  "hex_digits = ''0123456789abcdef''"

definition hex02 :: "byte \<Rightarrow> string" where
  "hex02 b = [hex_digits ! (unat b div 16), hex_digits ! (unat b mod 16)]"

definition uuid_String :: "UUID \<Rightarrow> string" where
  "uuid_String u =
     hex02 (u ! 0) @ hex02 (u ! 1) @ hex02 (u ! 2) @ hex02 (u ! 3) @ ''-''
     @ hex02 (u ! 4) @ hex02 (u ! 5) @ ''-''
     @ hex02 (u ! 6) @ hex02 (u ! 7) @ ''-''
     @ hex02 (u ! 8) @ hex02 (u ! 9) @ ''-''
     @ hex02 (u ! 10) @ hex02 (u ! 11) @ hex02 (u ! 12) @ hex02 (u ! 13) @ hex02 (u ! 14) @ hex02 (u ! 15)"

section \<open>Lemmas\<close>

lemma byte_div_16: "unat (b :: byte) div 16 < 16"
  using unsigned_less [of b, where ?'a = nat] by simp

lemma hex02_length [simp]: "length (hex02 b) = 2"
  by (simp add: hex02_def)

lemma hex_digit_inj: "i < 16 \<Longrightarrow> j < 16 \<Longrightarrow> hex_digits ! i = hex_digits ! j \<longleftrightarrow> i = j"
  by (rule nth_eq_iff_index_eq) (simp_all add: hex_digits_def)

lemma hex02_inj [simp]: "hex02 a = hex02 b \<longleftrightarrow> a = b"
proof
  assume "hex02 a = hex02 b"
  then have "unat a div 16 = unat b div 16" "unat a mod 16 = unat b mod 16"
    using byte_div_16 [of a] byte_div_16 [of b] by (simp_all add: hex02_def hex_digit_inj)
  then have "unat a = unat b" by (metis div_mult_mod_eq)
  then show "a = b" by (simp add: word_unat_eq_iff)
qed simp

lemma hex02_digits: "set (hex02 b) \<subseteq> set hex_digits"
proof -
  have "i < 16 \<Longrightarrow> hex_digits ! i \<in> set hex_digits" for i
    by (rule nth_mem) (simp add: hex_digits_def)
  then show ?thesis using byte_div_16 [of b] by (simp add: hex02_def)
qed

lemma sixteen: "length u = 16 \<Longrightarrow> \<exists>a b c d e f g h i j k l m n p q. u = [a, b, c, d, e, f, g, h, i, j, k, l, m, n, p, q]"
  by (auto simp: eval_nat_numeral length_Suc_conv)

lemma uuid_String_inj:
  assumes "length u = 16" and "length v = 16" and "uuid_String u = uuid_String v"
  shows "u = v"
proof -
  obtain a b c d e f g h i j k l m n p q where u: "u = [a, b, c, d, e, f, g, h, i, j, k, l, m, n, p, q]"
    using sixteen [OF assms(1)] by blast
  obtain a' b' c' d' e' f' g' h' i' j' k' l' m' n' p' q' where
    v: "v = [a', b', c', d', e', f', g', h', i', j', k', l', m', n', p', q']"
    using sixteen [OF assms(2)] by blast
  show ?thesis using assms(3) by (simp add: uuid_String_def u v append_eq_append_conv)
qed

lemma uuid_New_length [simp]: "length (uuid_New dist) = 16"
  by (simp add: uuid_New_def Let_def)

lemma uuid_masks:
  "(0x0f :: byte) = mask 4" "(0x40 :: byte) = push_bit 6 1" "(4 :: byte) = push_bit 2 1"
  "(0x3f :: byte) = mask 6" "(0x80 :: byte) = push_bit 7 1" "(2 :: byte) = push_bit 1 1"
  by (simp_all add: mask_eq_decr_exp push_bit_eq_mult)

lemma version_bits: "drop_bit 4 ((x AND 0x0f) OR 0x40 :: byte) = 4"
  unfolding uuid_masks by (rule bit_eqI) (auto simp: bit_simps)

lemma variant_bits: "drop_bit 6 ((x AND 0x3f) OR 0x80 :: byte) = 2"
  unfolding uuid_masks by (rule bit_eqI) (auto simp: bit_simps)

lemma version_digit: "unat ((x AND 0x0f) OR 0x40 :: byte) div 16 = 4"
  using arg_cong [OF version_bits [of x], of unat] by (simp add: drop_bit_eq_div unat_div)

lemma variant_digit: "unat ((x AND 0x3f) OR 0x80 :: byte) div 16 \<in> {8, 9, 10, 11}"
proof -
  have "unat ((x AND 0x3f) OR 0x80 :: byte) div 64 = 2"
    using arg_cong [OF variant_bits [of x], of unat] by (simp add: drop_bit_eq_div unat_div)
  then show ?thesis by auto
qed

section \<open>Properties\<close>

text \<open>
  An identifier has the form of a version-4 UUID. Whatever numbers are drawn, the string has
  five groups of 8, 4, 4, 4 and 12 lower-case hexadecimal digits separated by dashes, the third
  group starts with the version \<open>4\<close> and the fourth with a variant digit \<open>8\<close>, \<open>9\<close>, \<open>a\<close> or \<open>b\<close>;
  and two objects have the same string only if all their bytes are the same.
\<close>

theorem uuid_is_version_4:
  "(\<exists>a b c d e. uuid_String (uuid_New dist) = a @ ''-'' @ b @ ''-'' @ c @ ''-'' @ d @ ''-'' @ e
      \<and> map length [a, b, c, d, e] = [8, 4, 4, 4, 12]
      \<and> set (a @ b @ c @ d @ e) \<subseteq> set hex_digits
      \<and> hd c = CHR ''4'' \<and> hd d \<in> set ''89ab'')
   \<and> (uuid_String (uuid_New dist) = uuid_String (uuid_New other) \<longleftrightarrow> uuid_New dist = uuid_New other)"
proof -
  let ?u = "uuid_New dist"
  have v: "hd (hex02 (?u ! 6)) = CHR ''4''"
    using version_digit [of "word_of_nat (dist ! 6)"] by (simp add: uuid_New_def Let_def hex02_def hex_digits_def)
  have w: "hd (hex02 (?u ! 8)) \<in> set ''89ab''"
    using variant_digit [of "word_of_nat (dist ! 8)"]
    by (auto simp: uuid_New_def Let_def hex02_def hex_digits_def)
  let ?g = "\<lambda>is. concat (map (\<lambda>i. hex02 (?u ! i)) is)"
  have hd2: "hd (hex02 x @ y) = hd (hex02 x)" for x y by (simp add: hex02_def)
  have "uuid_String ?u = ?g [0, 1, 2, 3] @ ''-'' @ ?g [4, 5] @ ''-'' @ ?g [6, 7] @ ''-'' @ ?g [8, 9] @ ''-''
      @ ?g [10, 11, 12, 13, 14, 15]"
    by (simp add: uuid_String_def)
  moreover have "map length [?g [0, 1, 2, 3], ?g [4, 5], ?g [6, 7], ?g [8, 9], ?g [10, 11, 12, 13, 14, 15]]
      = [8, 4, 4, 4, 12]" by simp
  moreover have "set (?g is) \<subseteq> set hex_digits" for "is" using hex02_digits by auto
  then have "set (?g [0, 1, 2, 3] @ ?g [4, 5] @ ?g [6, 7] @ ?g [8, 9] @ ?g [10, 11, 12, 13, 14, 15]) \<subseteq> set hex_digits"
    unfolding set_append by blast
  moreover have "hd (?g [6, 7]) = CHR ''4''" using v by (simp add: hd2)
  moreover have "hd (?g [8, 9]) \<in> set ''89ab''" using w by (simp only: hd2 list.map concat.simps)
  ultimately have "\<exists>a b c d e. uuid_String ?u = a @ ''-'' @ b @ ''-'' @ c @ ''-'' @ d @ ''-'' @ e
      \<and> map length [a, b, c, d, e] = [8, 4, 4, 4, 12] \<and> set (a @ b @ c @ d @ e) \<subseteq> set hex_digits
      \<and> hd c = CHR ''4'' \<and> hd d \<in> set ''89ab''"
    by - (rule exI [of _ "?g [0, 1, 2, 3]"], rule exI [of _ "?g [4, 5]"], rule exI [of _ "?g [6, 7]"],
      rule exI [of _ "?g [8, 9]"], rule exI [of _ "?g [10, 11, 12, 13, 14, 15]"], intro conjI)
  then show ?thesis
    by (rule conjI) (rule iffI, erule uuid_String_inj [OF uuid_New_length uuid_New_length], simp)
qed

end
