(* ===== verification/Settings.thy ===== *)
theory Settings
  imports Worker_Info Uuid
begin

text \<open>
  \<^verbatim>\<open>src/distributed/logic/include/settings.h\<close>, \<^verbatim>\<open>controller_settings.h/.cpp\<close> and
  \<^verbatim>\<open>worker_settings.h/.cpp\<close>: a structure that is kept in a file. It is read at construction (or
  initialised when there is no file), and every access through the call operator first writes
  the value as it is before the access.

  The XML archive is Boost's and a parameter: what it writes for a value, and what reading it
  into an existing object gives. \<open>xml_ok codec persist\<close> states what a round trip through the
  archive keeps; \<open>persist\<close> is the identity for the worker and drops start times and
  connections for the controller, as the \<open>serialize\<close> functions of the source say.
\<close>

record disk =
  d_files :: "string \<Rightarrow> bytes option"
  d_readable :: "string \<Rightarrow> bool"
  d_writable :: "string \<Rightarrow> bool"

record 's xml_codec =
  xml_write :: "'s \<Rightarrow> bytes"
  xml_read :: "bytes \<Rightarrow> 's \<Rightarrow> 's result"

record 's settings =
  settingsPath :: string
  st_value :: 's
  autoSave :: bool

section \<open>Member functions\<close>

definition initialize_settings :: "'s xml_codec \<Rightarrow> ('s \<Rightarrow> 's) \<Rightarrow> disk \<Rightarrow> 's settings \<Rightarrow> 's settings result" where
  "initialize_settings codec initialize d s =
    (case d_files d (settingsPath s) of
       Some content \<Rightarrow>
         if \<not> d_readable d (settingsPath s)
         then Inl (Runtime_error (''Failed to open settings file: '' @ settingsPath s))
         else map_sum id (\<lambda>v. s\<lparr>st_value := v\<rparr>) (xml_read codec content (st_value s))
     | None \<Rightarrow> Inr (s\<lparr>st_value := initialize (st_value s)\<rparr>))"

definition settings_new ::
  "'s xml_codec \<Rightarrow> ('s \<Rightarrow> 's) \<Rightarrow> 's \<Rightarrow> string \<Rightarrow> bool \<Rightarrow> disk \<Rightarrow> 's settings result" where
  "settings_new codec initialize initial path auto d =
     initialize_settings codec initialize d \<lparr>settingsPath = path, st_value = initial, autoSave = auto\<rparr>"

definition save_to_file :: "'s xml_codec \<Rightarrow> 's settings \<Rightarrow> disk \<Rightarrow> unit result \<times> disk" where
  "save_to_file codec s d =
    (if d_writable d (settingsPath s)
     then (Inr (), d\<lparr>d_files := (d_files d)(settingsPath s \<mapsto> xml_write codec (st_value s))\<rparr>)
     else (Inl (Runtime_error ''basic_ios::clear: iostream error''), d))"

definition settings_save :: "'s xml_codec \<Rightarrow> 's settings \<Rightarrow> disk \<Rightarrow> unit result \<times> disk" where
  "settings_save codec s d = save_to_file codec s d"

definition settings_call :: "'s xml_codec \<Rightarrow> 's settings \<Rightarrow> disk \<Rightarrow> 's result \<times> disk" where
  "settings_call codec s d =
    (if autoSave s then and_then (save_to_file codec s d) (\<lambda>_ d. (Inr (st_value s), d))
     else (Inr (st_value s), d))"

text \<open>The structures of the controller and of the worker.\<close>

record controller_settings =
  workerInfo :: worker_repo

definition controller_settings_initialize :: "controller_settings \<Rightarrow> controller_settings" where
  "controller_settings_initialize c = c"

definition controller_settings_persist :: "controller_settings \<Rightarrow> controller_settings \<Rightarrow> controller_settings" where
  "controller_settings_persist c c0 = c0\<lparr>workerInfo := repo_load (repo_save (workerInfo c)) (workerInfo c0)\<rparr>"

record worker_settings =
  ws_workerId :: string

definition worker_settings_initialize :: "nat list \<Rightarrow> worker_settings \<Rightarrow> worker_settings" where
  "worker_settings_initialize dist w = w\<lparr>ws_workerId := ''worker_'' @ uuid_String (uuid_New dist)\<rparr>"

definition worker_settings_persist :: "worker_settings \<Rightarrow> worker_settings \<Rightarrow> worker_settings" where
  "worker_settings_persist w w0 = w0\<lparr>ws_workerId := ws_workerId w\<rparr>"

section \<open>Using the settings\<close>

text \<open>\<open>_settings().member(...)\<close>: the access, then the change \<open>f\<close> of the structure.\<close>

definition settings_modify :: "'s xml_codec \<Rightarrow> ('s \<Rightarrow> 's) \<Rightarrow> 's settings \<times> disk \<Rightarrow> unit result \<times> 's settings \<times> disk" where
  "settings_modify codec f sd = (case sd of (s, d) \<Rightarrow>
     (case settings_call codec s d of
        (Inl e, d') \<Rightarrow> (Inl e, s, d')
      | (Inr v, d') \<Rightarrow> (Inr (), s\<lparr>st_value := f v\<rparr>, d')))"

fun modify_all :: "'s xml_codec \<Rightarrow> ('s \<Rightarrow> 's) list \<Rightarrow> 's settings \<times> disk \<Rightarrow> 's settings \<times> disk" where
  "modify_all codec [] sd = sd"
| "modify_all codec (f # fs) sd = modify_all codec fs (snd (settings_modify codec f sd))"

definition xml_ok :: "'s xml_codec \<Rightarrow> ('s \<Rightarrow> 's \<Rightarrow> 's) \<Rightarrow> bool" where
  "xml_ok codec persist \<longleftrightarrow> (\<forall>v v0. xml_read codec (xml_write codec v) v0 = Inr (persist v v0))"

lemma modify_step:
  "autoSave s \<Longrightarrow> d_writable d (settingsPath s) \<Longrightarrow>
   snd (settings_modify codec f (s, d)) =
     (s\<lparr>st_value := f (st_value s)\<rparr>,
      d\<lparr>d_files := (d_files d)(settingsPath s \<mapsto> xml_write codec (st_value s))\<rparr>)"
  by (simp add: settings_modify_def settings_call_def save_to_file_def)

lemma modify_all_state:
  "autoSave s \<Longrightarrow> d_writable d (settingsPath s) \<Longrightarrow>
   fst (modify_all codec fs (s, d)) = s\<lparr>st_value := fold (\<lambda>f v. f v) fs (st_value s)\<rparr>
   \<and> d_writable (snd (modify_all codec fs (s, d))) = d_writable d
   \<and> d_readable (snd (modify_all codec fs (s, d))) = d_readable d
   \<and> (fs \<noteq> [] \<longrightarrow> d_files (snd (modify_all codec fs (s, d))) (settingsPath s)
        = Some (xml_write codec (fold (\<lambda>f v. f v) (butlast fs) (st_value s))))"
proof (induction fs arbitrary: s d)
  case (Cons f fs)
  let ?s = "s\<lparr>st_value := f (st_value s)\<rparr>"
  let ?d = "d\<lparr>d_files := (d_files d)(settingsPath s \<mapsto> xml_write codec (st_value s))\<rparr>"
  show ?case using Cons.IH [of ?s ?d] Cons.prems
    by (cases "fs = []") (simp_all add: modify_step)
qed simp

lemma reload:
  "xml_ok codec persist \<Longrightarrow> d_readable d p \<Longrightarrow> d_files d p = Some (xml_write codec v) \<Longrightarrow>
   settings_new codec ini v0 p auto d = Inr \<lparr>settingsPath = p, st_value = persist v v0, autoSave = auto\<rparr>"
  by (simp add: settings_new_def initialize_settings_def xml_ok_def)

section \<open>Properties\<close>

text \<open>
  C20: what a restart sees. With automatic saving and a writable path, after any number of
  changes made through the call operator a restarted process reads the value from before the
  last change (a crash loses that one change, never more), and after \<open>save\<close> it reads the
  current value.
\<close>

theorem settings_file_lags_one_change:
  assumes "xml_ok codec persist" and "autoSave s" and "d_writable d (settingsPath s)"
    and "d_readable d (settingsPath s)" and "modify_all codec (fs @ [f]) (s, d) = (s', d')"
  shows "settings_new codec ini v0 (settingsPath s) auto d'
       = Inr \<lparr>settingsPath = settingsPath s, st_value = persist (fold (\<lambda>g v. g v) fs (st_value s)) v0, autoSave = auto\<rparr>
     \<and> st_value s' = f (fold (\<lambda>g v. g v) fs (st_value s))
     \<and> settings_new codec ini v0 (settingsPath s) auto (snd (settings_save codec s' d'))
       = Inr \<lparr>settingsPath = settingsPath s, st_value = persist (st_value s') v0, autoSave = auto\<rparr>"
proof -
  note m = modify_all_state [OF assms(2,3), of codec "fs @ [f]", unfolded assms(5), simplified]
  have "d_files (snd (settings_save codec s' d')) (settingsPath s) = Some (xml_write codec (st_value s'))"
    using m assms(3) by (simp add: settings_save_def save_to_file_def)
  moreover have "d_readable (snd (settings_save codec s' d')) (settingsPath s)"
    using m assms(4) by (simp add: settings_save_def save_to_file_def)
  ultimately show ?thesis
    using m assms(4) reload [OF assms(1)] by simp
qed

text \<open>An archive for worker settings: the characters of the identifier.\<close>

definition demo_xml :: "worker_settings xml_codec" where
  "demo_xml = \<lparr>xml_write = (\<lambda>w. map (\<lambda>c. word_of_nat (of_char c)) (ws_workerId w)),
     xml_read = (\<lambda>bs w0. Inr (w0\<lparr>ws_workerId := map (\<lambda>b. char_of (unat b)) bs\<rparr>))\<rparr>"

definition demo_disk :: disk where
  "demo_disk = \<lparr>d_files = (\<lambda>_. None), d_readable = (\<lambda>_. True), d_writable = (\<lambda>_. True)\<rparr>"

lemma demo_xml_ok: "xml_ok demo_xml worker_settings_persist"
  by (simp add: xml_ok_def demo_xml_def worker_settings_persist_def unat_of_nat comp_def)

theorem settings_file_lags_one_change_witness:
  "settings_new demo_xml id \<lparr>ws_workerId = ''''\<rparr> ''w.xml'' True (snd (modify_all demo_xml
      [\<lambda>w. w\<lparr>ws_workerId := ''a''\<rparr>, \<lambda>w. w\<lparr>ws_workerId := ''b''\<rparr>]
      (\<lparr>settingsPath = ''w.xml'', st_value = \<lparr>ws_workerId = ''''\<rparr>, autoSave = True\<rparr>, demo_disk)))
   = Inr \<lparr>settingsPath = ''w.xml'', st_value = \<lparr>ws_workerId = ''a''\<rparr>, autoSave = True\<rparr>"
proof -
  let ?s = "\<lparr>settingsPath = ''w.xml'', st_value = \<lparr>ws_workerId = ''''\<rparr>, autoSave = True\<rparr>"
  let ?m = "modify_all demo_xml ([\<lambda>w. w\<lparr>ws_workerId := ''a''\<rparr>] @ [\<lambda>w. w\<lparr>ws_workerId := ''b''\<rparr>]) (?s, demo_disk)"
  have "autoSave ?s" "d_writable demo_disk (settingsPath ?s)" "d_readable demo_disk (settingsPath ?s)"
    by (simp_all add: demo_disk_def)
  from settings_file_lags_one_change [OF demo_xml_ok this, of "[\<lambda>w. w\<lparr>ws_workerId := ''a''\<rparr>]"
      "\<lambda>w. w\<lparr>ws_workerId := ''b''\<rparr>" "fst ?m" "snd ?m" id "\<lparr>ws_workerId = ''''\<rparr>" True]
  show ?thesis by (simp add: worker_settings_persist_def)
qed

text \<open>
  C21: a worker keeps its identity. A worker that starts without a settings file draws an
  identifier and, by its first access, stores it; started again on that file it has the same
  identifier, whatever the random engine draws now.
\<close>

theorem worker_identity_persists:
  assumes "xml_ok codec worker_settings_persist" and "d_writable d p" and "d_readable d p"
    and "d_files d p = None"
    and "settings_new codec (worker_settings_initialize dist) v0 p True d = Inr s"
  shows "ws_workerId (st_value s) = ''worker_'' @ uuid_String (uuid_New dist)
    \<and> fst (settings_call codec s d) = Inr (st_value s)
    \<and> settings_new codec (worker_settings_initialize dist') v0 p True (snd (settings_call codec s d)) = Inr s"
proof -
  have s: "s = \<lparr>settingsPath = p, st_value = worker_settings_initialize dist v0, autoSave = True\<rparr>"
    using assms(4,5) by (simp add: settings_new_def initialize_settings_def)
  have c: "settings_call codec s d
      = (Inr (st_value s), d\<lparr>d_files := (d_files d)(p \<mapsto> xml_write codec (st_value s))\<rparr>)"
    using assms(2) by (simp add: s settings_call_def save_to_file_def)
  have "settings_new codec (worker_settings_initialize dist') v0 p True (snd (settings_call codec s d))
      = Inr \<lparr>settingsPath = p, st_value = worker_settings_persist (st_value s) v0, autoSave = True\<rparr>"
    by (rule reload [OF assms(1)]) (simp_all add: c assms(3))
  then show ?thesis
    by (simp add: c) (simp add: s worker_settings_initialize_def worker_settings_persist_def)
qed

theorem worker_identity_persists_witness:
  "\<exists>s. settings_new demo_xml (worker_settings_initialize [1, 2]) \<lparr>ws_workerId = ''''\<rparr> ''w.xml'' True demo_disk = Inr s
     \<and> settings_new demo_xml (worker_settings_initialize [3]) \<lparr>ws_workerId = ''''\<rparr> ''w.xml'' True
         (snd (settings_call demo_xml s demo_disk)) = Inr s"
proof -
  obtain s where s: "settings_new demo_xml (worker_settings_initialize [1, 2]) \<lparr>ws_workerId = ''''\<rparr> ''w.xml'' True demo_disk = Inr s"
    by (simp add: settings_new_def initialize_settings_def demo_disk_def)
  with worker_identity_persists [OF demo_xml_ok _ _ _ s, of "[3]"] show ?thesis
    by (auto simp: demo_disk_def)
qed

end
