(* ===== verification/Controller.thy ===== *)
theory Controller
  imports Udp_Registry Messages Settings
begin

text \<open>
  \<^verbatim>\<open>src/distributed/logic/include/distributed_controller.h\<close> and \<^verbatim>\<open>distributed_controller.cpp\<close>: the
  server that hands the work of islands to workers.

  The two router sockets are message passing: a handler takes the received message
  (\<open>Sockets\<close> models how it comes out of frames) and appends what it sends to \<open>toWorkers\<close> and
  \<open>toIslands\<close>. The record also holds what the handlers reach: the settings with the worker
  statistics, the disk they are saved to, and the library registry of the process.

  \<open>*begin()\<close> of the two hash containers and the clock are the record \<open>choice\<close>, an argument of
  every handler. The archives and the few functions of pagmo that are called are the record
  \<open>env\<close>. A handler that throws returns the error with the state it leaves behind.
\<close>

section \<open>State\<close>

record work_allocation_record =
  islandId :: string
  workData :: bytes

record controller =
  heartbeat_interval :: int
  heartbeat_timeout :: int
  reconnect_ivl_max :: int
  socket_options :: "(string \<times> int) list"
  bound :: "string list"
  ct_settings :: "controller_settings settings"
  ct_disk :: disk
  ct_registry :: registry
  islandsWaitingForAlloc :: "(string, bytes) umap"
  freeWorkersPool :: "string list"
  workAllocationMap :: "(string, work_allocation_record) umap"
  toWorkers :: "(string \<times> MsgType \<times> bytes) list"
  toIslands :: "(string \<times> MsgType \<times> bytes) list"

record ('a, 'p, 'q, 'u) env =
  e_xml :: "controller_settings xml_codec"
  e_host :: "('q, 'u) host"
  e_work :: "bytes \<Rightarrow> ('a, 'p) work_container result"
  e_request :: "bytes \<Rightarrow> get_dll_request result"
  e_emit_dll :: "dll_binary_container \<Rightarrow> stream_op list"
  e_pop_size :: "'p \<Rightarrow> u64"
  e_algo_name :: "'a \<Rightarrow> string"
  e_bind :: "string \<Rightarrow> unit result"

record choice =
  ch_free :: nat
  ch_island :: nat
  ch_now :: int

abbreviation repo :: "controller \<Rightarrow> worker_repo" where
  "repo c \<equiv> workerInfo (st_value (ct_settings c))"

section \<open>Access to the statistics\<close>

text \<open>\<open>_settings().workerInfo.f(...)\<close>: saves the settings, then runs \<open>f\<close> on the repository.\<close>

definition with_repo ::
  "('a, 'p, 'q, 'u) env \<Rightarrow> (worker_repo \<Rightarrow> unit result \<times> worker_repo) \<Rightarrow> controller \<Rightarrow> unit result \<times> controller" where
  "with_repo e f c =
    (case settings_call (e_xml e) (ct_settings c) (ct_disk c) of
       (Inl err, d) \<Rightarrow> (Inl err, c\<lparr>ct_disk := d\<rparr>)
     | (Inr v, d) \<Rightarrow>
         (let (r, repo') = f (workerInfo v)
          in (r, c\<lparr>ct_disk := d, ct_settings := (ct_settings c)\<lparr>st_value := v\<lparr>workerInfo := repo'\<rparr>\<rparr>\<rparr>)))"

definition get_worker_info_repository :: "('a, 'p, 'q, 'u) env \<Rightarrow> controller \<Rightarrow> worker_repo result \<times> controller" where
  "get_worker_info_repository e c =
    (case settings_call (e_xml e) (ct_settings c) (ct_disk c) of
       (Inl err, d) \<Rightarrow> (Inl err, c\<lparr>ct_disk := d\<rparr>)
     | (Inr v, d) \<Rightarrow> (Inr (workerInfo v), c\<lparr>ct_disk := d\<rparr>))"

section \<open>Controller data logic\<close>

definition allocate_worker_to_island ::
  "('a, 'p, 'q, 'u) env \<Rightarrow> choice \<Rightarrow> string \<Rightarrow> bytes \<Rightarrow> controller \<Rightarrow> unit result \<times> controller" where
  "allocate_worker_to_island e ch island data c =
    (case vector_deserialize (e_work e) data of
       Inl err \<Rightarrow> (Inl err, c)
     | Inr serializedData \<Rightarrow>
         if freeWorkersPool c = [] then (Inl (Undefined_behaviour ''*begin() of an empty set''), c)
         else
           let preferredWorker = preferredWorkerId serializedData;
               workerId = (if preferredWorker \<in> set (freeWorkersPool c) then preferredWorker
                           else begin_of (ch_free ch) (freeWorkersPool c));
               c1 = c\<lparr>freeWorkersPool := set_erase workerId (freeWorkersPool c),
                      workAllocationMap := map_emplace workerId \<lparr>islandId = island, workData = data\<rparr>
                        (workAllocationMap c)\<rparr>
           in and_then (with_repo e (worker_started_work (ch_now ch) workerId) c1)
                (\<lambda>_ c. (Inr (), c\<lparr>toWorkers := toWorkers c @ [(workerId, ALLOCATE_WORK, data)]\<rparr>)))"

definition allocate_island_work ::
  "('a, 'p, 'q, 'u) env \<Rightarrow> choice \<Rightarrow> string \<Rightarrow> bytes \<Rightarrow> controller \<Rightarrow> unit result \<times> controller" where
  "allocate_island_work e ch island data c =
    (if freeWorkersPool c = []
     then (Inr (), c\<lparr>islandsWaitingForAlloc := map_emplace island data (islandsWaitingForAlloc c)\<rparr>)
     else allocate_worker_to_island e ch island data c)"

definition pop_waiting_island :: "choice \<Rightarrow> controller \<Rightarrow> (string \<times> bytes) \<times> controller" where
  "pop_waiting_island ch c =
    (let islandRecord = begin_of (ch_island ch) (islandsWaitingForAlloc c)
     in (islandRecord, c\<lparr>islandsWaitingForAlloc := map_erase (fst islandRecord) (islandsWaitingForAlloc c)\<rparr>))"

definition add_free_worker ::
  "('a, 'p, 'q, 'u) env \<Rightarrow> choice \<Rightarrow> string \<Rightarrow> controller \<Rightarrow> unit result \<times> controller" where
  "add_free_worker e ch workerId c =
    (let c1 = c\<lparr>freeWorkersPool := set_emplace workerId (freeWorkersPool c)\<rparr>
     in if islandsWaitingForAlloc c1 \<noteq> []
        then (let ((island, data), c2) = pop_waiting_island ch c1
              in allocate_worker_to_island e ch island data c2)
        else (Inr (), c1))"

section \<open>Handling of socket messages\<close>

definition handle_join :: "('a, 'p, 'q, 'u) env \<Rightarrow> choice \<Rightarrow> string \<Rightarrow> controller \<Rightarrow> unit result \<times> controller" where
  "handle_join e ch workerId c =
    (if workerId \<in> set (freeWorkersPool c) then (Inr (), c)
     else and_then (with_repo e (\<lambda>r. (Inr (), worker_joined workerId worker_info_new r)) c)
            (\<lambda>_. add_free_worker e ch workerId))"

definition handle_leave :: "('a, 'p, 'q, 'u) env \<Rightarrow> choice \<Rightarrow> string \<Rightarrow> controller \<Rightarrow> unit result \<times> controller" where
  "handle_leave e ch workerId c =
     and_then (with_repo e (\<lambda>r. (Inr (), worker_left workerId r))
                 (c\<lparr>freeWorkersPool := set_erase workerId (freeWorkersPool c)\<rparr>))
       (\<lambda>_ c. case map_of (workAllocationMap c) workerId of
           None \<Rightarrow> (Inr (), c)
         | Some r \<Rightarrow> allocate_island_work e ch (islandId r) (workData r)
                       (c\<lparr>workAllocationMap := map_erase workerId (workAllocationMap c)\<rparr>))"

definition handle_results :: "('a, 'p, 'q, 'u) env \<Rightarrow> choice \<Rightarrow> string \<Rightarrow> bytes \<Rightarrow> controller \<Rightarrow> unit result \<times> controller" where
  "handle_results e ch workerId binary c =
    (case vector_deserialize (e_work e) binary of
       Inl err \<Rightarrow> (Inl err, c)
     | Inr workResults \<Rightarrow>
         and_then (with_repo e (worker_finished_work (ch_now ch) workerId
                     (e_pop_size e (pop workResults)) (e_algo_name e (algo workResults))) c)
           (\<lambda>_ c. case map_at workerId (workAllocationMap c) of
               Inl err \<Rightarrow> (Inl err, c)
             | Inr r \<Rightarrow>
                 add_free_worker e ch workerId
                   (c\<lparr>toIslands := toIslands c @ [(islandId r, WORK_RESULTS, binary)],
                      workAllocationMap := map_erase workerId (workAllocationMap c)\<rparr>)))"

definition handle_get_dll :: "('a, 'p, 'q, 'u) env \<Rightarrow> string \<Rightarrow> bytes \<Rightarrow> controller \<Rightarrow> unit result \<times> controller" where
  "handle_get_dll e workerId binary c =
    (case vector_deserialize (e_request e) binary of
       Inl err \<Rightarrow> (Inl err, c)
     | Inr request \<Rightarrow>
         (case get_lib_as_file (e_host e) (req_dll_name request) (ct_registry c) of
            (Inl err, r) \<Rightarrow> (Inl err, c\<lparr>ct_registry := r\<rparr>)
          | (Inr dllFile, r) \<Rightarrow>
              (Inr (), c\<lparr>ct_registry := r,
                 toWorkers := toWorkers c @ [(workerId, DLL_BINARY,
                   vector_serialize (e_emit_dll e) \<lparr>dll_name = req_dll_name request, dll_file = dllFile\<rparr>)]\<rparr>)))"

definition handle_workers_msg ::
  "('a, 'p, 'q, 'u) env \<Rightarrow> choice \<Rightarrow> string \<Rightarrow> MsgType \<Rightarrow> bytes \<Rightarrow> controller \<Rightarrow> unit result \<times> controller" where
  "handle_workers_msg e ch workerId type binary c =
    (case type of
       WORKER_JOIN \<Rightarrow> handle_join e ch workerId c
     | WORKER_LEAVE \<Rightarrow> handle_leave e ch workerId c
     | WORK_RESULTS \<Rightarrow> handle_results e ch workerId binary c
     | GET_DLL \<Rightarrow> handle_get_dll e workerId binary c
     | _ \<Rightarrow> (Inr (), c))"

definition handle_islands_msg ::
  "('a, 'p, 'q, 'u) env \<Rightarrow> choice \<Rightarrow> string \<Rightarrow> MsgType \<Rightarrow> bytes \<Rightarrow> controller \<Rightarrow> unit result \<times> controller" where
  "handle_islands_msg e ch island type binary c =
    (case type of
       ALLOCATE_WORK \<Rightarrow> allocate_island_work e ch island binary c
     | _ \<Rightarrow> (Inr (), c))"

section \<open>Set-up, the server thread, shutting down\<close>

text \<open>
  \<open>throw e\<close> in a handler for \<open>const std::exception& e\<close> throws a copy of the base class; what the
  exception had to say is lost.
\<close>

definition sliced :: "cpp_error \<Rightarrow> cpp_error" where
  "sliced e = (if is_exception e then Runtime_error ''std::exception'' else e)"

definition controller_new ::
  "('a, 'p, 'q, 'u) env \<Rightarrow> string \<Rightarrow> int \<Rightarrow> int \<Rightarrow> int \<Rightarrow> string \<Rightarrow> disk \<Rightarrow> registry \<Rightarrow> controller result" where
  "controller_new e address interval timeout ivlMax settingsFilePath d r =
    (case settings_new (e_xml e) controller_settings_initialize \<lparr>workerInfo = worker_repo_new\<rparr> settingsFilePath True d of
       Inl err \<Rightarrow> Inl err
     | Inr s \<Rightarrow>
         (case e_bind e address of
            Inl err \<Rightarrow> Inl (sliced err)
          | Inr _ \<Rightarrow>
              (case e_bind e ''ipc://distributed_controller_islands_socket'' of
                 Inl err \<Rightarrow> Inl err
               | Inr _ \<Rightarrow> Inr \<lparr>heartbeat_interval = interval, heartbeat_timeout = timeout, reconnect_ivl_max = ivlMax,
                   socket_options = [(''heartbeat_ivl'', interval), (''heartbeat_timeout'', timeout),
                     (''reconnect_ivl_max'', ivlMax), (''disconnect_msg'', msg_int WORKER_LEAVE)],
                   bound = [address, ''ipc://distributed_controller_islands_socket''],
                   ct_settings = s, ct_disk = d, ct_registry = r,
                   islandsWaitingForAlloc = [], freeWorkersPool = [], workAllocationMap = [],
                   toWorkers = [], toIslands = []\<rparr>)))"

text \<open>
  The server thread: the poller calls the handler of the socket that has a message; the first
  exception ends the loop and the thread, silently.
\<close>

datatype event =
    Worker_msg choice string MsgType bytes
  | Island_msg choice string MsgType bytes

fun handle_event :: "('a, 'p, 'q, 'u) env \<Rightarrow> event \<Rightarrow> controller \<Rightarrow> unit result \<times> controller" where
  "handle_event e (Worker_msg ch w t b) c = handle_workers_msg e ch w t b c"
| "handle_event e (Island_msg ch i t b) c = handle_islands_msg e ch i t b c"

record server =
  serving :: bool
  ctrl :: controller

definition poll :: "('a, 'p, 'q, 'u) env \<Rightarrow> event \<Rightarrow> server \<Rightarrow> server" where
  "poll e ev s =
    (if serving s
     then (let (r, c) = handle_event e ev (ctrl s) in \<lparr>serving = is_ok r, ctrl = c\<rparr>)
     else s)"

fun run_server :: "('a, 'p, 'q, 'u) env \<Rightarrow> event list \<Rightarrow> server \<Rightarrow> server" where
  "run_server e [] s = s"
| "run_server e (ev # evs) s = run_server e evs (poll e ev s)"

definition controller_destroy :: "('a, 'p, 'q, 'u) env \<Rightarrow> controller \<Rightarrow> unit result \<times> controller" where
  "controller_destroy e c =
    (case settings_save (e_xml e) (ct_settings c) (ct_disk c) of (r, d) \<Rightarrow> (r, c\<lparr>ct_disk := d\<rparr>))"

end
