(* ===== verification/Registry_Correct.thy ===== *)
theory Registry_Correct
  imports Udp_Registry
begin

text \<open>
  Correctness of the library registry: every operation keeps its caches in agreement with the
  files, digests are those of the file the registry hands out, and what \<open>initialize_udp\<close>
  guarantees about the version that is loaded.
\<close>

section \<open>Deleting, reading, hashing\<close>

lemma use_mem_off: "reg_inv h r \<Longrightarrow> \<not> use_in_memory r \<Longrightarrow> lru_lookup (libFilesBuffer r) = (\<lambda>_. None)"
  by (auto simp: reg_inv_def)

lemma inv_notices: "reg_inv h r \<Longrightarrow> writes_noticed h"
  by (simp add: reg_inv_def)

lemma erase_buffer_inv:
  assumes "reg_inv h r"
  shows "reg_inv h (r\<lparr>libFilesBuffer := lru_erase p (libFilesBuffer r)\<rparr>)"
proof -
  have "lru_inv (libFilesBuffer r)" using assms by (simp add: reg_inv_def)
  then show ?thesis
    using assms lru.erase_spec [of "libFilesBuffer r" p]
    by (auto simp: reg_inv_def coherent_drop)
qed

lemma erase_hash_inv:
  "reg_inv h r \<Longrightarrow> reg_inv h (r\<lparr>reg_hashes := hash_cache_erase n (reg_hashes r)\<rparr>)"
  using hash_cache_erase_ok [of "reg_hashes r" n] by (auto simp: reg_inv_def coherent_drop)

lemma delete_inv:
  assumes "reg_inv h r" and "relative n" and "map_of (lib_loaders r) n = None"
  shows "reg_inv h (snd (delete_lib_file h n r))"
proof -
  let ?p = "get_lib_path h n r"
  define r1 where "r1 = (if use_in_memory r then r\<lparr>libFilesBuffer := lru_erase ?p (libFilesBuffer r)\<rparr> else r)"
  define r2 where "r2 = (if has_file n (reg_hashes r1)
    then r1\<lparr>reg_hashes := hash_cache_erase n (reg_hashes r1)\<rparr> else r1)"
  have inv1: "reg_inv h r1" using assms(1) by (simp add: r1_def erase_buffer_inv)
  then have inv2: "reg_inv h r2" by (simp add: r2_def erase_hash_inv)
  have lru: "lru_inv (libFilesBuffer r)" using assms(1) by (simp add: reg_inv_def)
  have b: "lru_lookup (libFilesBuffer r2) ?p = None"
    using lru.erase_spec [OF lru, of ?p] use_mem_off [OF assms(1)] by (simp add: r2_def r1_def fun_eq_iff)
  have hc: "hc_inv (reg_hashes r1)" using inv1 by (simp add: reg_inv_def)
  have hd: "hc_lookup (reg_hashes r2) n = None"
    using hash_cache_erase_ok [OF hc, of n] has_file_lookup [OF hc, of n] by (simp add: r2_def)
  have l: "map_of (lib_loaders r2) n = None" using assms(3) by (simp add: r2_def r1_def)
  have p: "get_lib_path h n r2 = ?p" by (rule get_lib_path_cong) (simp add: r2_def r1_def)
  have gone: "reg_inv h (r2\<lparr>files := (files r2)(?p := None)\<rparr>)"
    by (rule gone_file_inv [OF inv2 assms(2)]) (simp_all add: p l hd b)
  have "snd (delete_lib_file h n r) \<in> {r2, r2\<lparr>files := (files r2)(?p := None), dirs := removeAll ?p (dirs r2)\<rparr>}"
    unfolding delete_lib_file_def Let_def r1_def [symmetric]
    unfolding r2_def [symmetric]
    by (auto split: sum.splits bool.splits)
  then show ?thesis using inv2 gone by auto
qed

lemma delete_loaders [simp]: "lib_loaders (snd (delete_lib_file h n r)) = lib_loaders r"
  by (auto simp: delete_lib_file_def Let_def split: sum.splits bool.splits)

lemma delete_cache_dir [simp]: "local_cache (snd (delete_lib_file h n r)) = local_cache r"
  by (auto simp: delete_lib_file_def Let_def split: sum.splits bool.splits)

lemma delete_provider [simp]: "udp_provider (snd (delete_lib_file h n r)) = udp_provider r"
  by (auto simp: delete_lib_file_def Let_def split: sum.splits bool.splits)

lemma delete_gone:
  "fst (delete_lib_file h n r) = Inr () \<Longrightarrow>
   \<not> exists_path (get_lib_path h n r) (snd (delete_lib_file h n r))"
  by (auto simp: delete_lib_file_def Let_def exists_path_def split: sum.splits bool.splits if_splits)

text \<open>
  \<open>get_lib_as_file\<close> answers with the content the file has afterwards, and changes files only
  by storing what the provider delivered.
\<close>

text \<open>
  What an answer \<open>m\<close> of \<open>get_lib_as_file\<close> keeps, whichever way the file was found: by fetching it, in
  the buffer, or on disk.
\<close>

definition serves :: "('p, 'u) host \<Rightarrow> string \<Rightarrow> registry \<Rightarrow> bytes option result \<times> registry \<Rightarrow> bool" where
  "serves h n r m \<longleftrightarrow> reg_inv h (snd m)
     \<and> (\<forall>f. fst m = Inr (Some f) \<longrightarrow> files (snd m) (get_lib_path h n (snd m)) = Some f)
     \<and> local_cache (snd m) = local_cache r \<and> lib_loaders (snd m) = lib_loaders r
     \<and> udp_provider (snd m) = udp_provider r \<and> reg_hashes (snd m) = reg_hashes r"

lemma serves_nothing: "reg_inv h r \<Longrightarrow> (\<And>f. res \<noteq> Inr (Some f)) \<Longrightarrow> serves h n r (res, r)"
  by (simp add: serves_def)

lemma fetch_serves:
  assumes "reg_inv h r" and "\<not> is_lib_in_cache h n r"
  shows "serves h n r (get_lib_as_file h n r)"
proof (cases "\<exists>prov f. udp_provider r = Some prov \<and> prov n = Inr (Some f)")
  case True
  then obtain prov f where "udp_provider r = Some prov" "prov n = Inr (Some f)" by blast
  then have "get_lib_as_file h n r = and_then (save_lib_into_fs h n f r) (\<lambda>_ r. (Inr (Some f), r))"
    using assms(2) by (simp add: get_lib_as_file_def)
  then show ?thesis using save_inv [OF assms(1) not_in_cache [OF assms(2)], of f] inv_notices [OF assms(1)]
    by (cases h n f r rule: save_cases) (simp_all add: serves_def get_lib_path_def)
next
  case False
  then show ?thesis using assms
    by (auto simp: get_lib_as_file_def serves_nothing split: option.split sum.split)
qed

lemma buffer_serves:
  assumes inv: "reg_inv h r" and "is_lib_in_cache h n r"
    and mem: "use_in_memory r" "lru_contains (get_lib_path h n r) (libFilesBuffer r)"
  shows "serves h n r (get_lib_as_file h n r)"
proof -
  let ?p = "get_lib_path h n r" and ?b = "libFilesBuffer r"
  have lru: "lru_inv ?b" and coh: "coherent (\<lambda>p c. files r p = Some c) (lru_lookup ?b)"
    using inv by (simp_all add: reg_inv_def)
  obtain c where c: "lru_lookup ?b ?p = Some c" using mem(2) by (auto simp: lru.contains_lookup [OF lru])
  obtain b' where b': "lru_get ?p ?b = (Inr c, b')" "lru_inv b'" "lru_lookup b' = lru_lookup ?b"
    using lru.get_hit [OF lru c] lru.get_keeps [OF lru, of ?p] by (cases "lru_get ?p ?b") auto
  have "get_lib_as_file h n r = (Inr (Some c), r\<lparr>libFilesBuffer := b'\<rparr>)"
    using assms(2) mem b'(1) by (simp add: get_lib_as_file_def Let_def)
  moreover have "files r ?p = Some c" using coh c by (rule coherentD)
  ultimately show ?thesis using inv b'(2,3) mem(1) by (simp add: serves_def reg_inv_def get_lib_path_def)
qed

lemma disk_serves:
  assumes inv: "reg_inv h r" and "is_lib_in_cache h n r"
    and nomem: "\<not> (use_in_memory r \<and> lru_contains (get_lib_path h n r) (libFilesBuffer r))"
  shows "serves h n r (get_lib_as_file h n r)"
proof -
  let ?p = "get_lib_path h n r" and ?b = "libFilesBuffer r"
  have lru: "lru_inv ?b" and coh: "coherent (\<lambda>p c. files r p = Some c) (lru_lookup ?b)"
    using inv by (simp_all add: reg_inv_def)
  consider (unread) "get_lib_as_file h n r = (Inr None, r)"
    | (read) c where "files r ?p = Some c" "\<not> use_in_memory r" "get_lib_as_file h n r = (Inr (Some c), r)"
    | (kept) c b' where "files r ?p = Some c" "use_in_memory r" "lru_put ?p c ?b = (Inr (), b')" "lru_inv b'"
        "get_lib_as_file h n r = (Inr (Some c), r\<lparr>libFilesBuffer := b'\<rparr>)"
  proof (cases "can_read h ?p \<and> can_seek h ?p \<and> files r ?p \<noteq> None")
    case False
    then have "get_lib_as_file h n r = (Inr None, r)"
      using assms(2) nomem by (auto simp: get_lib_as_file_def Let_def)
    then show ?thesis by (rule that(1))
  next
    case True
    then obtain c where c: "files r ?p = Some c" by blast
    obtain b' where "lru_put ?p c ?b = (Inr (), b')" "lru_inv b'"
      using lru.put_succeeds [OF lru, of ?p c] by (cases "lru_put ?p c ?b") auto
    then show ?thesis
      using assms(2) nomem True c that(2,3) by (cases "use_in_memory r") (simp_all add: get_lib_as_file_def Let_def)
  qed
  then show ?thesis
  proof cases
    case kept
    have "coherent (\<lambda>p c. files r p = Some c) (lru_lookup b')"
      using lru.coherent_put [OF lru coh, of ?p c] kept(1,3) by simp
    then show ?thesis using inv kept by (simp add: serves_def reg_inv_def get_lib_path_def)
  qed (use inv in \<open>simp_all add: serves_def\<close>)
qed

lemma get_lib_as_file_ok:
  assumes "reg_inv h r"
  shows "reg_inv h (snd (get_lib_as_file h n r))
    \<and> (\<forall>f r'. get_lib_as_file h n r = (Inr (Some f), r') \<longrightarrow> files r' (get_lib_path h n r') = Some f)
    \<and> local_cache (snd (get_lib_as_file h n r)) = local_cache r
    \<and> lib_loaders (snd (get_lib_as_file h n r)) = lib_loaders r
    \<and> udp_provider (snd (get_lib_as_file h n r)) = udp_provider r
    \<and> reg_hashes (snd (get_lib_as_file h n r)) = reg_hashes r"
proof -
  have "serves h n r (get_lib_as_file h n r)"
    using fetch_serves [OF assms] buffer_serves [OF assms] disk_serves [OF assms] by blast
  then show ?thesis by (auto simp: serves_def)
qed

lemma hash_inv:
  assumes "reg_inv h r" and "hc_inv c" and "coherent (hash_fits h r) (hc_lookup c)"
  shows "reg_inv h (r\<lparr>reg_hashes := c\<rparr>)"
  using assms by (simp add: reg_inv_def)

text \<open>The digest of a file that has been read, looked up or computed.\<close>

lemma digest_of_ok:
  assumes hc: "hc_inv c" and coh: "coherent (hash_fits h r) (hc_lookup c)" and "relative n"
    and f: "files r (get_lib_path h n r) = Some f"
  shows "\<exists>c'. digest_of n f c = (Inr (Some (hex_digest f)), c') \<and> hc_inv c' \<and> coherent (hash_fits h r) (hc_lookup c')"
proof (cases "hc_lookup c n")
  case (Some d)
  then have "d = hex_digest f" using coherentD [OF coh Some] f by (simp add: hash_fits_def)
  moreover obtain c' where "get_file_hash n c = (Inr (Some d), c')" "hc_inv c'" "hc_lookup c' = hc_lookup c"
    using get_file_hash_ok [OF hc, of n] Some by auto
  ultimately show ?thesis using coh Some by (simp add: digest_of_def has_file_lookup [OF hc])
next
  case None
  obtain c' where c': "hash_file n f c = (Inr (hex_digest f), c')" "hc_inv c'" "hc_lookup c' n = Some (hex_digest f)"
      "\<forall>k. k \<noteq> n \<longrightarrow> hc_lookup c' k \<in> {None, hc_lookup c k}"
    using hash_file_ok [OF hc, of n f] by (auto simp: sha256_of_hex)
  have "coherent (hash_fits h r) (hc_lookup c')"
  proof (rule coherentI)
    fix k d assume k: "hc_lookup c' k = Some d"
    show "hash_fits h r k d"
    proof (cases "k = n")
      case True
      then show ?thesis using k c'(3) f assms(3) by (simp add: hash_fits_def)
    next
      case False
      then have "hc_lookup c k = Some d" using k c'(4) by force
      then show ?thesis by (rule coherentD [OF coh])
    qed
  qed
  then show ?thesis using c'(1,2) None by (simp add: digest_of_def has_file_lookup [OF hc])
qed

lemma get_lib_file_hash_ok:
  assumes "reg_inv h r" and "relative n"
  shows "reg_inv h (snd (get_lib_file_hash h n r))
    \<and> fst (get_lib_file_hash h n r) = map_sum id (map_option hex_digest) (fst (get_lib_as_file h n r))
    \<and> files (snd (get_lib_file_hash h n r)) = files (snd (get_lib_as_file h n r))
    \<and> local_cache (snd (get_lib_file_hash h n r)) = local_cache r
    \<and> lib_loaders (snd (get_lib_file_hash h n r)) = lib_loaders r
    \<and> udp_provider (snd (get_lib_file_hash h n r)) = udp_provider r"
proof -
  obtain res r1 where g: "get_lib_as_file h n r = (res, r1)" by fastforce
  from get_lib_as_file_ok [OF assms(1), of n] g
  have inv1: "reg_inv h r1" and content: "\<And>f. res = Inr (Some f) \<Longrightarrow> files r1 (get_lib_path h n r1) = Some f"
    and same: "local_cache r1 = local_cache r" "lib_loaders r1 = lib_loaders r" "udp_provider r1 = udp_provider r" by auto
  have hc: "hc_inv (reg_hashes r1)" and coh: "coherent (hash_fits h r1) (hc_lookup (reg_hashes r1))"
    using inv1 by (simp_all add: reg_inv_def)
  show ?thesis
  proof (cases "\<exists>f. res = Inr (Some f)")
    case True
    then obtain f where f: "res = Inr (Some f)" by blast
    obtain c' where c': "digest_of n f (reg_hashes r1) = (Inr (Some (hex_digest f)), c')" "hc_inv c'"
        "coherent (hash_fits h r1) (hc_lookup c')"
      using digest_of_ok [OF hc coh assms(2) content [OF f]] by blast
    have "get_lib_file_hash h n r = (Inr (Some (hex_digest f)), r1\<lparr>reg_hashes := c'\<rparr>)"
      using g f c'(1) by (simp add: get_lib_file_hash_def)
    then show ?thesis using hash_inv [OF inv1 c'(2,3)] g f same by simp
  next
    case False
    then show ?thesis using g inv1 same
      by (cases res) (auto simp: get_lib_file_hash_def split: option.split)
  qed
qed

section \<open>A registry without a provider\<close>

text \<open>
  The library as such a registry finds it in its directories, if the file can be read; what it keeps in
  memory was read before. Then it answers a request with this content and stays as it is, up to the
  buffer.
\<close>

definition stored_lib :: "('p, 'u) host \<Rightarrow> string \<Rightarrow> registry \<Rightarrow> bytes option" where
  "stored_lib h lib r =
    (let p = get_lib_path h lib r
     in if is_lib_in_cache h lib r \<and> can_read h p \<and> can_seek h p then files r p else None)"

definition local_registry :: "('p, 'u) host \<Rightarrow> registry \<Rightarrow> bool" where
  "local_registry h r \<longleftrightarrow> reg_inv h r \<and> udp_provider r = None
     \<and> coherent (\<lambda>p c. files r p = Some c \<and> can_read h p \<and> can_seek h p) (lru_lookup (libFilesBuffer r))"

lemma local_buffer:
  assumes "local_registry h r" and "use_in_memory r" and "lru_inv b"
    and "coherent (\<lambda>p c. files r p = Some c \<and> can_read h p \<and> can_seek h p) (lru_lookup b)"
  shows "local_registry h (r\<lparr>libFilesBuffer := b\<rparr>)"
  using assms by (auto simp: local_registry_def reg_inv_def coherent_def)

lemma local_buffer_hit:
  assumes loc: "local_registry h r" and "is_lib_in_cache h n r"
    and mem: "use_in_memory r" "lru_contains (get_lib_path h n r) (libFilesBuffer r)"
  shows "\<exists>b. get_lib_as_file h n r = (Inr (stored_lib h n r), r\<lparr>libFilesBuffer := b\<rparr>) \<and> local_registry h (r\<lparr>libFilesBuffer := b\<rparr>)"
proof -
  let ?p = "get_lib_path h n r" and ?b = "libFilesBuffer r"
  have lru: "lru_inv ?b" using loc by (simp add: local_registry_def reg_inv_def)
  obtain c where c: "lru_lookup ?b ?p = Some c" using mem(2) by (auto simp: lru.contains_lookup [OF lru])
  obtain b where b: "lru_get ?p ?b = (Inr c, b)" "lru_inv b" "lru_lookup b = lru_lookup ?b"
    using lru.get_hit [OF lru c] lru.get_keeps [OF lru, of ?p] by (cases "lru_get ?p ?b") auto
  have "files r ?p = Some c" "can_read h ?p" "can_seek h ?p"
    using loc c by (auto simp: local_registry_def dest: coherentD)
  then have "get_lib_as_file h n r = (Inr (stored_lib h n r), r\<lparr>libFilesBuffer := b\<rparr>)"
    using assms(2) mem b(1) by (simp add: get_lib_as_file_def stored_lib_def Let_def)
  moreover have "local_registry h (r\<lparr>libFilesBuffer := b\<rparr>)"
    by (rule local_buffer [OF loc mem(1) b(2)]) (use loc b(3) in \<open>simp add: local_registry_def\<close>)
  ultimately show ?thesis by blast
qed

lemma local_disk:
  assumes loc: "local_registry h r" and "is_lib_in_cache h n r"
    and nomem: "\<not> (use_in_memory r \<and> lru_contains (get_lib_path h n r) (libFilesBuffer r))"
  shows "\<exists>b. get_lib_as_file h n r = (Inr (stored_lib h n r), r\<lparr>libFilesBuffer := b\<rparr>) \<and> local_registry h (r\<lparr>libFilesBuffer := b\<rparr>)"
proof (cases "can_read h (get_lib_path h n r) \<and> can_seek h (get_lib_path h n r) \<and> files r (get_lib_path h n r) \<noteq> None
    \<and> use_in_memory r")
  case True
  let ?p = "get_lib_path h n r" and ?b = "libFilesBuffer r"
  have lru: "lru_inv ?b" using loc by (simp add: local_registry_def reg_inv_def)
  obtain c where c: "files r ?p = Some c" using True by blast
  obtain b where b: "lru_put ?p c ?b = (Inr (), b)" "lru_inv b"
    using lru.put_succeeds [OF lru, of ?p c] by (cases "lru_put ?p c ?b") auto
  have "coherent (\<lambda>p c. files r p = Some c \<and> can_read h p \<and> can_seek h p) (lru_lookup b)"
    using lru.coherent_put [OF lru, of _ ?p c] loc True c b(1) by (auto simp: local_registry_def)
  then have "local_registry h (r\<lparr>libFilesBuffer := b\<rparr>)" using local_buffer [OF loc _ b(2)] True by blast
  then show ?thesis using True nomem assms(2) c b(1) by (auto simp: get_lib_as_file_def stored_lib_def Let_def)
next
  case False
  then have "get_lib_as_file h n r = (Inr (stored_lib h n r), r)"
    using nomem assms(2) by (auto simp: get_lib_as_file_def stored_lib_def Let_def split: option.split)
  then show ?thesis using loc by (intro exI [of _ "libFilesBuffer r"]) simp
qed

lemma stored_lib_buffer [simp]: "stored_lib h m (r\<lparr>libFilesBuffer := b\<rparr>) = stored_lib h m r"
  by (simp add: stored_lib_def is_lib_in_cache_def get_lib_path_def exists_path_def Let_def)

lemma local_lib:
  assumes "local_registry h r"
  shows "\<exists>r'. get_lib_as_file h n r = (Inr (stored_lib h n r), r') \<and> local_registry h r'
    \<and> (\<forall>m. stored_lib h m r' = stored_lib h m r)"
proof (cases "is_lib_in_cache h n r")
  case True
  then show ?thesis
    using local_buffer_hit [OF assms True] local_disk [OF assms True] by (metis stored_lib_buffer)
next
  case False
  then have "get_lib_as_file h n r = (Inr (stored_lib h n r), r)"
    using assms by (simp add: get_lib_as_file_def stored_lib_def local_registry_def Let_def)
  then show ?thesis using assms by blast
qed

section \<open>Loading\<close>

lemma ensure_loaded_inv:
  assumes "missing_not_loaded h" and "reg_inv h r" and "relative n"
  shows "reg_inv h (snd (ensure_loaded what h n r))"
proof (cases "map_contains n (lib_loaders r) \<or> is_lib_in_cache h n r")
  case True
  then show ?thesis using assms load_inv by (auto simp: ensure_loaded_def Let_def)
next
  case False
  then have none: "files r (get_lib_path h n r) = None" by (simp add: not_in_cache)
  have fetched: "reg_inv h (snd (and_then (save_lib_into_fs h n f r) (\<lambda>_. load_lib h n)))" for f
    by (rule and_then_inv) (auto intro: save_inv [OF assms(2) none] load_inv [OF assms(1) _ assms(3)])
  show ?thesis
    using False assms(2) fetched by (auto simp: ensure_loaded_def Let_def split: option.splits sum.splits)
qed

lemma check_version_inv:
  assumes "reg_inv h r" and "relative n"
  shows "reg_inv h (snd (check_version h n v r))"
proof (cases v)
  case None
  then show ?thesis using assms by (simp add: check_version_def)
next
  case (Some wanted)
  have replace: "reg_inv h (snd (and_then (unload_lib h n s) (\<lambda>_. delete_lib_file h n)))" if "reg_inv h s" for s
  proof (cases "unload_lib h n s")
    case (Pair u t)
    then have "reg_inv h t" "u = Inr () \<Longrightarrow> map_of (lib_loaders t) n = None"
      using unload_inv [OF that, of n] by simp_all
    then show ?thesis using delete_inv [OF _ assms(2), of h t] by (cases u) (simp_all add: Pair)
  qed
  show ?thesis
    unfolding check_version_def Some option.case
  proof (rule and_then_inv)
    show "reg_inv h (snd (get_lib_file_hash h n r))" using get_lib_file_hash_ok [OF assms] by simp
    fix d s assume "reg_inv h s"
    then show "reg_inv h (snd (case d of
        None \<Rightarrow> (Inl (Runtime_error (''Error: cannot initialize udp: '' @ n @ '', this dynamic library was not found.'')), s)
      | Some d \<Rightarrow> if d \<noteq> wanted then and_then (unload_lib h n s) (\<lambda>_. delete_lib_file h n) else (Inr (), s)))"
      using replace by (cases d) simp_all
  qed
qed

lemma initialize_inv:
  assumes "missing_not_loaded h" and "reg_inv h r" and "relative n"
  shows "reg_inv h (snd (initialize_udp h n v r))"
  unfolding initialize_udp_def
  by (rule and_then_inv) (use assms check_version_inv ensure_loaded_inv in auto)





lemma provider_inv: "reg_inv h r \<Longrightarrow> reg_inv h (register_udp_provider f r)"
  by (simp add: reg_inv_def register_udp_provider_def)

lemma save_hashes [simp]: "reg_hashes (snd (save_lib_into_fs h n f r)) = reg_hashes r"
  by (cases h n f r rule: save_cases) simp_all

lemma get_lib_as_file_hashes: "reg_hashes (snd (get_lib_as_file h n r)) = reg_hashes r"
proof -
  have "reg_hashes (snd (and_then (save_lib_into_fs h n f r) (\<lambda>_ r. (Inr (Some f), r)))) = reg_hashes r" for f
    using save_hashes [of h n f r] by (cases h n f r rule: save_cases) simp_all
  then show ?thesis
    by (simp add: get_lib_as_file_def Let_def split: option.split sum.split prod.split)
qed

section \<open>The version that is loaded\<close>

lemma unload_same [simp]:
  "local_cache (snd (unload_lib h n r)) = local_cache r"
  "udp_provider (snd (unload_lib h n r)) = udp_provider r"
  by (auto simp: unload_lib_def split: option.splits sum.splits prod.splits)

lemma load_lib_loaded:
  assumes "missing_not_loaded h" and "reg_inv h r" and "relative n" and "load_lib h n r = (res, r')"
  shows "files r' = files r \<and> local_cache r' = local_cache r
    \<and> (\<exists>l. map_of (lib_loaders r') n = Some l \<and> pathToLib l = get_lib_path h n r
           \<and> ll_handle l = portable_dlopen (h_api h) (files r) (get_lib_path h n r))
    \<and> (res = Inr () \<longrightarrow> portable_dlopen (h_api h) (files r) (get_lib_path h n r) \<noteq> 0)"
proof -
  obtain l where l: "map_of (map_emplace n (lib_loader_new (get_lib_path h n r)) (lib_loaders r)) n = Some l"
      "loader_fits h r n l"
    using emplace_loader_inv [OF assms(2,3)] by blast
  then have "pathToLib (snd (open_lib (h_api h) (files r) l)) = get_lib_path h n r"
    by (simp add: loader_fits_def open_lib_def Let_def)
  moreover have "pathToLib l = get_lib_path h n r" using l(2) by (simp add: loader_fits_def)
  ultimately show ?thesis
    using assms(4) open_lib_ok [of "h_api h" "files r" l] by (auto simp: load_lib_eq [OF l(1)])
qed

text \<open>
  \<open>loaded_as h n c l r\<close>: the loader of \<open>n\<close> is registered for the path of \<open>n\<close>, whose file
  has the content \<open>c\<close>, and its handle (if it has one) was opened from this content.
\<close>

definition loaded_as :: "('p, 'u) host \<Rightarrow> string \<Rightarrow> bytes \<Rightarrow> lib_loader \<Rightarrow> registry \<Rightarrow> bool" where
  "loaded_as h n c l r \<longleftrightarrow>
     map_of (lib_loaders r) n = Some l \<and> files r (get_lib_path h n r) = Some c
     \<and> (ll_handle l = 0 \<or> ll_handle l = dl_open (h_api h) (get_lib_path h n r) (Some c))"

lemma inv_loaded_as:
  "reg_inv h r \<Longrightarrow> map_of (lib_loaders r) n = Some l \<Longrightarrow> files r (get_lib_path h n r) = Some c \<Longrightarrow>
   loaded_as h n c l r"
  by (auto simp: reg_inv_def loaded_as_def loader_fits_def dest: coherentD)

text \<open>With the file in place nothing is fetched and the file stays.\<close>

lemma ensure_loaded_present:
  assumes "missing_not_loaded h" and "reg_inv h r" and "relative n"
    and "files r (get_lib_path h n r) = Some c" and "ensure_loaded what h n r = (Inr (), r')"
  shows "\<exists>l. loaded_as h n c l r'"
proof (cases "map_contains n (lib_loaders r)")
  case True
  then obtain l where "map_of (lib_loaders r) n = Some l" by (auto simp: map_contains_iff)
  moreover have "r' = r" using True assms(5) by (simp add: ensure_loaded_def)
  ultimately show ?thesis using assms(2,4) inv_loaded_as by blast
next
  case False
  have "load_lib h n r = (Inr (), r')"
    using False assms(4,5) by (simp add: ensure_loaded_def is_lib_in_cache_def exists_path_def)
  from load_lib_loaded [OF assms(1,2,3) this] assms(4) show ?thesis
    by (auto simp: loaded_as_def get_lib_path_def portable_dlopen_def)
qed

text \<open>Without file and loader, it is the provider's file that is stored and loaded.\<close>

lemma ensure_loaded_fetch:
  assumes "missing_not_loaded h" and "reg_inv h r" and "relative n"
    and "\<not> is_lib_in_cache h n r" and "map_of (lib_loaders r) n = None"
    and "ensure_loaded what h n r = (Inr (), r')"
  shows "\<exists>prov c l. udp_provider r = Some prov \<and> prov n = Inr (Some c) \<and> loaded_as h n c l r' \<and> ll_handle l \<noteq> 0"
proof -
  obtain prov c where p: "udp_provider r = Some prov" "prov n = Inr (Some c)"
      "and_then (save_lib_into_fs h n c r) (\<lambda>_. load_lib h n) = (Inr (), r')"
    using assms(4,5,6)
    by (auto simp: ensure_loaded_def Let_def map_contains_iff split: option.splits sum.splits)
  then obtain s where s: "save_lib_into_fs h n c r = (Inr (), s)" "load_lib h n s = (Inr (), r')"
    by (auto simp: and_then_Inr)
  have inv: "reg_inv h s"
    using save_inv [OF assms(2) not_in_cache [OF assms(4)], of c] s(1) by simp
  from save_ok [OF s(1) inv_notices [OF assms(2)]] have f: "files s (get_lib_path h n s) = Some c"
    by (simp add: get_lib_path_def)
  from load_lib_loaded [OF assms(1) inv assms(3) s(2)] f have "\<exists>l. loaded_as h n c l r' \<and> ll_handle l \<noteq> 0"
    by (auto simp: loaded_as_def get_lib_path_def portable_dlopen_def)
  with p show ?thesis by blast
qed

lemma initialize_version:
  assumes "missing_not_loaded h" and "reg_inv h r" and "relative n"
    and "initialize_udp h n (Some d) r = (Inr (), r')"
  shows "\<exists>c l. loaded_as h n c l r' \<and>
    (hex_digest c = d \<or>
     (\<exists>prov. udp_provider r = Some prov \<and> prov n = Inr (Some c) \<and> ll_handle l \<noteq> 0))"
proof -
  obtain s where s: "check_version h n (Some d) r = (Inr (), s)" "ensure_loaded ''initialize'' h n s = (Inr (), r')"
    using assms(4) by (auto simp: initialize_udp_def and_then_Inr)
  have inv_s: "reg_inv h s" using check_version_inv [OF assms(2,3), of "Some d"] s(1) by simp
  obtain x t where t: "get_lib_file_hash h n r = (Inr (Some x), t)"
      "(if x \<noteq> d then and_then (unload_lib h n t) (\<lambda>_. delete_lib_file h n) else (Inr (), t)) = (Inr (), s)"
    using s(1) by (auto simp: check_version_def and_then_Inr split: option.splits)
  note hash = get_lib_file_hash_ok [OF assms(2,3)]
  show ?thesis
  proof (cases "x = d")
    case True
    then have "s = t" using t(2) by simp
    have "map_sum id (map_option hex_digest) (fst (get_lib_as_file h n r)) = Inr (Some d)"
      using hash t(1) True by simp
    then obtain c where "fst (get_lib_as_file h n r) = Inr (Some c)" "hex_digest c = d"
      by (cases "fst (get_lib_as_file h n r)") auto
    then obtain r1 where c: "get_lib_as_file h n r = (Inr (Some c), r1)" "hex_digest c = d"
      by (cases "get_lib_as_file h n r") simp
    then have "files s (get_lib_path h n s) = Some c"
      using get_lib_as_file_ok [OF assms(2), of n] hash t(1) \<open>s = t\<close> by (auto simp: get_lib_path_def)
    from ensure_loaded_present [OF assms(1) inv_s assms(3) this s(2)] c(2) show ?thesis by blast
  next
    case False
    have "reg_inv h t" using hash t(1) by simp
    obtain u where u: "unload_lib h n t = (Inr (), u)" "delete_lib_file h n u = (Inr (), s)"
      using t(2) False by (auto simp: and_then_Inr)
    have "map_of (lib_loaders u) n = None" using unload_inv(2) [OF \<open>reg_inv h t\<close>, of n] u(1) by simp
    then have l: "map_of (lib_loaders s) n = None" using delete_loaders [of h n u] u(2) by simp
    have "\<not> exists_path (get_lib_path h n u) s" using delete_gone [of h n u] u(2) by simp
    moreover have "get_lib_path h n u = get_lib_path h n s"
      using delete_cache_dir [of h n u] u(2) by (simp add: get_lib_path_def)
    ultimately have nc: "\<not> is_lib_in_cache h n s" by (simp add: is_lib_in_cache_def)
    have "udp_provider s = udp_provider r"
      using delete_provider [of h n u] unload_same(2) [of h n t] u t(1) hash by simp
    with ensure_loaded_fetch [OF assms(1) inv_s assms(3) nc l s(2)] show ?thesis by metis
  qed
qed

section \<open>The in-memory buffer alone\<close>

text \<open>
  The buffer is filed under paths, so it agrees with the files also when the cache directory
  changes while digests and loaders, which are filed under names, belong to the old one.
\<close>

definition buffer_ok :: "registry \<Rightarrow> bool" where
  "buffer_ok r \<longleftrightarrow> lru_inv (libFilesBuffer r) \<and> coherent (\<lambda>p c. files r p = Some c) (lru_lookup (libFilesBuffer r))
     \<and> (use_in_memory r \<or> lru_lookup (libFilesBuffer r) = (\<lambda>_. None))"

lemma buffer_frame [simp]:
  "buffer_ok (r\<lparr>lib_loaders := m\<rparr>) = buffer_ok r" "buffer_ok (r\<lparr>reg_hashes := c\<rparr>) = buffer_ok r"
  "buffer_ok (r\<lparr>hook_calls := w\<rparr>) = buffer_ok r" "buffer_ok (r\<lparr>local_cache := d\<rparr>) = buffer_ok r"
  "buffer_ok (r\<lparr>udp_provider := v\<rparr>) = buffer_ok r" "buffer_ok (r\<lparr>dirs := ds\<rparr>) = buffer_ok r"
  by (simp_all add: buffer_ok_def)



lemma buffer_loading [simp]:
  "buffer_ok (snd (load_lib h n r)) = buffer_ok r" "buffer_ok (snd (unload_lib h n r)) = buffer_ok r"
  by (auto simp: load_lib_def unload_lib_def Let_def split: option.split sum.split prod.split)
















section \<open>Runs\<close>

text \<open>Every public operation of the registry.\<close>

datatype ('p, 'u) reg_op =
    Initialize string "string option"
  | Construct string 'p
  | Clone "'u shared_obj"
  | File_of string
  | Hash_of string
  | Use_memory bool
  | Provider provider
  | Set_dir string




text \<open>A run in which the directory changes only while no digest and no loader is held, as at the start of the program.\<close>

fun dir_ok :: "('p, 'u) reg_op \<Rightarrow> registry \<Rightarrow> bool" where
  "dir_ok (Set_dir d) r \<longleftrightarrow> d = local_cache r \<or> (lib_loaders r = [] \<and> hc_lookup (reg_hashes r) = (\<lambda>_. None))"
| "dir_ok _ r \<longleftrightarrow> True"


lemma new_dir_ok [simp]: "dir_ok (Set_dir d) (registry_new fs ds)"
  using hash_cache_new_empty [of 50] by (simp add: registry_new_def)







section \<open>A concrete host\<close>

text \<open>
  A library whose first byte is \<open>0\<close> does not open; every other file opens with handle \<open>7\<close> and
  exports every symbol. Every file can be read, written and removed.
\<close>

definition demo_host :: "(nat, nat) host" where
  "demo_host = \<lparr>h_api = \<lparr>platform = Linux,
       dl_open = (\<lambda>p c. case c of Some (b # bs) \<Rightarrow> if b = 0 then 0 else 7 | _ \<Rightarrow> 0),
       dl_sym = (\<lambda>h s. if h = 0 then 0 else 11), dl_close = (\<lambda>h. 0), dl_error = Some ''bad ELF'',
       last_error = 0, call_alloc = (\<lambda>f p. Inr p), call_clone = (\<lambda>f u. Inr u)\<rparr>,
     can_read = (\<lambda>p. True), can_seek = (\<lambda>p. True), can_create = (\<lambda>p. True),
     written = (\<lambda>p c. length c), noticed = (\<lambda>p c. True), make_dir = (\<lambda>p. Inr ()), remove_file = (\<lambda>p. Inr True),
     lib_file_name_of = (\<lambda>u. ''p'')\<rparr>"

definition demo_registry :: "bytes \<Rightarrow> registry" where
  "demo_registry c = registry_new (\<lambda>q. if q = ''./p.so'' then Some c else None) [''.'']"

lemma demo_missing: "missing_not_loaded demo_host"
  by (simp add: missing_not_loaded_def demo_host_def)

lemma demo_path [simp]: "local_cache r = ''.'' \<Longrightarrow> get_lib_path demo_host ''p'' r = ''./p.so''"
  by (simp add: get_lib_path_def path_append_def demo_host_def portable_dll_extension_def)

lemma demo_notices: "writes_noticed demo_host"
  by (simp add: writes_noticed_def demo_host_def)

lemma demo_registry_inv: "reg_inv demo_host (demo_registry c)"
  by (simp add: demo_registry_def registry_new_inv demo_notices)

lemma demo_registry_local: "local_registry demo_host (demo_registry c)"
  by (simp add: local_registry_def demo_registry_inv) (simp add: demo_registry_def registry_new_def lru_new_def lru_abs_def coherent_def)

lemma demo_stored: "stored_lib demo_host ''p'' (demo_registry c) = Some c"
  by (simp add: stored_lib_def is_lib_in_cache_def demo_registry_def registry_new_def exists_path_def Let_def) (simp add: demo_host_def)

lemma demo_rel: "relative ''p''"
  by (simp add: relative_def)

lemma demo_file: "fst (get_lib_as_file demo_host ''p'' (demo_registry c)) = Inr (Some c)"
  by (simp add: get_lib_as_file_def demo_registry_def registry_new_def is_lib_in_cache_def
      exists_path_def lru_contains_def lru_new_def lru_put_def Let_def)
    (simp add: demo_host_def)

section \<open>Properties\<close>



text \<open>
  C19: the digest of a library is the digest of the file. Whether it comes from the hash cache
  or is computed, whether the file is on disk, in memory or fetched, \<open>get_lib_file_hash\<close>
  answers the SHA-256 of what \<open>get_lib_as_file\<close> hands out, nothing when that hands out
  nothing, and throws exactly when that throws.
\<close>

theorem hash_is_of_file:
  assumes "reg_inv h r" and "relative n"
  shows "fst (get_lib_file_hash h n r) = map_sum id (map_option hex_digest) (fst (get_lib_as_file h n r))"
  using get_lib_file_hash_ok [OF assms] by simp

theorem hash_is_of_file_witness:
  "fst (get_lib_file_hash demo_host ''p'' (demo_registry [1, 2])) = Inr (Some (hex_digest [1, 2]))"
  using hash_is_of_file [OF demo_registry_inv demo_rel, of "[1, 2]"] by (simp add: demo_file)

text \<open>
  C10: what \<open>initialize_udp\<close> guarantees when it returns. The library is registered for its
  path, the file at the path has some content \<open>c\<close>, an open handle was opened from \<open>c\<close>, and \<open>c\<close>
  has the digest that was asked for or is what the provider has just delivered: an outdated
  library is never kept.
\<close>

theorem initialize_replaces_outdated:
  assumes "missing_not_loaded h" and "reg_inv h r" and "relative n"
    and "initialize_udp h n (Some d) r = (Inr (), r')"
  shows "\<exists>c l. loaded_as h n c l r' \<and>
    (hex_digest c = d \<or>
     (\<exists>prov. udp_provider r = Some prov \<and> prov n = Inr (Some c) \<and> ll_handle l \<noteq> 0))"
  by (rule initialize_version [OF assms])

lemma demo_initialize:
  "fst (initialize_udp demo_host ''p'' (Some (hex_digest [1])) (demo_registry [1])) = Inr ()"
proof -
  let ?r = "demo_registry [1]"
  have f: "get_lib_file_hash demo_host ''p'' ?r
      = (Inr (Some (hex_digest [1])), snd (get_lib_file_hash demo_host ''p'' ?r))"
    using get_lib_file_hash_ok [OF demo_registry_inv demo_rel, of "[1]"] demo_file [of "[1]"]
    by (simp add: prod_eq_iff)
  have fl: "files (snd (get_lib_file_hash demo_host ''p'' ?r)) ''./p.so'' = Some [1]"
      "local_cache (snd (get_lib_file_hash demo_host ''p'' ?r)) = ''.''"
      "lib_loaders (snd (get_lib_file_hash demo_host ''p'' ?r)) = []"
    using get_lib_file_hash_ok [OF demo_registry_inv demo_rel, of "[1]"]
      get_lib_as_file_ok [of demo_host "demo_registry [1]" "''p''", OF demo_registry_inv] demo_file [of "[1]"]
    by (cases "get_lib_as_file demo_host ''p'' ?r"; simp add: demo_registry_def registry_new_def)+
  have "check_version demo_host ''p'' (Some (hex_digest [1])) ?r
      = (Inr (), snd (get_lib_file_hash demo_host ''p'' ?r))"
    unfolding check_version_def by (subst f) simp
  then show ?thesis
    using fl by (simp add: initialize_udp_def ensure_loaded_def is_lib_in_cache_def exists_path_def
        load_lib_def map_emplace_def map_at_def lib_loader_new_def open_lib_def portable_dlopen_def Let_def)
      (simp add: demo_host_def)
qed

theorem initialize_replaces_outdated_witness:
  "\<exists>c l r'. initialize_udp demo_host ''p'' (Some (hex_digest [1])) (demo_registry [1]) = (Inr (), r')
    \<and> loaded_as demo_host ''p'' c l r' \<and> hex_digest c = hex_digest [1]"
proof -
  obtain r' where r': "initialize_udp demo_host ''p'' (Some (hex_digest [1])) (demo_registry [1]) = (Inr (), r')"
    using demo_initialize by (metis prod.collapse)
  from initialize_replaces_outdated [OF demo_missing demo_registry_inv demo_rel this] r' show ?thesis
    by (auto simp: demo_registry_def registry_new_def)
qed

text \<open>
  C25: a library that does not open stays registered. The first \<open>initialize_udp\<close> of a file
  that \<open>dlopen\<close> refuses throws, but the loader it inserted beforehand remains, so the next call
  returns normally with no library loaded, and a \<open>construct_udp\<close> after it looks its symbols up
  in the null handle.
\<close>

theorem failed_open_sticks:
  assumes "\<not> map_contains n (lib_loaders r)" and "files r (get_lib_path h n r) = Some c"
    and "dl_open (h_api h) (get_lib_path h n r) (Some c) = 0"
  shows "fst (initialize_udp h n None r) = Inl (Runtime_error (error_msg (h_api h)))
    \<and> initialize_udp h n None (snd (initialize_udp h n None r)) = (Inr (), snd (initialize_udp h n None r))
    \<and> (\<exists>l. map_of (lib_loaders (snd (initialize_udp h n None r))) n = Some l \<and> ll_handle l = 0)"
proof -
  have l: "map_of (map_emplace n (lib_loader_new (get_lib_path h n r)) (lib_loaders r)) n
      = Some (lib_loader_new (get_lib_path h n r))"
    using assms(1) by simp
  have "open_lib (h_api h) (files r) (lib_loader_new (get_lib_path h n r))
      = (Inl (Runtime_error (error_msg (h_api h))), lib_loader_new (get_lib_path h n r))"
    using assms(2,3) by (simp add: open_lib_def portable_dlopen_def lib_loader_new_def Let_def)
  then have first: "initialize_udp h n None r = (Inl (Runtime_error (error_msg (h_api h))),
      r\<lparr>lib_loaders := map_assign n (lib_loader_new (get_lib_path h n r))
          (map_emplace n (lib_loader_new (get_lib_path h n r)) (lib_loaders r))\<rparr>)"
    using assms(1,2)
    by (simp add: initialize_udp_def check_version_def ensure_loaded_def is_lib_in_cache_def
        exists_path_def load_lib_eq [OF l])
  have "initialize_udp h n None s = (Inr (), s)" if "map_contains n (lib_loaders s)" for s
    using that by (simp add: initialize_udp_def check_version_def ensure_loaded_def)
  then show ?thesis by (simp add: first) (simp add: lib_loader_new_def)
qed

theorem failed_open_sticks_witness:
  "fst (initialize_udp demo_host ''p'' None (demo_registry [0])) = Inl (Runtime_error ''bad ELF'')
   \<and> fst (initialize_udp demo_host ''p'' None (snd (initialize_udp demo_host ''p'' None (demo_registry [0])))) = Inr ()"
proof -
  have "error_msg (h_api demo_host) = ''bad ELF''" by (simp add: error_msg_def demo_host_def)
  moreover have "dl_open (h_api demo_host) ''./p.so'' (Some [0]) = 0" by (simp add: demo_host_def)
  ultimately show ?thesis
    using failed_open_sticks [of "''p''" "demo_registry [0]" demo_host "[0]"]
    by (simp add: demo_registry_def registry_new_def)
qed

text \<open>
  The hash cache does not follow a change of directory. Digests are filed under the
  library name alone, so after \<open>set_local_cache_dir\<close> the digest of the file in the old
  directory is answered for the file in the new one, whatever that contains.
\<close>

theorem hash_survives_directory_change:
  assumes "hc_inv (reg_hashes r)" and "hc_lookup (reg_hashes r) n = Some d"
    and "fst (get_lib_as_file h n (set_local_cache_dir dir r)) = Inr (Some c)"
  shows "fst (get_lib_file_hash h n (set_local_cache_dir dir r)) = Inr (Some d)"
proof -
  have "reg_hashes (snd (get_lib_as_file h n (set_local_cache_dir dir r))) = reg_hashes r"
    by (simp add: get_lib_as_file_hashes) (simp add: set_local_cache_dir_def)
  then show ?thesis
    using get_file_hash_ok [OF assms(1), of n] assms(2,3)
    by (cases "get_lib_as_file h n (set_local_cache_dir dir r)")
      (auto simp: get_lib_file_hash_def digest_of_def has_file_lookup [OF assms(1)])
qed

text \<open>Two directories with different versions of the library; the first one was hashed.\<close>

definition two_dirs :: registry where
  "two_dirs = registry_new (\<lambda>q. if q = ''./p.so'' then Some [1] else if q = ''new/p.so'' then Some [2] else None)
     [''.'', ''new'']"

theorem hash_survives_directory_change_witness:
  "fst (get_lib_file_hash demo_host ''p'' (set_local_cache_dir ''new''
      (two_dirs\<lparr>reg_hashes := snd (hash_file ''p'' [1] (hash_cache_new 50))\<rparr>)))
   = Inr (Some (hex_digest [1]))"
proof -
  let ?r = "two_dirs\<lparr>reg_hashes := snd (hash_file ''p'' [1] (hash_cache_new 50))\<rparr>"
  have c: "hc_inv (reg_hashes ?r) \<and> hc_lookup (reg_hashes ?r) ''p'' = Some (hex_digest [1])"
    using hash_file_ok [OF hash_cache_new_inv, of 50 "''p''" "[1]"] by (auto simp: sha256_of_hex)
  have "get_lib_path demo_host ''p'' (set_local_cache_dir ''new'' ?r) = ''new/p.so''"
    by (simp add: set_local_cache_dir_def get_lib_path_def path_append_def demo_host_def
        portable_dll_extension_def)
  then have "fst (get_lib_as_file demo_host ''p'' (set_local_cache_dir ''new'' ?r)) = Inr (Some [2])"
    by (simp add: get_lib_as_file_def is_lib_in_cache_def exists_path_def set_local_cache_dir_def
        two_dirs_def registry_new_def lru_contains_def lru_new_def lru_put_def Let_def)
      (simp add: demo_host_def)
  with c show ?thesis by (intro hash_survives_directory_change) blast+
qed

section \<open>The digest is looked up outside of the lock\<close>

lemma load_hashes [simp]: "reg_hashes (snd (load_lib h n r)) = reg_hashes r"
  by (simp add: load_lib_def Let_def split: sum.split prod.split)

lemma unload_hashes [simp]: "reg_hashes (snd (unload_lib h n r)) = reg_hashes r"
  by (simp add: unload_lib_def split: option.split sum.split prod.split)

lemma ensure_loaded_hashes: "reg_hashes (snd (ensure_loaded what h n r)) = reg_hashes r"
proof -
  have "reg_hashes (snd (and_then (save_lib_into_fs h n f r) (\<lambda>_. load_lib h n))) = reg_hashes r" for f
    by (rule and_then_inv) (simp_all add: save_hashes)
  then show ?thesis by (simp add: ensure_loaded_def Let_def split: option.split sum.split)
qed

lemma delete_hash: "hc_inv (reg_hashes r) \<Longrightarrow> hc_lookup (reg_hashes (snd (delete_lib_file h n r))) n = None"
  using hash_cache_erase_ok [of "reg_hashes r" n] has_file_lookup [of "reg_hashes r" n]
  by (auto simp: delete_lib_file_def Let_def split: sum.splits bool.splits)

lemma replaced_has_no_digest:
  assumes "reg_inv h r" and "relative n" and "initialize_udp h n (Some d) r = (Inr (), r')"
    and "fst (get_lib_file_hash h n r) = Inr (Some d0)" and "d0 \<noteq> d"
  shows "hc_lookup (reg_hashes r') n = None"
proof -
  obtain s where s: "get_lib_file_hash h n r = (Inr (Some d0), s)" using assms(4) by (metis prod.collapse)
  then have "reg_inv h s" using get_lib_file_hash_ok [OF assms(1,2)] by simp
  then have hc: "hc_inv (reg_hashes s)" by (simp add: reg_inv_def)
  obtain t u where t: "unload_lib h n s = (Inr (), t)" "delete_lib_file h n t = (Inr (), u)"
      "ensure_loaded ''initialize'' h n u = (Inr (), r')"
    using assms(3,5) s by (auto simp: initialize_udp_def check_version_def and_then_Inr)
  have "reg_hashes t = reg_hashes s" using unload_hashes [of h n s] t(1) by simp
  then have "hc_lookup (reg_hashes u) n = None" using delete_hash [of t h n] hc t(2) by simp
  then show ?thesis using ensure_loaded_hashes [of "''initialize''" h n u] t(3) by simp
qed

text \<open>
  C26: the digest is looked up outside of the lock. Of two threads the first has read the file for its
  digest; the second finds the library outdated and replaces it; then the first one files the digest
  of what it has read. From then on the digest of the old file is answered for the new one, so that
  the right version is taken for outdated the next time.
\<close>

theorem late_digest_is_stale:
  assumes "missing_not_loaded h" and "reg_inv h r" and "relative n" and "get_lib_as_file h n r = (Inr (Some old), r1)"
    and "fst (get_lib_file_hash h n r1) = Inr (Some (hex_digest old))" and "d \<noteq> hex_digest old"
    and "initialize_udp h n (Some d) r1 = (Inr (), r2)"
    and "digest_of n old (reg_hashes r2) = (res, c)" and "fst (get_lib_as_file h n (r2\<lparr>reg_hashes := c\<rparr>)) = Inr (Some new)"
  shows "res = Inr (Some (hex_digest old)) \<and> fst (get_lib_file_hash h n (r2\<lparr>reg_hashes := c\<rparr>)) = Inr (Some (hex_digest old))"
proof -
  have inv: "reg_inv h r1" using get_lib_as_file_ok [OF assms(2), of n] assms(4) by simp
  have hc: "hc_inv (reg_hashes r2)" using initialize_inv [OF assms(1) inv assms(3), of "Some d"] assms(7) by (simp add: reg_inv_def)
  have "hc_lookup (reg_hashes r2) n = None"
    by (rule replaced_has_no_digest [OF inv assms(3,7,5)]) (use assms(6) in simp)
  then have c: "res = Inr (Some (hex_digest old))" "hc_inv c" "hc_lookup c n = Some (hex_digest old)"
    using hash_file_ok [OF hc, of n old] assms(8) by (auto simp: digest_of_def has_file_lookup [OF hc] sha256_of_hex)
  obtain r3 where r3: "get_lib_as_file h n (r2\<lparr>reg_hashes := c\<rparr>) = (Inr (Some new), r3)"
    using assms(9) by (metis prod.collapse)
  then have "reg_hashes r3 = c" using get_lib_as_file_hashes [of h n "r2\<lparr>reg_hashes := c\<rparr>"] by simp
  then have "fst (get_lib_file_hash h n (r2\<lparr>reg_hashes := c\<rparr>)) = Inr (Some (hex_digest old))"
    using r3 get_file_hash_ok [OF c(2), of n] c(2,3) by (auto simp: get_lib_file_hash_def digest_of_def has_file_lookup)
  then show ?thesis using c(1) by simp
qed

text \<open>A provider that has a newer version than the file in the directory.\<close>

definition late_registry :: registry where
  "late_registry = register_udp_provider (\<lambda>_. Inr (Some [2])) (demo_registry [1])"

abbreviation late_read :: "bytes option result \<times> registry" where
  "late_read \<equiv> get_lib_as_file demo_host ''p'' late_registry"

abbreviation late_replaced :: "unit result \<times> registry" where
  "late_replaced \<equiv> initialize_udp demo_host ''p'' (Some ''abc'') (snd late_read)"

lemmas registry_steps = initialize_udp_def check_version_def get_lib_file_hash_def digest_of_def ensure_loaded_def
  get_lib_as_file_def unload_lib_def delete_lib_file_def save_lib_into_fs_def load_lib_def open_lib_def portable_dlopen_def
  lib_loader_new_def has_file_def hash_file_def get_file_hash_def hash_cache_erase_def hash_cache_new_def
  is_lib_in_cache_def exists_path_def register_udp_provider_def demo_registry_def registry_new_def

lemmas cache_steps = lru_contains_def lru_new_def lru_put_def lru_get_def lru_erase_def splice_front_def erase_node_def
  map_emplace_def map_at_def map_assign_def map_erase_def map_contains_def

lemma demo_host_simps:
  "can_read demo_host p" "can_seek demo_host p" "can_create demo_host p" "written demo_host p f = length f"
  "make_dir demo_host p = Inr ()" "remove_file demo_host p = Inr True"
  "dl_open (h_api demo_host) p c = (case c of Some (b # bs) \<Rightarrow> if b = 0 then 0 else 7 | _ \<Rightarrow> 0)"
  by (simp_all add: demo_host_def)

lemma late_steps:
  "fst late_read = Inr (Some [1])"
  "fst (get_lib_file_hash demo_host ''p'' (snd late_read)) = Inr (Some (hex_digest [1]))"
  by (simp_all add: late_registry_def registry_steps cache_steps demo_host_simps Let_def sha256_of_hex)

lemma abc_no_digest: "hex_digest f \<noteq> ''abc''"
  using length_hex_digest [of f] by auto

lemma late_replacement:
  "fst late_replaced = Inr ()" "files (snd late_replaced) ''./p.so'' = Some [2]"
  "fst (get_lib_as_file demo_host ''p'' ((snd late_replaced)\<lparr>reg_hashes := c\<rparr>)) = Inr (Some [2])"
  by (simp_all add: late_registry_def registry_steps cache_steps demo_host_simps Let_def sha256_of_hex abc_no_digest)

theorem late_digest_is_stale_witness:
  "\<exists>c. digest_of ''p'' [1] (reg_hashes (snd late_replaced)) = (Inr (Some (hex_digest [1])), c)
    \<and> files (snd late_replaced) ''./p.so'' = Some [2]
    \<and> fst (get_lib_file_hash demo_host ''p'' ((snd late_replaced)\<lparr>reg_hashes := c\<rparr>)) = Inr (Some (hex_digest [1]))"
proof -
  obtain res c where d: "digest_of ''p'' [1] (reg_hashes (snd late_replaced)) = (res, c)" by fastforce
  have inv: "reg_inv demo_host late_registry" by (simp add: late_registry_def provider_inv demo_registry_inv)
  have "late_read = (Inr (Some [1]), snd late_read)" "late_replaced = (Inr (), snd late_replaced)"
    using late_steps(1) late_replacement(1) by (metis prod.collapse)+
  from late_digest_is_stale [OF demo_missing inv demo_rel this(1) late_steps(2) abc_no_digest [symmetric] this(2) d late_replacement(3)]
  show ?thesis using d late_replacement(2) by simp
qed

section \<open>A write that fails late\<close>

text \<open>
  The stream is checked before it is closed. What it still holds then is lost without a word when
  the disk is full: the answer is the whole file, while a part of it is stored, to be loaded
  the next time.
\<close>

theorem late_failure_unnoticed:
  assumes "\<not> is_lib_in_cache h n r" and "udp_provider r = Some prov" and "prov n = Inr (Some f)"
    and "exists_path (local_cache r) r" and "can_create h (get_lib_path h n r)"
    and "written h (get_lib_path h n r) f < length f" and "\<not> noticed h (get_lib_path h n r) f"
  shows "\<exists>r' part. get_lib_as_file h n r = (Inr (Some f), r') \<and> files r' (get_lib_path h n r) = Some part \<and> length part < length f"
  using assms by (simp add: get_lib_as_file_def save_lib_into_fs_def Let_def)

end
