(* ===== verification/Machine.thy ===== *)
theory Machine
  imports Prelude
begin

text \<open>
  Machines that handle one event after the other: the server thread of the controller, a process of
  a worker, and their compositions. \<open>machine\<close> is what every part promises of its steps: under the
  protocol \<open>ok\<close> a step keeps the invariant. What follows for runs is proved once.
\<close>

fun runs :: "('e \<Rightarrow> 's \<Rightarrow> 's) \<Rightarrow> 'e list \<Rightarrow> 's \<Rightarrow> 's" where
  "runs step [] s = s"
| "runs step (ev # evs) s = runs step evs (step ev s)"

text \<open>Every event of the run keeps to the protocol when it happens.\<close>

fun orderly :: "('e \<Rightarrow> 's \<Rightarrow> 's) \<Rightarrow> ('e \<Rightarrow> 's \<Rightarrow> bool) \<Rightarrow> 'e list \<Rightarrow> 's \<Rightarrow> bool" where
  "orderly step ok [] s \<longleftrightarrow> True"
| "orderly step ok (ev # evs) s \<longleftrightarrow> ok ev s \<and> orderly step ok evs (step ev s)"

lemma runs_append [simp]: "runs step (xs @ ys) s = runs step ys (runs step xs s)"
  by (induction xs arbitrary: s) simp_all

lemma orderly_append [simp]:
  "orderly step ok (xs @ ys) s \<longleftrightarrow> orderly step ok xs s \<and> orderly step ok ys (runs step xs s)"
  by (induction xs arbitrary: s) auto

locale machine =
  fixes step :: "'e \<Rightarrow> 's \<Rightarrow> 's"
    and ok :: "'e \<Rightarrow> 's \<Rightarrow> bool"
    and inv :: "'s \<Rightarrow> bool"
  assumes step_inv: "inv s \<Longrightarrow> ok ev s \<Longrightarrow> inv (step ev s)"
begin

lemma runs_inv: "inv s \<Longrightarrow> orderly step ok evs s \<Longrightarrow> inv (runs step evs s)"
  by (induction evs arbitrary: s) (simp_all add: step_inv)

end

text \<open>
  Parts that run side by side, and that come and go: \<open>parts t\<close> are those that are there. What the whole
  does is for each part that stays a run of its own (\<open>seen\<close>), which keeps to the part's protocol as
  long as the other parts do their share; a new part comes in order. \<open>common\<close> is an invariant of what the
  parts share. Then the whole keeps it, and the invariants of all parts.
\<close>

locale composed =
  fixes step :: "'i \<Rightarrow> 'e \<Rightarrow> 's \<Rightarrow> 's"
    and ok :: "'i \<Rightarrow> 'e \<Rightarrow> 's \<Rightarrow> bool"
    and inv :: "'i \<Rightarrow> 's \<Rightarrow> bool"
    and Step :: "'f \<Rightarrow> 't \<Rightarrow> 't"
    and Ok :: "'f \<Rightarrow> 't \<Rightarrow> bool"
    and parts :: "'t \<Rightarrow> 'i set"
    and project :: "'i \<Rightarrow> 't \<Rightarrow> 's"
    and seen :: "'i \<Rightarrow> 'f \<Rightarrow> 't \<Rightarrow> 'e list"
    and common :: "'t \<Rightarrow> bool"
  assumes part: "machine (step i) (ok i) (inv i)"
    and simulates: "Ok ev t \<Longrightarrow> i \<in> parts t \<Longrightarrow> i \<in> parts (Step ev t)
      \<Longrightarrow> project i (Step ev t) = runs (step i) (seen i ev t) (project i t)"
    and orderly_seen: "Ok ev t \<Longrightarrow> common t \<Longrightarrow> \<forall>j \<in> parts t. inv j (project j t) \<Longrightarrow> i \<in> parts t \<Longrightarrow> i \<in> parts (Step ev t)
      \<Longrightarrow> orderly (step i) (ok i) (seen i ev t) (project i t)"
    and enters: "Ok ev t \<Longrightarrow> common t \<Longrightarrow> i \<notin> parts t \<Longrightarrow> i \<in> parts (Step ev t) \<Longrightarrow> inv i (project i (Step ev t))"
    and shared: "Ok ev t \<Longrightarrow> common t \<Longrightarrow> \<forall>j \<in> parts t. inv j (project j t) \<Longrightarrow> common (Step ev t)"
begin

sublocale whole: machine Step Ok "\<lambda>t. common t \<and> (\<forall>i \<in> parts t. inv i (project i t))"
proof unfold_locales
  fix t ev assume t: "common t \<and> (\<forall>i \<in> parts t. inv i (project i t))" "Ok ev t"
  show "common (Step ev t) \<and> (\<forall>i \<in> parts (Step ev t). inv i (project i (Step ev t)))"
  proof (intro conjI ballI)
    show "common (Step ev t)" using t shared by blast
    fix i assume i: "i \<in> parts (Step ev t)"
    show "inv i (project i (Step ev t))"
    proof (cases "i \<in> parts t")
      case True
      then show ?thesis
        using t i machine.runs_inv [OF part, of i "project i t" "seen i ev t"] by (simp add: simulates orderly_seen)
    next
      case False
      then show ?thesis using t i enters by blast
    qed
  qed
qed

lemma part_of_run:
  "common t \<Longrightarrow> \<forall>i \<in> parts t. inv i (project i t) \<Longrightarrow> orderly Step Ok evs t \<Longrightarrow> i \<in> parts (runs Step evs t)
   \<Longrightarrow> inv i (project i (runs Step evs t))"
  using whole.runs_inv by blast

end

end
