(* ===== verification/Controller_Correct.thy ===== *)
theory Controller_Correct
  imports Controller Registry_Correct Machine "HOL-Library.Multiset"
begin

text \<open>
  Correctness of the controller: who is free, who is busy with what, and that no work of an
  island is lost. The data structures are analysed first without the surrounding state; then
  every handler is shown to keep the invariant under the protocol, and what it does to the
  outstanding work. The last section has the two situations outside the protocol that break it.
\<close>

section \<open>The three containers\<close>

type_synonym waiting = "(string, bytes) umap"
type_synonym allocation = "(string, work_allocation_record) umap"

definition islands_of :: "waiting \<Rightarrow> allocation \<Rightarrow> string list" where
  "islands_of wt al = map fst wt @ map (islandId \<circ> snd) al"

definition jobs :: "waiting \<Rightarrow> allocation \<Rightarrow> (string \<times> bytes) multiset" where
  "jobs wt al = mset wt + mset (map (\<lambda>(w, r). (islandId r, workData r)) al)"

text \<open>
  Nobody is free and busy, nobody is busy twice, no island is outstanding twice, and everybody
  is known (\<open>K\<close> are the workers with a record).
\<close>

definition sched_ok :: "string list \<Rightarrow> waiting \<Rightarrow> allocation \<Rightarrow> string set \<Rightarrow> bool" where
  "sched_ok fr wt al K \<longleftrightarrow>
     distinct fr \<and> keys_distinct al \<and> distinct (islands_of wt al)
     \<and> set fr \<inter> fst ` set al = {} \<and> set fr \<union> fst ` set al \<subseteq> K"

lemma fst_erase [simp]: "fst ` set (map_erase k m) = fst ` set m - {k}"
  by (force simp: map_erase_def)

lemma erase_split:
  assumes "keys_distinct m" and "map_of m k = Some v"
  shows "mset m = add_mset (k, v) (mset (map_erase k m))"
  using assms
proof (induction m)
  case (Cons e m)
  show ?case
  proof (cases "fst e = k")
    case True
    with Cons.prems have "e = (k, v)" "k \<notin> fst ` set m" by (cases e; force)+
    then have "map_erase k m = m" by (auto simp: map_erase_def filter_id_conv)
    with \<open>e = (k, v)\<close> show ?thesis by (simp add: map_erase_def)
  next
    case False
    with Cons show ?thesis by (cases e) (simp add: map_erase_def)
  qed
qed simp

lemma islands_jobs: "mset (islands_of wt al) = image_mset fst (jobs wt al)"
  by (simp add: islands_of_def jobs_def multiset.map_comp comp_def case_prod_beta mset_map [symmetric] del: mset_map)

lemma islands_distinct: "distinct (islands_of wt al) \<longleftrightarrow> (\<forall>i. count (image_mset fst (jobs wt al)) i \<le> 1)"
  unfolding islands_jobs [symmetric]
  by (simp add: distinct_count_atmost_1 count_mset_0_iff)
    (metis One_nat_def count_mset_0_iff le_SucE le_zero_eq zero_le_one order_refl)

lemma jobs_waiting [simp]: "jobs ((i, d) # wt) al = add_mset (i, d) (jobs wt al)"
  by (simp add: jobs_def)

lemma jobs_assigned [simp]:
  "jobs wt ((w, r) # al) = add_mset (islandId r, workData r) (jobs wt al)"
  by (simp add: jobs_def)

lemma jobs_pop:
  assumes "distinct (islands_of wt al)" and "(i, d) \<in> set wt"
  shows "jobs wt al = add_mset (i, d) (jobs (map_erase i wt) al)"
proof -
  have "keys_distinct wt" using assms(1) by (simp add: islands_of_def)
  then have "mset wt = add_mset (i, d) (mset (map_erase i wt))"
    using assms(2) by (simp add: erase_split)
  then show ?thesis by (simp add: jobs_def)
qed

lemma jobs_done:
  assumes "keys_distinct al" and "map_of al w = Some r"
  shows "jobs wt al = add_mset (islandId r, workData r) (jobs wt (map_erase w al))"
proof -
  have "mset al = add_mset (w, r) (mset (map_erase w al))" using assms by (rule erase_split)
  then show ?thesis by (simp add: jobs_def)
qed

text \<open>The moves of the scheduler.\<close>

lemma jobs_less_distinct:
  "distinct (islands_of wt al) \<Longrightarrow> jobs wt al = add_mset x (jobs wt' al') \<Longrightarrow>
   distinct (islands_of wt' al') \<and> fst x \<notin> set (islands_of wt' al')"
proof -
  assume d: "distinct (islands_of wt al)" and j: "jobs wt al = add_mset x (jobs wt' al')"
  have "mset (islands_of wt al) = mset (fst x # islands_of wt' al')"
    using j by (simp add: islands_jobs)
  then have "distinct (fst x # islands_of wt' al')" using d mset_eq_imp_distinct_iff by blast
  then show ?thesis by simp
qed

lemma jobs_more_distinct:
  "distinct (islands_of wt al) \<Longrightarrow> fst x \<notin> set (islands_of wt al) \<Longrightarrow>
   jobs wt' al' = add_mset x (jobs wt al) \<Longrightarrow> distinct (islands_of wt' al')"
proof -
  assume d: "distinct (islands_of wt al)" "fst x \<notin> set (islands_of wt al)"
    and j: "jobs wt' al' = add_mset x (jobs wt al)"
  have "mset (islands_of wt' al') = mset (fst x # islands_of wt al)"
    using j by (simp add: islands_jobs)
  moreover have "distinct (fst x # islands_of wt al)" using d by simp
  ultimately show ?thesis using mset_eq_imp_distinct_iff by blast
qed

lemma sched_free:
  "sched_ok fr wt al K \<Longrightarrow> w \<notin> fst ` set al \<Longrightarrow> sched_ok (set_emplace w fr) wt al (insert w K)"
  by (auto simp: sched_ok_def)

lemma sched_known: "sched_ok fr wt al K \<Longrightarrow> K \<subseteq> K' \<Longrightarrow> sched_ok fr wt al K'"
  by (auto simp: sched_ok_def)

lemma sched_drop: "sched_ok fr wt al K \<Longrightarrow> sched_ok (set_erase w fr) wt al K"
  by (auto simp: sched_ok_def)

lemma sched_pop:
  assumes "sched_ok fr wt al K" and "(i, d) \<in> set wt"
  shows "sched_ok fr (map_erase i wt) al K \<and> i \<notin> set (islands_of (map_erase i wt) al)"
  using assms jobs_less_distinct [OF _ jobs_pop [OF _ assms(2)]] by (simp add: sched_ok_def)

lemma sched_done:
  assumes "sched_ok fr wt al K" and "map_of al w = Some r"
  shows "sched_ok fr wt (map_erase w al) K \<and> islandId r \<notin> set (islands_of wt (map_erase w al))"
  using assms jobs_less_distinct [OF _ jobs_done [OF _ assms(2)], of wt]
  by (auto simp: sched_ok_def)

lemma sched_wait:
  assumes "sched_ok fr wt al K" and "i \<notin> set (islands_of wt al)"
  shows "sched_ok fr ((i, d) # wt) al K"
  using assms jobs_more_distinct [of wt al "(i, d)" "(i, d) # wt" al] by (simp add: sched_ok_def)

lemma sched_assign:
  assumes "sched_ok fr wt al K" and "i \<notin> set (islands_of wt al)" and "w \<in> set fr"
  shows "sched_ok (set_erase w fr) wt ((w, \<lparr>islandId = i, workData = d\<rparr>) # al) K"
  using assms jobs_more_distinct [of wt al "(i, d)" wt "(w, \<lparr>islandId = i, workData = d\<rparr>) # al"]
  by (auto simp: sched_ok_def)

section \<open>The state around them\<close>

text \<open>Replacing the repository and saving the settings, as \<open>with_repo\<close> does when it can.\<close>

definition set_repo :: "('a, 'p, 'q, 'u) env \<Rightarrow> worker_repo \<Rightarrow> controller \<Rightarrow> controller" where
  "set_repo e r c = c\<lparr>ct_disk := snd (settings_call (e_xml e) (ct_settings c) (ct_disk c)),
     ct_settings := (ct_settings c)\<lparr>st_value := (st_value (ct_settings c))\<lparr>workerInfo := r\<rparr>\<rparr>\<rparr>"

definition can_save :: "controller \<Rightarrow> bool" where
  "can_save c = d_writable (ct_disk c) (settingsPath (ct_settings c))"

lemma set_repo_fields [simp]:
  "repo (set_repo e r c) = r"
  "freeWorkersPool (set_repo e r c) = freeWorkersPool c"
  "islandsWaitingForAlloc (set_repo e r c) = islandsWaitingForAlloc c"
  "workAllocationMap (set_repo e r c) = workAllocationMap c"
  "toWorkers (set_repo e r c) = toWorkers c"
  "toIslands (set_repo e r c) = toIslands c"
  "ct_registry (set_repo e r c) = ct_registry c"
  by (simp_all add: set_repo_def)

lemma set_repo_can_save [simp]: "can_save (set_repo e r c) = can_save c"
  by (simp add: can_save_def set_repo_def settings_call_def save_to_file_def)

lemma can_save_update [simp]:
  "can_save (c\<lparr>freeWorkersPool := x1\<rparr>) = can_save c"
  "can_save (c\<lparr>islandsWaitingForAlloc := x2\<rparr>) = can_save c"
  "can_save (c\<lparr>workAllocationMap := x3\<rparr>) = can_save c"
  "can_save (c\<lparr>toWorkers := x4\<rparr>) = can_save c"
  "can_save (c\<lparr>toIslands := x5\<rparr>) = can_save c"
  "can_save (c\<lparr>ct_registry := x6\<rparr>) = can_save c"
  by (simp_all add: can_save_def)

lemma with_repo_eq:
  "can_save c \<Longrightarrow> with_repo e f c = (fst (f (repo c)), set_repo e (snd (f (repo c))) c)"
  by (simp add: with_repo_def can_save_def settings_call_def save_to_file_def set_repo_def case_prod_beta)

abbreviation known :: "controller \<Rightarrow> string set" where
  "known c \<equiv> dom (map_of (workerRecords (repo c)))"

definition readable_work :: "('a, 'p, 'q, 'u) env \<Rightarrow> bytes \<Rightarrow> bool" where
  "readable_work e d \<longleftrightarrow> is_ok (vector_deserialize (e_work e) d)"

definition outstanding :: "controller \<Rightarrow> (string \<times> bytes) multiset" where
  "outstanding c = jobs (islandsWaitingForAlloc c) (workAllocationMap c)"

text \<open>
  The invariant without the last conjunct holds also in the middle of a handler: the scheduler's
  containers are in order, outstanding work can be read, busy workers were sent their work, the
  settings can be saved.
\<close>

definition ctl_ok :: "('a, 'p, 'q, 'u) env \<Rightarrow> controller \<Rightarrow> bool" where
  "ctl_ok e c \<longleftrightarrow>
     sched_ok (freeWorkersPool c) (islandsWaitingForAlloc c) (workAllocationMap c) (known c)
     \<and> (\<forall>(i, d) \<in># outstanding c. readable_work e d)
     \<and> (\<forall>(w, r) \<in> set (workAllocationMap c). (w, ALLOCATE_WORK, workData r) \<in> set (toWorkers c))
     \<and> can_save c"

definition ctl_inv :: "('a, 'p, 'q, 'u) env \<Rightarrow> controller \<Rightarrow> bool" where
  "ctl_inv e c \<longleftrightarrow> ctl_ok e c \<and> (freeWorkersPool c = [] \<or> islandsWaitingForAlloc c = [])"

section \<open>Allocating\<close>

text \<open>The state after worker \<open>w\<close> got the work.\<close>

definition assigned ::
  "('a, 'p, 'q, 'u) env \<Rightarrow> int \<Rightarrow> string \<Rightarrow> string \<Rightarrow> bytes \<Rightarrow> controller \<Rightarrow> controller" where
  "assigned e now w i d c =
    (let c1 = c\<lparr>freeWorkersPool := set_erase w (freeWorkersPool c),
                workAllocationMap := (w, \<lparr>islandId = i, workData = d\<rparr>) # workAllocationMap c\<rparr>;
         c2 = set_repo e (snd (worker_started_work now w (repo c))) c1
     in c2\<lparr>toWorkers := toWorkers c2 @ [(w, ALLOCATE_WORK, d)]\<rparr>)"

lemma assigned_fields [simp]:
  "freeWorkersPool (assigned e t w i d c) = set_erase w (freeWorkersPool c)"
  "islandsWaitingForAlloc (assigned e t w i d c) = islandsWaitingForAlloc c"
  "workAllocationMap (assigned e t w i d c) = (w, \<lparr>islandId = i, workData = d\<rparr>) # workAllocationMap c"
  "toWorkers (assigned e t w i d c) = toWorkers c @ [(w, ALLOCATE_WORK, d)]"
  "toIslands (assigned e t w i d c) = toIslands c"
  "known (assigned e t w i d c) = known c"
  "ct_registry (assigned e t w i d c) = ct_registry c"
  "can_save (assigned e t w i d c) = can_save c"
  by (simp_all add: assigned_def Let_def)

lemma allocate_worker_eq:
  assumes "ctl_ok e c" and "freeWorkersPool c \<noteq> []" and "readable_work e d"
  shows "\<exists>w \<in> set (freeWorkersPool c). allocate_worker_to_island e ch i d c = (Inr (), assigned e (ch_now ch) w i d c)"
proof -
  obtain x where x: "vector_deserialize (e_work e) d = Inr x"
    using assms(3) by (auto simp: readable_work_def is_ok_ex)
  define w where "w = (if preferredWorkerId x \<in> set (freeWorkersPool c) then preferredWorkerId x
    else begin_of (ch_free ch) (freeWorkersPool c))"
  have w: "w \<in> set (freeWorkersPool c)" using assms(2) by (simp add: w_def)
  have "\<not> map_contains w (workAllocationMap c)" and "w \<in> known c"
    using assms(1) w by (auto simp: ctl_ok_def sched_ok_def map_contains_def)
  then have "allocate_worker_to_island e ch i d c = (Inr (), assigned e (ch_now ch) w i d c)"
    using assms(1,2)
    unfolding allocate_worker_to_island_def x sum.case Let_def w_def [symmetric]
    by (auto simp: with_repo_eq ctl_ok_def assigned_def map_emplace_def worker_started_work_def)
  with w show ?thesis by blast
qed

lemma assigned_ok:
  assumes "ctl_ok e c" and "w \<in> set (freeWorkersPool c)" and "readable_work e d"
    and "i \<notin> set (islands_of (islandsWaitingForAlloc c) (workAllocationMap c))"
  shows "ctl_ok e (assigned e t w i d c) \<and> outstanding (assigned e t w i d c) = add_mset (i, d) (outstanding c)"
  using assms sched_assign [OF _ assms(4,2), of "known c" d]
  by (auto simp: ctl_ok_def outstanding_def)

text \<open>\<open>runs_to m P\<close>: the handler returns normally, in a state that satisfies \<open>P\<close>.\<close>

definition runs_to :: "unit result \<times> controller \<Rightarrow> (controller \<Rightarrow> bool) \<Rightarrow> bool" where
  "runs_to m P \<longleftrightarrow> fst m = Inr () \<and> P (snd m)"

lemma runs_to_bind:
  "runs_to m P \<Longrightarrow> (\<And>c. P c \<Longrightarrow> runs_to (k () c) Q) \<Longrightarrow> runs_to (and_then m k) Q"
  by (cases m) (auto simp: runs_to_def)

lemma runs_to_weaken: "runs_to m P \<Longrightarrow> (\<And>c. P c \<Longrightarrow> Q c) \<Longrightarrow> runs_to m Q"
  by (auto simp: runs_to_def)

text \<open>What a handler does to the outstanding work and to the islands.\<close>

definition effect :: "('a, 'p, 'q, 'u) env \<Rightarrow> (string \<times> bytes) multiset \<Rightarrow> (string \<times> MsgType \<times> bytes) list
    \<Rightarrow> string set \<Rightarrow> controller \<Rightarrow> bool" where
  "effect e J sent K c \<longleftrightarrow> ctl_inv e c \<and> outstanding c = J \<and> toIslands c = sent \<and> known c = K"

abbreviation no_idle :: "controller \<Rightarrow> bool" where
  "no_idle c \<equiv> freeWorkersPool c = [] \<or> islandsWaitingForAlloc c = []"

lemma allocate_island_effect:
  assumes ok: "ctl_ok e c" and idle: "no_idle c" and d: "readable_work e d"
    and i: "i \<notin> set (islands_of (islandsWaitingForAlloc c) (workAllocationMap c))"
  shows "runs_to (allocate_island_work e ch i d c)
    (effect e (add_mset (i, d) (outstanding c)) (toIslands c) (known c))"
proof (cases "freeWorkersPool c = []")
  case True
  have "\<not> map_contains i (islandsWaitingForAlloc c)"
    using i by (auto simp: islands_of_def map_contains_def)
  moreover have "sched_ok (freeWorkersPool c) ((i, d) # islandsWaitingForAlloc c) (workAllocationMap c) (known c)"
    using ok i by (intro sched_wait) (simp_all add: ctl_ok_def)
  ultimately show ?thesis
    using True ok d
    by (auto simp: runs_to_def effect_def allocate_island_work_def map_emplace_def ctl_inv_def ctl_ok_def outstanding_def)
next
  case False
  obtain w where w: "w \<in> set (freeWorkersPool c)"
      "allocate_worker_to_island e ch i d c = (Inr (), assigned e (ch_now ch) w i d c)"
    using allocate_worker_eq [OF ok False d] by blast
  show ?thesis
    using assigned_ok [OF ok w(1) d i, of "ch_now ch"] idle False w(2)
    by (simp add: runs_to_def effect_def allocate_island_work_def ctl_inv_def)
qed

text \<open>A worker that becomes free takes over a waiting island.\<close>

lemma add_free_waiting:
  assumes ok: "ctl_ok e c" and idle: "no_idle c" and k: "w \<in> known c"
    and nb: "w \<notin> fst ` set (workAllocationMap c)" and wt: "islandsWaitingForAlloc c \<noteq> []"
  shows "\<exists>i d c2. c2 = c\<lparr>freeWorkersPool := [w], islandsWaitingForAlloc := map_erase i (islandsWaitingForAlloc c)\<rparr>
    \<and> add_free_worker e ch w c = (Inr (), assigned e (ch_now ch) w i d c2)
    \<and> ctl_ok e c2 \<and> readable_work e d
    \<and> i \<notin> set (islands_of (islandsWaitingForAlloc c2) (workAllocationMap c2))
    \<and> outstanding c = add_mset (i, d) (outstanding c2)"
proof -
  have fr: "freeWorkersPool c = []" using wt idle by simp
  define c1 where "c1 = c\<lparr>freeWorkersPool := [w]\<rparr>"
  have "sched_ok (set_emplace w (freeWorkersPool c)) (islandsWaitingForAlloc c) (workAllocationMap c) (insert w (known c))"
    using ok nb by (intro sched_free) (simp_all add: ctl_ok_def)
  then have ok1: "ctl_ok e c1"
    using ok k by (simp add: c1_def ctl_ok_def outstanding_def insert_absorb set_emplace_def fr)
  obtain i d where x: "begin_of (ch_island ch) (islandsWaitingForAlloc c) = (i, d)" by fastforce
  have mem: "(i, d) \<in> set (islandsWaitingForAlloc c)" using begin_of_in [OF wt, of "ch_island ch"] x by simp
  have so: "sched_ok (freeWorkersPool c1) (islandsWaitingForAlloc c) (workAllocationMap c) (known c)"
    using ok1 by (simp add: ctl_ok_def c1_def)
  define c2 where "c2 = c1\<lparr>islandsWaitingForAlloc := map_erase i (islandsWaitingForAlloc c)\<rparr>"
  have j: "outstanding c = add_mset (i, d) (outstanding c2)"
    using jobs_pop [OF _ mem, of "workAllocationMap c"] ok
    by (simp add: outstanding_def c2_def c1_def ctl_ok_def sched_ok_def)
  have fresh: "i \<notin> set (islands_of (islandsWaitingForAlloc c2) (workAllocationMap c2))"
    using sched_pop [OF so mem] by (simp add: c2_def c1_def)
  have ok2: "ctl_ok e c2"
    using ok1 sched_pop [OF so mem] j by (simp add: c2_def c1_def ctl_ok_def outstanding_def)
  have d: "readable_work e d" using ok j by (simp add: ctl_ok_def)
  have "allocate_worker_to_island e ch i d c2 = (Inr (), assigned e (ch_now ch) w i d c2)"
    using allocate_worker_eq [OF ok2 _ d, of ch i] by (simp add: c2_def c1_def)
  then have "add_free_worker e ch w c = (Inr (), assigned e (ch_now ch) w i d c2)"
    using wt x by (simp add: add_free_worker_def pop_waiting_island_def Let_def c2_def c1_def set_emplace_def fr)
  then show ?thesis using ok2 d fresh j by (auto simp: c2_def c1_def)
qed

lemma add_free_effect:
  assumes ok: "ctl_ok e c" and idle: "no_idle c" and k: "w \<in> known c"
    and nb: "w \<notin> fst ` set (workAllocationMap c)"
  shows "runs_to (add_free_worker e ch w c) (effect e (outstanding c) (toIslands c) (known c))"
proof (cases "islandsWaitingForAlloc c = []")
  case True
  have "sched_ok (set_emplace w (freeWorkersPool c)) (islandsWaitingForAlloc c) (workAllocationMap c) (insert w (known c))"
    using ok nb by (intro sched_free) (simp_all add: ctl_ok_def)
  then have "ctl_ok e (c\<lparr>freeWorkersPool := set_emplace w (freeWorkersPool c)\<rparr>)"
    using ok k by (simp add: ctl_ok_def outstanding_def insert_absorb)
  then show ?thesis
    using True by (simp add: runs_to_def effect_def add_free_worker_def ctl_inv_def outstanding_def)
next
  case False
  obtain i d c2 where c2: "c2 = c\<lparr>freeWorkersPool := [w], islandsWaitingForAlloc := map_erase i (islandsWaitingForAlloc c)\<rparr>"
      "add_free_worker e ch w c = (Inr (), assigned e (ch_now ch) w i d c2)" "ctl_ok e c2" "readable_work e d"
      "i \<notin> set (islands_of (islandsWaitingForAlloc c2) (workAllocationMap c2))"
      "outstanding c = add_mset (i, d) (outstanding c2)"
    using add_free_waiting [OF assms False] by blast
  show ?thesis
    using assigned_ok [OF c2(3) _ c2(4,5), of w "ch_now ch"] c2(1,2,6)
    by (simp add: runs_to_def effect_def ctl_inv_def set_erase_def)
qed

section \<open>The handlers\<close>

lemma with_repo_ok:
  assumes "can_save c" and "fst (f (repo c)) = Inr ()"
  shows "runs_to (with_repo e f c) (\<lambda>c'. c' = set_repo e (snd (f (repo c))) c)"
  using assms by (simp add: runs_to_def with_repo_eq)

lemma ctl_ok_set_repo:
  "ctl_ok e c \<Longrightarrow> known c \<subseteq> dom (map_of (workerRecords r)) \<Longrightarrow> ctl_ok e (set_repo e r c)"
  using sched_known by (auto simp: ctl_ok_def outstanding_def)

lemma outstanding_set_repo [simp]: "outstanding (set_repo e r c) = outstanding c"
  by (simp add: outstanding_def)

lemma joined_dom: "dom (map_of (workerRecords (worker_joined w i r))) = insert w (dom (map_of (workerRecords r)))"
  by (auto simp: dom_def split: if_splits)

lemma join_effect:
  assumes inv: "ctl_inv e c" and nb: "w \<notin> fst ` set (workAllocationMap c)"
  shows "runs_to (handle_join e ch w c) (effect e (outstanding c) (toIslands c) (insert w (known c)))"
proof (cases "w \<in> set (freeWorkersPool c)")
  case True
  then have "w \<in> known c" using inv by (auto simp: ctl_inv_def ctl_ok_def sched_ok_def)
  then show ?thesis using True inv
    by (simp add: handle_join_def runs_to_def effect_def insert_absorb)
next
  case False
  let ?c = "set_repo e (worker_joined w worker_info_new (repo c)) c"
  have "ctl_ok e ?c" using inv by (intro ctl_ok_set_repo) (auto simp: ctl_inv_def joined_dom)
  then have "runs_to (add_free_worker e ch w ?c) (effect e (outstanding c) (toIslands c) (insert w (known c)))"
    using add_free_effect [of e ?c w ch] inv nb by (simp add: ctl_inv_def joined_dom)
  moreover have "can_save c" using inv by (simp add: ctl_inv_def ctl_ok_def)
  ultimately show ?thesis using False by (simp add: handle_join_def with_repo_eq)
qed

text \<open>The state in which the job of a departed worker is handed out again.\<close>

definition departed :: "('a, 'p, 'q, 'u) env \<Rightarrow> string \<Rightarrow> controller \<Rightarrow> controller" where
  "departed e w c =
    (let c1 = set_repo e (worker_left w (repo c)) (c\<lparr>freeWorkersPool := set_erase w (freeWorkersPool c)\<rparr>)
     in c1\<lparr>workAllocationMap := map_erase w (workAllocationMap c1)\<rparr>)"

lemma departed_fields [simp]:
  "freeWorkersPool (departed e w c) = set_erase w (freeWorkersPool c)"
  "islandsWaitingForAlloc (departed e w c) = islandsWaitingForAlloc c"
  "workAllocationMap (departed e w c) = map_erase w (workAllocationMap c)"
  "toWorkers (departed e w c) = toWorkers c"
  "toIslands (departed e w c) = toIslands c"
  "known (departed e w c) = known c"
  "can_save (departed e w c) = can_save c"
  by (simp_all add: departed_def Let_def)

lemma map_erase_absent: "map_of m k = None \<Longrightarrow> map_erase k m = m"
  by (induction m) (auto simp: map_erase_def split: if_splits)

lemma leave_busy:
  assumes inv: "ctl_inv e c" and r: "map_of (workAllocationMap c) w = Some r"
  shows "handle_leave e ch w c = allocate_island_work e ch (islandId r) (workData r) (departed e w c)"
    and "ctl_ok e (departed e w c)" and "readable_work e (workData r)"
    and "outstanding c = add_mset (islandId r, workData r) (outstanding (departed e w c))"
    and "islandId r \<notin> set (islands_of (islandsWaitingForAlloc c) (map_erase w (workAllocationMap c)))"
    and "set_erase w (freeWorkersPool c) = freeWorkersPool c"
proof -
  have so: "sched_ok (freeWorkersPool c) (islandsWaitingForAlloc c) (workAllocationMap c) (known c)"
    and sv: "can_save c"
    using inv by (simp_all add: ctl_inv_def ctl_ok_def)
  show "handle_leave e ch w c = allocate_island_work e ch (islandId r) (workData r) (departed e w c)"
    using sv r by (simp add: handle_leave_def with_repo_eq departed_def Let_def)
  show j: "outstanding c = add_mset (islandId r, workData r) (outstanding (departed e w c))"
    using jobs_done [OF _ r] so by (simp add: outstanding_def sched_ok_def)
  have "w \<in> fst ` set (workAllocationMap c)" using r by (force dest: map_of_SomeD)
  then show er: "set_erase w (freeWorkersPool c) = freeWorkersPool c"
    using so by (auto simp: sched_ok_def set_erase_def filter_id_conv)
  show "islandId r \<notin> set (islands_of (islandsWaitingForAlloc c) (map_erase w (workAllocationMap c)))"
    using sched_done [OF so r] by simp
  show "readable_work e (workData r)" using inv j by (simp add: ctl_inv_def ctl_ok_def)
  show "ctl_ok e (departed e w c)"
    using inv sched_done [OF so r] j er by (auto simp: ctl_inv_def ctl_ok_def map_erase_def)
qed

lemma leave_effect:
  assumes inv: "ctl_inv e c"
  shows "runs_to (handle_leave e ch w c) (effect e (outstanding c) (toIslands c) (known c))"
proof (cases "map_of (workAllocationMap c) w")
  case None
  let ?c1 = "set_repo e (worker_left w (repo c)) (c\<lparr>freeWorkersPool := set_erase w (freeWorkersPool c)\<rparr>)"
  have "ctl_ok e (c\<lparr>freeWorkersPool := set_erase w (freeWorkersPool c)\<rparr>)"
    using inv sched_drop by (auto simp: ctl_inv_def ctl_ok_def outstanding_def)
  then have "ctl_ok e ?c1" by (rule ctl_ok_set_repo) simp
  moreover have "handle_leave e ch w c = (Inr (), ?c1)"
    using inv None by (simp add: handle_leave_def with_repo_eq ctl_inv_def ctl_ok_def)
  moreover have "no_idle ?c1" using inv by (auto simp: ctl_inv_def set_erase_def)
  ultimately show ?thesis by (simp add: runs_to_def effect_def ctl_inv_def outstanding_def)
next
  case (Some r)
  note l = leave_busy [OF inv Some]
  have "no_idle (departed e w c)" using inv l(6) by (simp add: ctl_inv_def)
  then show ?thesis
    using allocate_island_effect [OF l(2) _ l(3), of "islandId r" ch] l(5) by (simp add: l(1,4))
qed

text \<open>Results free the worker: the state in which it is put back into the pool.\<close>

lemma results_run:
  assumes inv: "ctl_inv e c" and r: "map_of (workAllocationMap c) w = Some r" and b: "readable_work e b"
  shows "\<exists>c2. handle_results e ch w b c = add_free_worker e ch w c2
    \<and> ctl_ok e c2 \<and> no_idle c2 \<and> w \<in> known c2 \<and> known c2 = known c
    \<and> workAllocationMap c2 = map_erase w (workAllocationMap c) \<and> toWorkers c2 = toWorkers c
    \<and> ct_registry c2 = ct_registry c \<and> toIslands c2 = toIslands c @ [(islandId r, WORK_RESULTS, b)]
    \<and> outstanding c = add_mset (islandId r, workData r) (outstanding c2)
    \<and> freeWorkersPool c2 = freeWorkersPool c"
proof -
  obtain x where x: "vector_deserialize (e_work e) b = Inr x"
    using b by (auto simp: readable_work_def is_ok_ex)
  let ?f = "worker_finished_work (ch_now ch) w (e_pop_size e (pop x)) (e_algo_name e (algo x))"
  have ok: "ctl_ok e c" and so: "sched_ok (freeWorkersPool c) (islandsWaitingForAlloc c) (workAllocationMap c) (known c)"
    using inv by (simp_all add: ctl_inv_def ctl_ok_def)
  have "w \<in> fst ` set (workAllocationMap c)" using r by (force dest: map_of_SomeD)
  then have kn: "w \<in> known c" using so by (auto simp: sched_ok_def)
  define c1 where "c1 = set_repo e (snd (?f (repo c))) c"
  have ok1: "ctl_ok e c1" unfolding c1_def by (rule ctl_ok_set_repo [OF ok]) simp
  define c2 where "c2 = c1\<lparr>toIslands := toIslands c1 @ [(islandId r, WORK_RESULTS, b)],
                      workAllocationMap := map_erase w (workAllocationMap c1)\<rparr>"
  have fin: "fst (?f (repo c)) = Inr ()"
    using kn finished_ok [of "ch_now ch" w "e_pop_size e (pop x)" "e_algo_name e (algo x)" "repo c"]
    by (simp add: is_ok_ex)
  have h: "handle_results e ch w b c = add_free_worker e ch w c2"
    using ok fin r by (simp add: handle_results_def x with_repo_eq ctl_ok_def map_at_def c2_def c1_def)
  have j: "outstanding c = add_mset (islandId r, workData r) (outstanding c2)"
    using jobs_done [OF _ r] so by (simp add: outstanding_def sched_ok_def c2_def c1_def)
  have ok2: "ctl_ok e c2"
    using ok1 sched_done [OF so r] j
    by (auto simp: ctl_ok_def c2_def c1_def map_erase_def outstanding_def)
  have "no_idle c2" "w \<in> known c2" "known c2 = known c"
    using inv kn by (auto simp: ctl_inv_def c2_def c1_def)
  then show ?thesis using h j ok2 by (intro exI [of _ c2]) (auto simp: c2_def c1_def)
qed

lemma results_effect:
  assumes inv: "ctl_inv e c" and r: "map_of (workAllocationMap c) w = Some r" and b: "readable_work e b"
  shows "runs_to (handle_results e ch w b c)
    (\<lambda>c'. outstanding c = add_mset (islandId r, workData r) (outstanding c')
        \<and> effect e (outstanding c') (toIslands c @ [(islandId r, WORK_RESULTS, b)]) (known c) c')"
proof -
  obtain c2 where c2: "handle_results e ch w b c = add_free_worker e ch w c2" "ctl_ok e c2" "no_idle c2"
      "w \<in> known c2" "known c2 = known c" "workAllocationMap c2 = map_erase w (workAllocationMap c)"
      "toIslands c2 = toIslands c @ [(islandId r, WORK_RESULTS, b)]"
      "outstanding c = add_mset (islandId r, workData r) (outstanding c2)"
    using results_run [OF assms, of ch] by blast
  have "w \<notin> fst ` set (workAllocationMap c2)" using c2(6) by simp
  from add_free_effect [OF c2(2-4) this, of ch] show ?thesis
    unfolding c2(1) by (rule runs_to_weaken) (simp add: effect_def c2(5,7,8))
qed

lemma get_dll_effect:
  assumes inv: "ctl_inv e c" and q: "vector_deserialize (e_request e) b = Inr q"
    and f: "is_ok (fst (get_lib_as_file (e_host e) (req_dll_name q) (ct_registry c)))"
  shows "runs_to (handle_get_dll e w b c) (effect e (outstanding c) (toIslands c) (known c))"
proof -
  obtain x r where "get_lib_as_file (e_host e) (req_dll_name q) (ct_registry c) = (Inr x, r)"
    using f by (cases "get_lib_as_file (e_host e) (req_dll_name q) (ct_registry c)") (auto simp: is_ok_ex)
  then show ?thesis using inv
    by (auto simp: handle_get_dll_def q runs_to_def effect_def ctl_inv_def ctl_ok_def outstanding_def)
qed

section \<open>The protocol\<close>

text \<open>
  What the peers keep to: a worker that has work does not join again without having left
  (ZeroMQ reports the loss of a connection before it reports a new one), results come from a
  worker that has work and can be read, a requested library can be read, and an island asks
  again only after it was answered, with work that can be read.
\<close>

fun expected :: "('a, 'p, 'q, 'u) env \<Rightarrow> event \<Rightarrow> controller \<Rightarrow> bool" where
  "expected e (Worker_msg ch w t b) c =
     (case t of
        WORKER_JOIN \<Rightarrow> w \<notin> fst ` set (workAllocationMap c)
      | WORK_RESULTS \<Rightarrow> w \<in> fst ` set (workAllocationMap c) \<and> readable_work e b
      | GET_DLL \<Rightarrow> (case vector_deserialize (e_request e) b of
            Inl _ \<Rightarrow> False
          | Inr q \<Rightarrow> is_ok (fst (get_lib_as_file (e_host e) (req_dll_name q) (ct_registry c))))
      | _ \<Rightarrow> True)"
| "expected e (Island_msg ch i t b) c =
     (t \<noteq> ALLOCATE_WORK \<or> (readable_work e b \<and> i \<notin> set (islands_of (islandsWaitingForAlloc c) (workAllocationMap c))))"

fun asked :: "event \<Rightarrow> (string \<times> bytes) multiset" where
  "asked (Worker_msg ch w t b) = {#}"
| "asked (Island_msg ch i t b) = (if t = ALLOCATE_WORK then {#(i, b)#} else {#})"

text \<open>The job that a message of a worker completes.\<close>

fun completed :: "event \<Rightarrow> controller \<Rightarrow> (string \<times> bytes) multiset" where
  "completed (Worker_msg ch w t b) c =
     (if t = WORK_RESULTS
      then (case map_of (workAllocationMap c) w of None \<Rightarrow> {#} | Some r \<Rightarrow> {#(islandId r, workData r)#})
      else {#})"
| "completed (Island_msg ch i t b) c = {#}"

fun answers :: "event \<Rightarrow> controller \<Rightarrow> (string \<times> MsgType \<times> bytes) list" where
  "answers (Worker_msg ch w t b) c =
     (if t = WORK_RESULTS
      then (case map_of (workAllocationMap c) w of None \<Rightarrow> [] | Some r \<Rightarrow> [(islandId r, WORK_RESULTS, b)])
      else [])"
| "answers (Island_msg ch i t b) c = []"

definition good_step :: "('a, 'p, 'q, 'u) env \<Rightarrow> event \<Rightarrow> controller \<Rightarrow> controller \<Rightarrow> bool" where
  "good_step e ev c c' \<longleftrightarrow> ctl_inv e c' \<and> outstanding c + asked ev = outstanding c' + completed ev c
     \<and> toIslands c' = toIslands c @ answers ev c"

lemma good_stepI:
  "effect e (outstanding c) (toIslands c) K c' \<Longrightarrow> asked ev = {#} \<Longrightarrow> completed ev c = {#} \<Longrightarrow> answers ev c = []
   \<Longrightarrow> good_step e ev c c'"
  by (simp add: good_step_def effect_def)

lemma event_good:
  assumes inv: "ctl_inv e c" and ex: "expected e ev c"
  shows "runs_to (handle_event e ev c) (good_step e ev c)"
proof (cases ev)
  case (Worker_msg ch w t b)
  show ?thesis
  proof (cases t)
    case WORKER_JOIN
    then show ?thesis using ex join_effect [OF inv, of w ch] Worker_msg
      by (auto simp: handle_workers_msg_def elim!: runs_to_weaken intro: good_stepI)
  next
    case WORKER_LEAVE
    then show ?thesis using leave_effect [OF inv, of ch w] Worker_msg
      by (auto simp: handle_workers_msg_def elim!: runs_to_weaken intro: good_stepI)
  next
    case WORK_RESULTS
    then obtain r where r: "map_of (workAllocationMap c) w = Some r" and b: "readable_work e b"
      using ex Worker_msg by (auto simp: map_contains_def [symmetric] map_contains_iff)
    have "runs_to (handle_results e ch w b c) (good_step e ev c)"
      by (rule runs_to_weaken [OF results_effect [OF inv r b]])
        (simp add: good_step_def effect_def Worker_msg WORK_RESULTS r)
    then show ?thesis by (simp add: Worker_msg WORK_RESULTS handle_workers_msg_def)
  next
    case GET_DLL
    then obtain q where q: "vector_deserialize (e_request e) b = Inr q"
        "is_ok (fst (get_lib_as_file (e_host e) (req_dll_name q) (ct_registry c)))"
      using ex Worker_msg by (auto split: sum.splits)
    then show ?thesis using get_dll_effect [OF inv q, of w] GET_DLL Worker_msg
      by (auto simp: handle_workers_msg_def elim!: runs_to_weaken intro: good_stepI)
  qed (use inv Worker_msg in \<open>simp_all add: handle_workers_msg_def runs_to_def good_step_def\<close>)
next
  case (Island_msg ch i t b)
  show ?thesis
  proof (cases "t = ALLOCATE_WORK")
    case True
    then have "runs_to (allocate_island_work e ch i b c)
        (effect e (add_mset (i, b) (outstanding c)) (toIslands c) (known c))"
      using inv ex Island_msg by (intro allocate_island_effect) (simp_all add: ctl_inv_def)
    then have "runs_to (allocate_island_work e ch i b c) (good_step e ev c)"
      by (rule runs_to_weaken) (simp add: good_step_def effect_def Island_msg True)
    then show ?thesis by (simp add: Island_msg True handle_islands_msg_def)
  next
    case False
    then show ?thesis using inv Island_msg
      by (cases t) (simp_all add: handle_islands_msg_def runs_to_def good_step_def)
  qed
qed

text \<open>The states reachable under the protocol, with the work asked for and the work completed.\<close>

inductive reach :: "('a, 'p, 'q, 'u) env \<Rightarrow> controller \<Rightarrow> (string \<times> bytes) multiset \<Rightarrow> (string \<times> bytes) multiset
    \<Rightarrow> controller \<Rightarrow> bool" for e c0 where
  start: "reach e c0 {#} {#} c0"
| step: "reach e c0 A D c \<Longrightarrow> expected e ev c \<Longrightarrow>
    reach e c0 (A + asked ev) (D + completed ev c) (snd (handle_event e ev c))"

inductive_cases reach_cases: "reach e c0 A D c"

lemma answers_completed: "mset (map fst (answers ev c)) = image_mset fst (completed ev c)"
  by (cases ev) (auto split: option.split)

lemma balance:
  assumes "P + A = Q + (D :: 'x multiset)" and "Q + a = R + b"
  shows "P + (A + a) = R + (D + b)"
proof -
  have "P + (A + a) = Q + D + a" using assms(1) by (simp only: add.assoc [symmetric])
  also have "\<dots> = (Q + a) + D" by (simp only: add.assoc add.commute add.left_commute)
  also have "\<dots> = R + (D + b)" unfolding assms(2) by (simp only: add.assoc add.commute add.left_commute)
  finally show ?thesis .
qed

lemma reach_inv:
  assumes "reach e c0 A D c" and "ctl_inv e c0" and "toIslands c0 = []"
  shows "ctl_inv e c \<and> outstanding c0 + A = outstanding c + D
    \<and> mset (map fst (toIslands c)) = image_mset fst D"
  using assms
proof (induction rule: reach.induct)
  case start
  then show ?case by simp
next
  case (step A D c ev)
  then have IH: "ctl_inv e c" "outstanding c0 + A = outstanding c + D" "mset (map fst (toIslands c)) = image_mset fst D"
    by simp_all
  from event_good [OF IH(1) step.hyps(2)] have g: "good_step e ev c (snd (handle_event e ev c))"
    by (simp add: runs_to_def)
  have "outstanding c0 + (A + asked ev) = outstanding (snd (handle_event e ev c)) + (D + completed ev c)"
    using balance [OF IH(2)] g by (simp add: good_step_def)
  then show ?case
    using g IH(3) answers_completed [of ev c] by (simp add: good_step_def)
qed

text \<open>The server thread is a machine that keeps the invariant and goes on serving.\<close>

interpretation server: machine "poll e" "\<lambda>ev sv. expected e ev (ctrl sv)" "\<lambda>sv. serving sv \<and> ctl_inv e (ctrl sv)" for e
proof unfold_locales
  fix sv :: server and ev assume "serving sv \<and> ctl_inv e (ctrl sv)" "expected e ev (ctrl sv)"
  then show "serving (poll e ev sv) \<and> ctl_inv e (ctrl (poll e ev sv))"
    using event_good [of e "ctrl sv" ev] by (simp add: poll_def case_prod_beta runs_to_def good_step_def)
qed

definition protocol :: "('a, 'p, 'q, 'u) env \<Rightarrow> event list \<Rightarrow> controller \<Rightarrow> bool" where
  "protocol e evs c \<longleftrightarrow> orderly (poll e) (\<lambda>ev sv. expected e ev (ctrl sv)) evs \<lparr>serving = True, ctrl = c\<rparr>"

lemma run_server_runs: "run_server e evs s = runs (poll e) evs s"
  by (induction evs arbitrary: s) simp_all

lemma settings_new_path:
  "settings_new codec ini v path a d = Inr s \<Longrightarrow> settingsPath s = path"
  by (auto simp: settings_new_def initialize_settings_def map_sum_Inr split: option.splits if_splits)

lemma controller_new_inv:
  assumes "controller_new e address hi ht ri path d r = Inr c" and "d_writable d path"
  shows "ctl_inv e c \<and> outstanding c = {#} \<and> toIslands c = []"
proof -
  obtain s where s: "settings_new (e_xml e) controller_settings_initialize \<lparr>workerInfo = worker_repo_new\<rparr> path True d = Inr s"
    using assms(1) by (auto simp: controller_new_def split: sum.splits)
  have f: "freeWorkersPool c = [] \<and> islandsWaitingForAlloc c = [] \<and> workAllocationMap c = []
      \<and> toIslands c = [] \<and> ct_settings c = s \<and> ct_disk c = d"
    using assms(1) by (auto simp: controller_new_def s split: sum.splits)
  moreover have "can_save c" using f settings_new_path [OF s] assms(2) by (simp add: can_save_def)
  ultimately show ?thesis
    by (simp add: ctl_inv_def ctl_ok_def sched_ok_def outstanding_def jobs_def islands_of_def)
qed

text \<open>Whatever the reason why the address cannot be bound, the exception that leaves the constructor does not tell it.\<close>

lemma bind_failure_loses_reason:
  assumes "settings_new (e_xml e) controller_settings_initialize \<lparr>workerInfo = worker_repo_new\<rparr> path True d = Inr s"
    and "e_bind e address = Inl err" and "is_exception err"
  shows "controller_new e address hi ht ri path d r = Inl (Runtime_error ''std::exception'')"
  using assms by (simp add: controller_new_def sliced_def)

section \<open>A concrete controller\<close>

text \<open>Work whose bytes are the name of the preferred worker; settings that store nothing.\<close>

definition demo_env :: "(unit, nat, nat, nat) env" where
  "demo_env = \<lparr>e_xml = \<lparr>xml_write = (\<lambda>_. []), xml_read = (\<lambda>_ v. Inr v)\<rparr>,
     e_host = demo_host,
     e_work = (\<lambda>b. Inr \<lparr>algo = (), pop = length b, preferredWorkerId = map (\<lambda>x. char_of (unat x)) b, cycleCount = 1\<rparr>),
     e_request = (\<lambda>b. Inr \<lparr>req_dll_name = ''p''\<rparr>), e_emit_dll = (\<lambda>q. []),
     e_pop_size = of_nat, e_algo_name = (\<lambda>_. ''sade''), e_bind = (\<lambda>_. Inr ())\<rparr>"

definition demo_ctl :: controller where
  "demo_ctl = \<lparr>heartbeat_interval = 1000, heartbeat_timeout = 3000, reconnect_ivl_max = 1000,
     socket_options = [(''heartbeat_ivl'', 1000), (''heartbeat_timeout'', 3000), (''reconnect_ivl_max'', 1000),
       (''disconnect_msg'', 1)],
     bound = [''tcp://*:5555'', ''ipc://distributed_controller_islands_socket''],
     ct_settings = \<lparr>settingsPath = ''c.xml'', st_value = \<lparr>workerInfo = worker_repo_new\<rparr>, autoSave = True\<rparr>,
     ct_disk = demo_disk, ct_registry = demo_registry [1],
     islandsWaitingForAlloc = [], freeWorkersPool = [], workAllocationMap = [],
     toWorkers = [], toIslands = []\<rparr>"

lemma demo_ctl_new:
  "controller_new demo_env ''tcp://*:5555'' 1000 3000 1000 ''c.xml'' demo_disk (demo_registry [1]) = Inr demo_ctl"
  by (simp add: controller_new_def settings_new_def initialize_settings_def demo_env_def demo_ctl_def
      controller_settings_initialize_def demo_disk_def)

lemma demo_readable: "readable_work demo_env b \<longleftrightarrow> b \<noteq> []"
  by (simp add: readable_work_def demo_env_def vector_deserialize_def)

lemma demo_inv: "ctl_inv demo_env demo_ctl"
  using controller_new_inv [OF demo_ctl_new] by (simp add: demo_disk_def)

text \<open>A request, two workers, the result of the one that got the work.\<close>

definition demo_choice :: choice where
  "demo_choice = \<lparr>ch_free = 0, ch_island = 0, ch_now = 7\<rparr>"

definition ev1 :: event where "ev1 = Island_msg demo_choice ''isl'' ALLOCATE_WORK [65]"
definition ev2 :: event where "ev2 = Worker_msg demo_choice ''B'' WORKER_JOIN []"
definition ev4 :: event where "ev4 = Worker_msg demo_choice ''B'' WORK_RESULTS [66]"

lemma demo_work: "e_work demo_env b = Inr \<lparr>algo = (), pop = length b, preferredWorkerId = map (\<lambda>x. char_of (unat x)) b, cycleCount = 1\<rparr>"
  by (simp add: demo_env_def)

lemma demo_save: "can_save demo_ctl"
  by (simp add: can_save_def demo_ctl_def demo_disk_def)

lemma demo_containers [simp]:
  "freeWorkersPool demo_ctl = []" "islandsWaitingForAlloc demo_ctl = []" "workAllocationMap demo_ctl = []"
  "toIslands demo_ctl = []" "toWorkers demo_ctl = []" "workerRecords (repo demo_ctl) = []"
  by (simp_all add: demo_ctl_def worker_repo_new_def)

definition st1 :: controller where "st1 = snd (handle_event demo_env ev1 demo_ctl)"
definition st2 :: controller where "st2 = snd (handle_event demo_env ev2 st1)"

lemma st1_eq: "st1 = demo_ctl\<lparr>islandsWaitingForAlloc := [(''isl'', [65])]\<rparr>"
  by (simp add: st1_def ev1_def handle_islands_msg_def allocate_island_work_def map_emplace_def)

lemma st2_busy: "workAllocationMap st2 = [(''B'', \<lparr>islandId = ''isl'', workData = [65]\<rparr>)]"
  by (simp add: st2_def st1_eq ev2_def handle_workers_msg_def handle_join_def with_repo_eq demo_save
      add_free_worker_def pop_waiting_island_def allocate_worker_to_island_def vector_deserialize_def
      demo_work worker_started_work_def set_emplace_def map_emplace_def map_erase_def Let_def)

lemma st2_free: "freeWorkersPool st2 = []" "islandsWaitingForAlloc st2 = []"
  by (simp_all add: st2_def st1_eq ev2_def handle_workers_msg_def handle_join_def with_repo_eq demo_save
      add_free_worker_def pop_waiting_island_def allocate_worker_to_island_def vector_deserialize_def
      demo_work worker_started_work_def set_emplace_def map_emplace_def map_erase_def set_erase_def Let_def)

lemma demo_expected:
  "expected demo_env ev1 demo_ctl" "expected demo_env ev2 st1" "expected demo_env ev4 st2"
  by (simp_all add: ev1_def ev2_def ev4_def demo_readable islands_of_def st1_eq st2_busy)

lemma st2_inv: "ctl_inv demo_env st2"
  using event_good [OF demo_inv demo_expected(1)] event_good [OF _ demo_expected(2)]
  by (simp add: runs_to_def good_step_def st1_def st2_def)

lemma demo_protocol: "protocol demo_env [ev1, ev2, ev4] demo_ctl"
proof -
  have "poll demo_env ev \<lparr>serving = True, ctrl = c\<rparr> = \<lparr>serving = True, ctrl = snd (handle_event demo_env ev c)\<rparr>"
    if "fst (handle_event demo_env ev c) = Inr ()" for ev c
    using that by (simp add: poll_def case_prod_beta)
  moreover have "fst (handle_event demo_env ev1 demo_ctl) = Inr ()" "fst (handle_event demo_env ev2 st1) = Inr ()"
    using event_good [of demo_env demo_ctl ev1] event_good [of demo_env st1 ev2] demo_inv demo_expected
    by (simp_all add: runs_to_def good_step_def st1_def)
  ultimately show ?thesis using demo_expected by (simp add: protocol_def st1_def st2_def)
qed

lemma demo_reach:
  "reach demo_env demo_ctl ({#} + asked ev1 + asked ev2 + asked ev4)
     ({#} + completed ev1 demo_ctl + completed ev2 st1 + completed ev4 st2) (snd (handle_event demo_env ev4 st2))"
  unfolding st2_def st1_def
  using demo_expected by (intro reach.step reach.start) (simp_all add: st1_def st2_def)

section \<open>Properties\<close>

text \<open>
  C4: no work is lost and none is answered twice. In every state a new controller reaches while
  its peers keep to the protocol, the work the islands asked for is exactly the work that is
  outstanding (waiting, or recorded with a busy worker, with its data unchanged) together with
  the work that was completed, counted with multiplicity; and the answers sent to islands are
  one for each completed job, to the island that asked.
\<close>

theorem work_is_conserved:
  assumes "controller_new e address hi ht ri path d r = Inr c0" and "d_writable d path"
    and "reach e c0 asked_for done c"
  shows "asked_for = outstanding c + done
    \<and> mset (map fst (toIslands c)) = image_mset fst done"
  using reach_inv [OF assms(3)] controller_new_inv [OF assms(1,2)] by simp

theorem work_is_conserved_witness:
  "outstanding (snd (handle_event demo_env ev4 st2)) = {#}
   \<and> mset (map fst (toIslands (snd (handle_event demo_env ev4 st2)))) = {#''isl''#}"
  using work_is_conserved [OF demo_ctl_new _ demo_reach]
  by (simp add: ev1_def ev2_def ev4_def st2_busy demo_disk_def)

text \<open>
  C7: the scheduler's tables are consistent and nobody waits in vain. In every such state no
  worker is free and busy, no island is outstanding twice, no island waits while a worker is
  free, every busy worker was sent the very work recorded for it, and every free or busy worker
  has a record in the statistics (so starting work never throws).
\<close>

theorem scheduler_invariant:
  assumes "controller_new e address hi ht ri path d r = Inr c0" and "d_writable d path"
    and "reach e c0 asked_for done c"
  shows "set (freeWorkersPool c) \<inter> fst ` set (workAllocationMap c) = {}
    \<and> distinct (map fst (islandsWaitingForAlloc c) @ map (islandId \<circ> snd) (workAllocationMap c))
    \<and> (freeWorkersPool c = [] \<or> islandsWaitingForAlloc c = [])
    \<and> (\<forall>(w, rec) \<in> set (workAllocationMap c). (w, ALLOCATE_WORK, workData rec) \<in> set (toWorkers c))
    \<and> set (freeWorkersPool c) \<union> fst ` set (workAllocationMap c) \<subseteq> {w. get_worker_info w (repo c) \<noteq> None}"
  using reach_inv [OF assms(3)] controller_new_inv [OF assms(1,2)]
  by (simp add: ctl_inv_def ctl_ok_def sched_ok_def islands_of_def get_worker_info_def dom_def)

theorem scheduler_invariant_witness:
  "get_worker_info ''B'' (repo st2) \<noteq> None \<and> (''B'', ALLOCATE_WORK, [65]) \<in> set (toWorkers st2)"
proof -
  have "reach demo_env demo_ctl ({#} + asked ev1 + asked ev2) ({#} + completed ev1 demo_ctl + completed ev2 st1) st2"
    unfolding st2_def st1_def
    using demo_expected by (intro reach.step reach.start) (simp_all add: st1_def)
  from scheduler_invariant [OF demo_ctl_new _ this] show ?thesis
    by (simp add: st2_busy demo_disk_def)
qed

text \<open>
  C8: the server thread survives. As long as the messages keep to the protocol, no handler
  throws, and the server is still serving after any number of them.
\<close>

theorem server_keeps_serving:
  assumes "controller_new e address hi ht ri path d r = Inr c0" and "d_writable d path"
    and "protocol e evs c0"
  shows "serving (run_server e evs \<lparr>serving = True, ctrl = c0\<rparr>)"
  using server.runs_inv [of "\<lparr>serving = True, ctrl = c0\<rparr>" e evs] controller_new_inv [OF assms(1,2)] assms(3)
  by (simp add: protocol_def run_server_runs)

theorem server_keeps_serving_witness:
  "serving (run_server demo_env [ev1, ev2, ev4] \<lparr>serving = True, ctrl = demo_ctl\<rparr>)"
  by (rule server_keeps_serving [OF demo_ctl_new _ demo_protocol]) (simp add: demo_disk_def)

text \<open>
  C12: a departed worker's job is not forgotten. When a busy worker leaves, its job is at once
  sent to and recorded for one of the free workers, or, when there is none, it waits.
\<close>

theorem leave_reallocates:
  assumes "ctl_inv e c" and "map_of (workAllocationMap c) w = Some r"
  shows "fst (handle_leave e ch w c) = Inr ()
    \<and> (if freeWorkersPool c = []
       then (islandId r, workData r) \<in> set (islandsWaitingForAlloc (snd (handle_leave e ch w c)))
         \<and> workAllocationMap (snd (handle_leave e ch w c)) = map_erase w (workAllocationMap c)
       else \<exists>v \<in> set (freeWorkersPool c).
         map_of (workAllocationMap (snd (handle_leave e ch w c))) v = Some r
         \<and> toWorkers (snd (handle_leave e ch w c)) = toWorkers c @ [(v, ALLOCATE_WORK, workData r)])"
proof (cases "freeWorkersPool c = []")
  case True
  note l = leave_busy [OF assms]
  have "\<not> map_contains (islandId r) (islandsWaitingForAlloc c)"
    using l(5) by (auto simp: islands_of_def map_contains_def)
  then show ?thesis
    using True by (simp add: l(1) allocate_island_work_def map_emplace_def set_erase_def)
next
  case False
  note l = leave_busy [OF assms]
  obtain v where v: "v \<in> set (freeWorkersPool (departed e w c))"
      "allocate_worker_to_island e ch (islandId r) (workData r) (departed e w c)
         = (Inr (), assigned e (ch_now ch) v (islandId r) (workData r) (departed e w c))"
    using allocate_worker_eq [OF l(2) _ l(3), of ch "islandId r"] l(6) False by auto
  then show ?thesis
    using False l(6) by (auto simp: l(1) allocate_island_work_def)
qed

theorem leave_reallocates_witness:
  "(''isl'', [65]) \<in> set (islandsWaitingForAlloc (snd (handle_leave demo_env demo_choice ''B'' st2)))"
proof -
  show ?thesis
    using leave_reallocates [OF st2_inv, of "''B''" "\<lparr>islandId = ''isl'', workData = [65]\<rparr>" demo_choice]
    by (simp add: st2_busy st2_free)
qed

text \<open>
  A preferred worker that is free gets the work that names it, and any other work goes to
  some free worker.
\<close>

theorem preferred_worker_is_used:
  assumes "ctl_ok e c" and "freeWorkersPool c \<noteq> []"
    and "vector_deserialize (e_work e) d = Inr x"
  shows "\<exists>w \<in> set (freeWorkersPool c).
      fst (allocate_worker_to_island e ch i d c) = Inr ()
      \<and> toWorkers (snd (allocate_worker_to_island e ch i d c)) = toWorkers c @ [(w, ALLOCATE_WORK, d)]
      \<and> (preferredWorkerId x \<in> set (freeWorkersPool c) \<longrightarrow> w = preferredWorkerId x)"
proof -
  have d: "readable_work e d" using assms(3) by (simp add: readable_work_def)
  obtain w where w: "w \<in> set (freeWorkersPool c)"
      "allocate_worker_to_island e ch i d c = (Inr (), assigned e (ch_now ch) w i d c)"
    using allocate_worker_eq [OF assms(1,2) d] by blast
  have "w = preferredWorkerId x" if p: "preferredWorkerId x \<in> set (freeWorkersPool c)"
  proof -
    have "toWorkers (snd (allocate_worker_to_island e ch i d c)) = toWorkers c @ [(preferredWorkerId x, ALLOCATE_WORK, d)]"
      using assms p by (auto simp: allocate_worker_to_island_def with_repo_eq ctl_ok_def Let_def
          sched_ok_def worker_started_work_def)
    then show ?thesis using w(2) by simp
  qed
  with w show ?thesis by auto
qed

theorem preferred_worker_is_used_witness:
  "toWorkers (snd (allocate_worker_to_island demo_env demo_choice ''isl'' [66]
     (demo_ctl\<lparr>freeWorkersPool := [''A'', ''B''], ct_settings := \<lparr>settingsPath = ''c.xml'',
        st_value = \<lparr>workerInfo = worker_joined ''A'' worker_info_new (worker_joined ''B'' worker_info_new worker_repo_new)\<rparr>,
        autoSave = True\<rparr>\<rparr>)))
   = [(''B'', ALLOCATE_WORK, [66])]"
proof -
  let ?c = "demo_ctl\<lparr>freeWorkersPool := [''A'', ''B''], ct_settings := \<lparr>settingsPath = ''c.xml'',
        st_value = \<lparr>workerInfo = worker_joined ''A'' worker_info_new (worker_joined ''B'' worker_info_new worker_repo_new)\<rparr>,
        autoSave = True\<rparr>\<rparr>"
  have "ctl_ok demo_env ?c"
    by (simp add: ctl_ok_def sched_ok_def islands_of_def outstanding_def jobs_def can_save_def joined_dom)
      (simp add: demo_ctl_def demo_disk_def)
  moreover have "vector_deserialize (e_work demo_env) [66]
      = Inr \<lparr>algo = (), pop = 1, preferredWorkerId = ''B'', cycleCount = 1\<rparr>"
    by (simp add: vector_deserialize_def demo_work) code_simp
  ultimately show ?thesis
    using preferred_worker_is_used [of demo_env ?c "[66]"] by fastforce
qed

lemma allocate_only:
  assumes "freeWorkersPool c = [w]" and "can_save c" and "w \<in> known c"
    and "map_contains w (workAllocationMap c)" and "readable_work e d"
  shows "\<exists>c'. allocate_worker_to_island e ch i d c = (Inr (), c')
    \<and> toWorkers c' = toWorkers c @ [(w, ALLOCATE_WORK, d)]
    \<and> workAllocationMap c' = workAllocationMap c \<and> islandsWaitingForAlloc c' = islandsWaitingForAlloc c"
proof -
  obtain x where x: "vector_deserialize (e_work e) d = Inr x"
    using assms(5) by (auto simp: readable_work_def is_ok_ex)
  have w: "(if preferredWorkerId x \<in> set (freeWorkersPool c) then preferredWorkerId x
      else begin_of (ch_free ch) (freeWorkersPool c)) = w"
    using assms(1) by simp
  have st: "fst (worker_started_work (ch_now ch) w (repo c)) = Inr ()"
    using assms(3) started_ok [of "ch_now ch" w "repo c"] by (simp add: is_ok_ex)
  show ?thesis
    using assms(1,2,4) st
    unfolding allocate_worker_to_island_def x sum.case Let_def w
    by (simp add: with_repo_eq)
qed

text \<open>
  C23: a worker that joins while it is busy loses work. If the join message of a busy worker
  arrives without a leave before it, the worker is listed as free and as busy; the next island's
  work is sent to it but the record of it is dropped, because the map keeps its old entry. The
  work is in no table any more, so no departure of the worker brings it back.
\<close>

theorem busy_join_loses_work:
  assumes "ctl_inv e c" and "map_of (workAllocationMap c) w = Some r"
    and "freeWorkersPool c = []" and "islandsWaitingForAlloc c = []" and "readable_work e d"
    and "c1 = snd (handle_join e ch w c)" and "c2 = snd (allocate_island_work e ch i d c1)"
  shows "w \<in> set (freeWorkersPool c1) \<inter> fst ` set (workAllocationMap c1)
    \<and> toWorkers c2 = toWorkers c @ [(w, ALLOCATE_WORK, d)]
    \<and> outstanding c2 = outstanding c"
proof -
  have sv: "can_save c" and busy: "map_contains w (workAllocationMap c)"
    using assms(1,2) by (simp_all add: ctl_inv_def ctl_ok_def map_contains_iff)
  have c1: "c1 = (set_repo e (worker_joined w worker_info_new (repo c)) c)\<lparr>freeWorkersPool := [w]\<rparr>"
    using assms(3,4) sv
    by (simp add: assms(6) handle_join_def with_repo_eq add_free_worker_def set_emplace_def)
  have "\<exists>c'. allocate_worker_to_island e ch i d c1 = (Inr (), c')
    \<and> toWorkers c' = toWorkers c1 @ [(w, ALLOCATE_WORK, d)]
    \<and> workAllocationMap c' = workAllocationMap c1 \<and> islandsWaitingForAlloc c' = islandsWaitingForAlloc c1"
    by (rule allocate_only [OF _ _ _ _ assms(5)]) (use sv busy in \<open>simp_all add: c1 joined_dom\<close>)
  then have "toWorkers c2 = toWorkers c @ [(w, ALLOCATE_WORK, d)] \<and> workAllocationMap c2 = workAllocationMap c
      \<and> islandsWaitingForAlloc c2 = []"
    using assms(4) by (auto simp: assms(7) c1 allocate_island_work_def)
  then show ?thesis
    using busy assms(4) by (simp add: c1 outstanding_def map_contains_def)
qed

theorem busy_join_loses_work_witness:
  "outstanding (snd (allocate_island_work demo_env demo_choice ''isl2'' [67]
     (snd (handle_join demo_env demo_choice ''B'' st2)))) = {#(''isl'', [65])#}"
  using busy_join_loses_work [OF st2_inv, of "''B''" "\<lparr>islandId = ''isl'', workData = [65]\<rparr>" "[67]" _ demo_choice
      _ "''isl2''", OF _ st2_free _ refl refl]
  by (simp add: st2_busy demo_readable outstanding_def jobs_def st2_free)

text \<open>
  C24: one unexpected result stops the server. Results from a known worker without an
  allocation (for example one that was taken for dead and came back) are counted in the
  statistics, then \<open>at\<close> throws, the server thread ends, and no later message has any effect.
\<close>

theorem unexpected_result_stops_server:
  assumes "can_save (ctrl s)" and "serving s" and "readable_work e b"
    and "map_of (workAllocationMap (ctrl s)) w = None"
  shows "\<not> serving (run_server e (Worker_msg ch w WORK_RESULTS b # evs) s)
    \<and> run_server e (Worker_msg ch w WORK_RESULTS b # evs) s
      = run_server e [Worker_msg ch w WORK_RESULTS b] s"
proof -
  obtain x where x: "vector_deserialize (e_work e) b = Inr x"
    using assms(3) by (auto simp: readable_work_def is_ok_ex)
  have "\<not> is_ok (fst (handle_results e ch w b (ctrl s)))"
    using assms(1,4)
    by (cases "fst (worker_finished_work (ch_now ch) w (e_pop_size e (pop x)) (e_algo_name e (algo x)) (repo (ctrl s)))")
      (simp_all add: handle_results_def x with_repo_eq map_at_def)
  then have stop: "\<not> serving (poll e (Worker_msg ch w WORK_RESULTS b) s)"
    using assms(2) by (simp add: poll_def case_prod_beta Let_def handle_workers_msg_def)
  have "run_server e evs t = t" if "\<not> serving t" for t
    using that by (induction evs) (simp_all add: poll_def)
  with stop show ?thesis by simp
qed

theorem unexpected_result_stops_server_witness:
  "\<not> serving (run_server demo_env [Worker_msg demo_choice ''B'' WORK_RESULTS [1], ev1] \<lparr>serving = True, ctrl = demo_ctl\<rparr>)"
  by (rule conjunct1 [OF unexpected_result_stops_server]) (simp_all add: demo_save demo_readable)

end
