(* ===== verification/Population_Tools.thy ===== *)
theory Population_Tools
  imports Complex_Main Prelude "HOL-Library.Multiset"
begin

text \<open>
  \<^verbatim>\<open>src/distributed/logic/include/population_tools.h\<close> and \<^verbatim>\<open>utils/include/number_utils.h\<close>: merging the
  populations of islands, selecting the best individuals, and printing vectors.

  pagmo is not code of the repository: its populations and the sorts it provides are the record
  \<open>pagmo\<close>, and \<open>pagmo_ok\<close> states what pagmo documents of them. A \<open>double\<close> is an element of a
  linear order (so not a NaN, for which \<open>std::sort\<close> is undefined).
\<close>

section \<open>What is used of pagmo\<close>

record ('prob, 'pop, 'd) pagmo =
  pg_new :: "'prob \<Rightarrow> nat \<Rightarrow> u32 \<Rightarrow> 'pop result"
  pg_set_x :: "nat \<Rightarrow> 'd list \<Rightarrow> 'pop \<Rightarrow> 'pop result"
  pg_x :: "'pop \<Rightarrow> 'd list list"
  pg_f :: "'pop \<Rightarrow> 'd list list"
  pg_problem :: "'pop \<Rightarrow> 'prob"
  pg_seed :: "'pop \<Rightarrow> u32"
  pg_nobj :: "'prob \<Rightarrow> nat"
  pg_nc :: "'prob \<Rightarrow> nat"
  pg_nec :: "'prob \<Rightarrow> nat"
  pg_c_tol :: "'prob \<Rightarrow> 'd list"
  pg_sort_con :: "'d list list \<Rightarrow> nat \<Rightarrow> 'd list \<Rightarrow> nat list result"
  pg_sort_mo :: "'d list list \<Rightarrow> nat list result"

section \<open>Sorting and resizing indexes\<close>

text \<open>
  \<open>std::sort\<close> promises a sorted permutation and no order among equivalent elements. \<open>ties\<close>
  rearranges the input before a stable sort: for every sorted permutation there is one that
  yields it (\<open>std_sort_any\<close>).
\<close>

definition std_sort :: "('i list \<Rightarrow> 'i list) \<Rightarrow> ('i \<Rightarrow> 'k::linorder) \<Rightarrow> 'i list \<Rightarrow> 'i list" where
  "std_sort ties key xs = sort_key key (ties xs)"

text \<open>\<open>std::vector::resize\<close> for a vector of indexes: new elements are zero.\<close>

definition resize :: "nat \<Rightarrow> nat list \<Rightarrow> nat list" where
  "resize n xs = take n xs @ replicate (n - length xs) 0"

section \<open>The functions of the header\<close>

fun merge_loop :: "('prob, 'pop, 'd) pagmo \<Rightarrow> 'pop list \<Rightarrow> 'd list list \<Rightarrow> 'd list list \<Rightarrow> 'd list list \<times> 'd list list" where
  "merge_loop pg [] allPopulations allFitnesses = (allPopulations, allFitnesses)"
| "merge_loop pg (island # archi) allPopulations allFitnesses =
     merge_loop pg archi (allPopulations @ pg_x pg island) (allFitnesses @ pg_f pg island)"

definition merge_populations :: "('prob, 'pop, 'd) pagmo \<Rightarrow> 'pop list \<Rightarrow> 'd list list \<times> 'd list list" where
  "merge_populations pg archi = merge_loop pg archi [] []"

definition select_best_N_so ::
  "('prob, 'pop, 'd::linorder) pagmo \<Rightarrow> (nat list \<Rightarrow> nat list) \<Rightarrow> 'prob \<Rightarrow> 'd list list \<Rightarrow> nat \<Rightarrow> nat list result" where
  "select_best_N_so pg ties prob fitness N =
    (if pg_nc pg prob = 0
     then if 2 \<le> length fitness \<and> [] \<in> set fitness
          then Inl (Undefined_behaviour ''fitness[a][0] of an empty vector'')
          else Inr (resize N (std_sort ties (\<lambda>a. fitness ! a ! 0) [0..<length fitness]))
     else map_sum id (resize N) (pg_sort_con pg fitness (pg_nec pg prob) (pg_c_tol pg prob)))"

fun fill_selected ::
  "('prob, 'pop, 'd) pagmo \<Rightarrow> 'd list list \<Rightarrow> nat \<Rightarrow> nat list \<Rightarrow> 'pop \<Rightarrow> 'pop result" where
  "fill_selected pg allPopulations i [] newPop = Inr newPop"
| "fill_selected pg allPopulations i (idx # rest) newPop =
     bind_result (vec_index allPopulations idx)
       (\<lambda>x. bind_result (pg_set_x pg i x newPop) (fill_selected pg allPopulations (Suc i) rest))"

definition build_new_population ::
  "('prob, 'pop, 'd) pagmo \<Rightarrow> u32 \<Rightarrow> 'prob \<Rightarrow> 'd list list \<Rightarrow> nat list \<Rightarrow> u32 option \<Rightarrow> 'pop result" where
  "build_new_population pg rnd prob allPopulations selectedIndexes seed =
     bind_result (pg_new pg prob (length selectedIndexes) (case seed of Some s \<Rightarrow> s | None \<Rightarrow> rnd))
       (fill_selected pg allPopulations 0 selectedIndexes)"

definition get_best_N_individuals_indexes ::
  "('prob, 'pop, 'd::linorder) pagmo \<Rightarrow> (nat list \<Rightarrow> nat list) \<Rightarrow> 'prob \<Rightarrow> 'd list list \<Rightarrow> nat \<Rightarrow> nat list result" where
  "get_best_N_individuals_indexes pg ties prob allFitness N =
    (if 1 < pg_nobj pg prob
     then map_sum id (\<lambda>sortedIndexes. take (min N (length sortedIndexes)) sortedIndexes) (pg_sort_mo pg allFitness)
     else select_best_N_so pg ties prob allFitness N)"

definition select_best_N_into_new_population ::
  "('prob, 'pop, 'd::linorder) pagmo \<Rightarrow> (nat list \<Rightarrow> nat list) \<Rightarrow> u32 \<Rightarrow> 'prob \<Rightarrow> 'd list list \<Rightarrow> 'd list list
     \<Rightarrow> nat \<Rightarrow> u32 option \<Rightarrow> 'pop result" where
  "select_best_N_into_new_population pg ties rnd prob allPopulations allFitness N seed =
     bind_result (get_best_N_individuals_indexes pg ties prob allFitness N)
       (\<lambda>idx. build_new_population pg rnd prob allPopulations idx seed)"

definition select_best_N_individuals ::
  "('prob, 'pop, 'd::linorder) pagmo \<Rightarrow> (nat list \<Rightarrow> nat list) \<Rightarrow> 'prob \<Rightarrow> 'd list list \<Rightarrow> 'd list list
     \<Rightarrow> nat \<Rightarrow> 'd list list result" where
  "select_best_N_individuals pg ties prob allPopulations allFitness N =
     bind_result (get_best_N_individuals_indexes pg ties prob allFitness N)
       (map_result (vec_index allPopulations))"

definition select_best_individual ::
  "('prob, 'pop, 'd::linorder) pagmo \<Rightarrow> (nat list \<Rightarrow> nat list) \<Rightarrow> 'prob \<Rightarrow> 'd list list \<Rightarrow> 'd list list
     \<Rightarrow> 'd list result" where
  "select_best_individual pg ties prob allPopulations allFitness =
     bind_result (select_best_N_individuals pg ties prob allPopulations allFitness 1) (\<lambda>v. vec_at v 0)"

text \<open>Printing; \<open>num\<close> is \<open>std::to_string\<close> of a double.\<close>

fun str_loop :: "('d \<Rightarrow> string) \<Rightarrow> 'd list \<Rightarrow> string \<Rightarrow> string" where
  "str_loop num [] out = out"
| "str_loop num (n # vec) out = str_loop num vec (out @ num n @ '', '')"

definition double_vector_to_str :: "('d \<Rightarrow> string) \<Rightarrow> 'd list \<Rightarrow> string result" where
  "double_vector_to_str num vec =
    (let out = butlast (str_loop num vec ''['')
     in if out = [] then Inl (Undefined_behaviour ''back() of an empty string'')
        else Inr (butlast out @ '']''))"

fun csv_loop :: "('d \<Rightarrow> string) \<Rightarrow> 'd list \<Rightarrow> nat \<Rightarrow> nat \<Rightarrow> string \<Rightarrow> string" where
  "csv_loop num [] i n out = out"
| "csv_loop num (x # vec) i n out =
     csv_loop num vec (Suc i) n (out @ num x @ (if i + 1 < n then '';'' else ''''))"

definition double_vector_to_csv :: "('d \<Rightarrow> string) \<Rightarrow> 'd list \<Rightarrow> string" where
  "double_vector_to_csv num vec = csv_loop num vec 0 (length vec) [CHR 0x22] @ [CHR 0x22]"

section \<open>Numbers\<close>

text \<open>
  A \<open>double\<close> that is calculated with is a rational number, and \<open>rnd\<close> rounds the result of a
  conversion or an operation to one that is representable.
\<close>

definition safe_divide :: "(rat \<Rightarrow> rat) \<Rightarrow> u64 \<Rightarrow> u64 \<Rightarrow> rat \<Rightarrow> rat" where
  "safe_divide rnd a b fallback =
    (if 0 < b then rnd (rnd (of_nat (unat a)) / rnd (of_nat (unat b))) else fallback)"

definition ceil_to_multiple :: "u64 \<Rightarrow> u64 \<Rightarrow> u64 result" where
  "ceil_to_multiple input multiple =
    (if multiple = 0 then Inl (Undefined_behaviour ''remainder by zero'')
     else let rem = input mod multiple
          in if rem = 0 then Inr input else Inr (input + (multiple - rem)))"

section \<open>What pagmo documents\<close>

definition pagmo_ok :: "('prob, 'pop, 'd) pagmo \<Rightarrow> bool" where
  "pagmo_ok pg \<longleftrightarrow>
     (\<forall>p n s q. pg_new pg p n s = Inr q \<longrightarrow> length (pg_x pg q) = n \<and> pg_problem pg q = p \<and> pg_seed pg q = s)
   \<and> (\<forall>i x q q'. pg_set_x pg i x q = Inr q' \<longrightarrow>
        i < length (pg_x pg q) \<and> pg_x pg q' = (pg_x pg q)[i := x] \<and> pg_problem pg q' = pg_problem pg q
        \<and> pg_seed pg q' = pg_seed pg q)
   \<and> (\<forall>q. length (pg_f pg q) = length (pg_x pg q) \<and> [] \<notin> set (pg_f pg q))
   \<and> (\<forall>fs nec tol idx. pg_sort_con pg fs nec tol = Inr idx \<longrightarrow> mset idx = mset [0..<length fs])
   \<and> (\<forall>fs idx. pg_sort_mo pg fs = Inr idx \<longrightarrow> mset idx = mset [0..<length fs])"

text \<open>
  A problem whose fitness function does not throw: populations can be made, vectors of the
  right dimension (\<open>fits\<close>) can be put into them, and the merged fitnesses of populations of one
  problem can be sorted.
\<close>

definition pagmo_total :: "('prob, 'pop, 'd) pagmo \<Rightarrow> ('prob \<Rightarrow> 'd list \<Rightarrow> bool) \<Rightarrow> bool" where
  "pagmo_total pg fits \<longleftrightarrow>
     (\<forall>p n s. is_ok (pg_new pg p n s))
   \<and> (\<forall>p qs. (\<forall>q \<in> set qs. pg_problem pg q = p) \<longrightarrow>
        is_ok (pg_sort_con pg (concat (map (pg_f pg) qs)) (pg_nec pg p) (pg_c_tol pg p))
        \<and> is_ok (pg_sort_mo pg (concat (map (pg_f pg) qs))))
   \<and> (\<forall>i x q. i < length (pg_x pg q) \<and> fits (pg_problem pg q) x \<longrightarrow> is_ok (pg_set_x pg i x q))
   \<and> (\<forall>q. \<forall>x \<in> set (pg_x pg q). fits (pg_problem pg q) x)"

definition rearranges :: "('i list \<Rightarrow> 'i list) \<Rightarrow> bool" where
  "rearranges ties \<longleftrightarrow> (\<forall>xs. mset (ties xs) = mset xs)"

lemma pagmo_newD:
  "pagmo_ok pg \<Longrightarrow> pg_new pg p n s = Inr q
     \<Longrightarrow> length (pg_x pg q) = n \<and> pg_problem pg q = p \<and> pg_seed pg q = s"
  unfolding pagmo_ok_def by blast

lemma pagmo_setD:
  "pagmo_ok pg \<Longrightarrow> pg_set_x pg i x q = Inr q'
     \<Longrightarrow> i < length (pg_x pg q) \<and> pg_x pg q' = (pg_x pg q)[i := x] \<and> pg_problem pg q' = pg_problem pg q
       \<and> pg_seed pg q' = pg_seed pg q"
  unfolding pagmo_ok_def by blast

lemma pagmo_lengthD: "pagmo_ok pg \<Longrightarrow> length (pg_f pg q) = length (pg_x pg q)"
  unfolding pagmo_ok_def by blast

lemma pagmo_fitnessD: "pagmo_ok pg \<Longrightarrow> [] \<notin> set (pg_f pg q)"
  unfolding pagmo_ok_def by blast

lemma pagmo_moD: "pagmo_ok pg \<Longrightarrow> pg_sort_mo pg fs = Inr idx \<Longrightarrow> mset idx = mset [0..<length fs]"
  unfolding pagmo_ok_def by blast

lemma pagmo_conD: "pagmo_ok pg \<Longrightarrow> pg_sort_con pg fs nec tol = Inr idx \<Longrightarrow> mset idx = mset [0..<length fs]"
  unfolding pagmo_ok_def by blast

lemma pagmo_total_new: "pagmo_total pg fits \<Longrightarrow> \<exists>q. pg_new pg p n s = Inr q"
  unfolding pagmo_total_def is_ok_ex by blast

lemma pagmo_total_sort:
  assumes "pagmo_total pg fits" and "\<forall>q \<in> set qs. pg_problem pg q = p"
  shows "\<exists>idx. pg_sort_con pg (concat (map (pg_f pg) qs)) (pg_nec pg p) (pg_c_tol pg p) = Inr idx"
    and "\<exists>idx. pg_sort_mo pg (concat (map (pg_f pg) qs)) = Inr idx"
  using assms unfolding pagmo_total_def is_ok_ex by blast+

lemma pagmo_total_set:
  "pagmo_total pg fits \<Longrightarrow> i < length (pg_x pg q) \<Longrightarrow> fits (pg_problem pg q) x
     \<Longrightarrow> \<exists>q'. pg_set_x pg i x q = Inr q'"
  unfolding pagmo_total_def is_ok_ex by blast

lemma pagmo_total_member: "pagmo_total pg fits \<Longrightarrow> x \<in> set (pg_x pg q) \<Longrightarrow> fits (pg_problem pg q) x"
  unfolding pagmo_total_def by blast

section \<open>Sorting, resizing, merging\<close>

lemma std_sort_mset: "rearranges ties \<Longrightarrow> mset (std_sort ties key xs) = mset xs"
  by (simp add: std_sort_def rearranges_def)

lemma std_sort_sorted: "sorted (map key (std_sort ties key xs))"
  by (simp add: std_sort_def)

lemma std_sort_any:
  assumes "mset ys = mset xs" and "sorted (map key ys)"
  shows "\<exists>ties. rearranges ties \<and> std_sort ties key xs = ys"
proof (intro exI conjI)
  show "rearranges (\<lambda>zs. if zs = xs then ys else zs)" using assms(1) by (simp add: rearranges_def)
  show "std_sort (\<lambda>zs. if zs = xs then ys else zs) key xs = ys"
    using assms(2) by (simp add: std_sort_def sort_key_id_if_sorted)
qed

lemma length_resize [simp]: "length (resize n xs) = n"
  by (auto simp: resize_def)

lemma resize_take: "n \<le> length xs \<Longrightarrow> resize n xs = take n xs"
  by (simp add: resize_def)

lemma merge_loop_eq:
  "merge_loop pg archi xs fs = (xs @ concat (map (pg_x pg) archi), fs @ concat (map (pg_f pg) archi))"
  by (induction archi arbitrary: xs fs) auto

lemma merge_populations_eq:
  "merge_populations pg archi = (concat (map (pg_x pg) archi), concat (map (pg_f pg) archi))"
  by (simp add: merge_populations_def merge_loop_eq)

lemma merged_lengths:
  "pagmo_ok pg \<Longrightarrow> length (concat (map (pg_f pg) archi)) = length (concat (map (pg_x pg) archi))"
  by (induction archi) (auto simp: pagmo_lengthD)

lemma set_of_indexes: "mset idx = mset [0..<n] \<Longrightarrow> set idx = {..<n} \<and> distinct idx \<and> length idx = n"
  by (metis atLeast0LessThan atLeastLessThan_upt distinct_upt length_upt minus_nat.diff_0
        mset_eq_imp_distinct_iff mset_eq_length mset_eq_setD)

section \<open>The selection\<close>

text \<open>\<open>N\<close> different indexes below \<open>n\<close>, in ascending order of the key, none left out that is better.\<close>

definition best_of :: "(nat \<Rightarrow> 'k::linorder) \<Rightarrow> nat \<Rightarrow> nat \<Rightarrow> nat list \<Rightarrow> bool" where
  "best_of key n N idx \<longleftrightarrow> distinct idx \<and> set idx \<subseteq> {..<n} \<and> length idx = N \<and> sorted (map key idx)
     \<and> (\<forall>i < n. i \<notin> set idx \<longrightarrow> (\<forall>j \<in> set idx. key j \<le> key i))"

lemma best_of_sort:
  assumes "rearranges ties" and "N \<le> n"
  shows "best_of key n N (take N (std_sort ties key [0..<n]))"
proof -
  let ?s = "std_sort ties key [0..<n]"
  have idx: "set ?s = {..<n}" "distinct ?s" "length ?s = n"
    using set_of_indexes [OF std_sort_mset [OF assms(1)]] by auto
  have "sorted (map key (take N ?s @ drop N ?s))" by (simp add: std_sort_sorted)
  then have split: "sorted (map key (take N ?s))" "\<forall>j \<in> set (take N ?s). \<forall>i \<in> set (drop N ?s). key j \<le> key i"
    unfolding map_append sorted_append by auto
  have "i \<in> set (drop N ?s)" if "i < n" and "i \<notin> set (take N ?s)" for i
    using that idx(1) by (metis Un_iff append_take_drop_id lessThan_iff set_append)
  then show ?thesis
    using idx split assms(2) set_take_subset [of N ?s] unfolding best_of_def by auto
qed

lemma fill_selected_eq:
  assumes "pagmo_ok pg"
  shows "fill_selected pg xs i idx q = Inr q' \<Longrightarrow> i + length idx = length (pg_x pg q) \<Longrightarrow>
    pg_x pg q' = take i (pg_x pg q) @ map ((!) xs) idx \<and> pg_problem pg q' = pg_problem pg q
    \<and> pg_seed pg q' = pg_seed pg q"
proof (induction idx arbitrary: i q)
  case (Cons a idx)
  then obtain q1 where q1: "pg_set_x pg i (xs ! a) q = Inr q1" "fill_selected pg xs (Suc i) idx q1 = Inr q'"
    by (auto simp: bind_result_Inr)
  note set = pagmo_setD [OF assms q1(1)]
  then have "pg_x pg q' = take (Suc i) (pg_x pg q1) @ map ((!) xs) idx \<and> pg_problem pg q' = pg_problem pg q1
      \<and> pg_seed pg q' = pg_seed pg q1"
    using Cons.IH [OF q1(2)] Cons.prems(2) by simp
  then show ?case using set by (simp add: take_Suc_conv_app_nth)
qed simp

lemma build_new_population_eq:
  "pagmo_ok pg \<Longrightarrow> build_new_population pg rnd prob xs idx seed = Inr q
     \<Longrightarrow> pg_x pg q = map ((!) xs) idx \<and> pg_problem pg q = prob"
  unfolding build_new_population_def bind_result_Inr
  using pagmo_newD [of pg prob "length idx"] fill_selected_eq [of pg xs 0 idx] by fastforce

lemma map_result_index:
  "set idx \<subseteq> {..<length xs} \<Longrightarrow> map_result (vec_index xs) idx = Inr (map ((!) xs) idx)"
  unfolding map_result_Inr by (induction idx) auto

lemma fill_selected_ok:
  assumes "pagmo_ok pg" and "pagmo_total pg fits"
  shows "i + length idx = length (pg_x pg q) \<Longrightarrow> set idx \<subseteq> {..<length xs}
    \<Longrightarrow> \<forall>x \<in> set xs. fits (pg_problem pg q) x \<Longrightarrow> \<exists>q'. fill_selected pg xs i idx q = Inr q'"
proof (induction idx arbitrary: i q)
  case (Cons a idx)
  obtain q1 where q1: "pg_set_x pg i (xs ! a) q = Inr q1"
    using pagmo_total_set [OF assms(2), of i q "xs ! a"] Cons.prems by auto
  then have "length (pg_x pg q1) = length (pg_x pg q)" "pg_problem pg q1 = pg_problem pg q"
    using pagmo_setD [OF assms(1) q1] by auto
  then show ?case using Cons q1 by (simp add: vec_index_def)
qed simp

lemma build_new_population_ok:
  assumes "pagmo_ok pg" and "pagmo_total pg fits" and "set idx \<subseteq> {..<length xs}"
    and "\<forall>x \<in> set xs. fits prob x"
  shows "\<exists>q. build_new_population pg rnd prob xs idx seed = Inr q"
proof -
  obtain q where q: "pg_new pg prob (length idx) (case seed of Some s \<Rightarrow> s | None \<Rightarrow> rnd) = Inr q"
    using pagmo_total_new [OF assms(2)] by blast
  then show ?thesis
    using fill_selected_ok [OF assms(1,2), of 0 idx q xs] pagmo_newD [OF assms(1) q] assms(3,4)
    by (simp add: build_new_population_def)
qed

lemma so_indexes:
  assumes "pg_nc pg prob = 0" and "pg_nobj pg prob \<le> 1" and "[] \<notin> set fs"
  shows "get_best_N_individuals_indexes pg ties prob fs N
    = Inr (resize N (std_sort ties (\<lambda>a. fs ! a ! 0) [0..<length fs]))"
  using assms by (simp add: get_best_N_individuals_indexes_def select_best_N_so_def)

lemma so_indexes_cases:
  assumes "pagmo_ok pg" and "rearranges ties" and "pg_nobj pg prob \<le> 1"
    and "get_best_N_individuals_indexes pg ties prob fs N = Inr idx"
  shows "\<exists>s. mset s = mset [0..<length fs] \<and> idx = resize N s"
proof (cases "pg_nc pg prob = 0")
  case True
  then have "idx = resize N (std_sort ties (\<lambda>a. fs ! a ! 0) [0..<length fs])"
    using assms(3,4) by (auto simp: get_best_N_individuals_indexes_def select_best_N_so_def split: if_splits)
  then show ?thesis using std_sort_mset [OF assms(2)] by blast
next
  case False
  then obtain s where s: "pg_sort_con pg fs (pg_nec pg prob) (pg_c_tol pg prob) = Inr s" "idx = resize N s"
    using assms(3,4) by (auto simp: get_best_N_individuals_indexes_def select_best_N_so_def map_sum_Inr)
  show ?thesis using pagmo_conD [OF assms(1) s(1)] s(2) by blast
qed

lemma selection_indexes:
  assumes "pagmo_ok pg" and "rearranges ties" and "N \<le> length fs" and "[] \<notin> set fs"
    and "get_best_N_individuals_indexes pg ties prob fs N = Inr idx"
  shows "distinct idx \<and> set idx \<subseteq> {..<length fs} \<and> length idx = N"
    and "pg_nobj pg prob \<le> 1 \<Longrightarrow> pg_nc pg prob = 0 \<Longrightarrow> best_of (\<lambda>i. fs ! i ! 0) (length fs) N idx"
proof -
  have taken: "\<exists>s. mset s = mset [0..<length fs] \<and> idx = take N s"
  proof (cases "1 < pg_nobj pg prob")
    case True
    with assms(5) obtain s where s: "pg_sort_mo pg fs = Inr s" "idx = take (min N (length s)) s"
      by (auto simp: get_best_N_individuals_indexes_def map_sum_Inr)
    show ?thesis using pagmo_moD [OF assms(1) s(1)] set_of_indexes [OF pagmo_moD [OF assms(1) s(1)]] s(2) assms(3)
      by (metis min.absorb1)
  next
    case False
    then obtain s where "mset s = mset [0..<length fs]" "idx = resize N s"
      using so_indexes_cases [OF assms(1,2) _ assms(5)] by auto
    then show ?thesis using assms(3) set_of_indexes resize_take by metis
  qed
  then obtain s where s: "mset s = mset [0..<length fs]" "idx = take N s" by blast
  show "distinct idx \<and> set idx \<subseteq> {..<length fs} \<and> length idx = N"
    using set_of_indexes [OF s(1)] assms(3) set_take_subset [of N s] by (auto simp: s(2))
  show "best_of (\<lambda>i. fs ! i ! 0) (length fs) N idx" if "pg_nobj pg prob \<le> 1" and "pg_nc pg prob = 0"
  proof -
    have "length (std_sort ties (\<lambda>a. fs ! a ! 0) [0..<length fs]) = length fs"
      using set_of_indexes [OF std_sort_mset [OF assms(2)]] by blast
    then have "idx = take N (std_sort ties (\<lambda>a. fs ! a ! 0) [0..<length fs])"
      using so_indexes [OF that(2,1) assms(4), of ties N] assms(3,5) resize_take by simp
    then show ?thesis using best_of_sort [OF assms(2,3)] by simp
  qed
qed

text \<open>
  Any number of wanted individuals: with one objective a list that is too short is filled up with
  zeros, with several it stays short.
\<close>

lemma padded_selection:
  assumes "pagmo_ok pg" and "rearranges ties" and "[] \<notin> set fs"
    and "get_best_N_individuals_indexes pg ties prob fs N = Inr idx"
  shows "\<exists>chosen. idx = chosen @ (if pg_nobj pg prob \<le> 1 then replicate (N - length fs) 0 else [])
    \<and> distinct chosen \<and> set chosen \<subseteq> {..<length fs} \<and> length chosen = min N (length fs)
    \<and> (pg_nobj pg prob \<le> 1 \<and> pg_nc pg prob = 0 \<longrightarrow> best_of (\<lambda>i. fs ! i ! 0) (length fs) (min N (length fs)) chosen)"
proof (cases "N \<le> length fs")
  case True
  then show ?thesis using selection_indexes [OF assms(1,2) True assms(3,4)] by (auto simp: min_def)
next
  case False
  then have more: "min N (length fs) = length fs" by simp
  show ?thesis
  proof (cases "pg_nobj pg prob \<le> 1")
    case True
    let ?sort = "std_sort ties (\<lambda>a. fs ! a ! 0) [0..<length fs]"
    obtain s where s: "mset s = mset [0..<length fs]" "idx = resize N s" "pg_nc pg prob = 0 \<Longrightarrow> s = ?sort"
    proof (cases "pg_nc pg prob = 0")
      case nc: True
      then have "idx = resize N ?sort" using so_indexes [OF nc True assms(3)] assms(4) by simp
      then show ?thesis using that [OF std_sort_mset [OF assms(2)]] by blast
    next
      case False
      obtain s where "mset s = mset [0..<length fs]" "idx = resize N s"
        using so_indexes_cases [OF assms(1,2) True assms(4)] by blast
      with False show ?thesis using that [of s] by simp
    qed
    have perm: "set s = {..<length fs}" "distinct s" "length s = length fs" using set_of_indexes [OF s(1)] by blast+
    have "best_of (\<lambda>i. fs ! i ! 0) (length fs) (length fs) s" if "pg_nc pg prob = 0"
      using best_of_sort [OF assms(2), of "length fs" "length fs" "\<lambda>i. fs ! i ! 0"] s(3) [OF that] perm(3) by simp
    then show ?thesis using True False s(2) perm unfolding more by (intro exI [of _ s]) (simp add: resize_def)
  next
    case many: False
    then obtain s where s: "pg_sort_mo pg fs = Inr s" "idx = take (min N (length s)) s"
      using assms(4) by (auto simp: get_best_N_individuals_indexes_def map_sum_Inr)
    then show ?thesis
      using many False set_of_indexes [OF pagmo_moD [OF assms(1) s(1)]] unfolding more by (intro exI [of _ s]) simp
  qed
qed

lemma selection_ok:
  assumes "pagmo_total pg fits" and "\<forall>q \<in> set qs. pg_problem pg q = prob" and "pagmo_ok pg"
  shows "\<exists>idx. get_best_N_individuals_indexes pg ties prob (concat (map (pg_f pg) qs)) N = Inr idx"
proof -
  have "[] \<notin> set (concat (map (pg_f pg) qs))" using pagmo_fitnessD [OF assms(3)] by auto
  then show ?thesis
    using pagmo_total_sort [OF assms(1,2)]
    by (auto simp: get_best_N_individuals_indexes_def select_best_N_so_def)
qed

section \<open>Properties\<close>

text \<open>
  C30: the selection takes the best. For an unconstrained problem with one objective and at most
  as many wanted individuals as there are, there are \<open>N\<close> different indexes, in ascending order of
  fitness and with nothing better left out, such that \<open>select_best_N_individuals\<close> gives exactly
  those individuals and the population built by \<open>select_best_N_into_new_population\<close> holds them in
  the same order, whatever order \<open>std::sort\<close> gives to equal fitnesses.
\<close>

theorem best_are_selected:
  assumes "pagmo_ok pg" and "rearranges ties" and "pg_nc pg prob = 0" and "pg_nobj pg prob \<le> 1"
    and "[] \<notin> set fs" and "length xs = length fs" and "N \<le> length fs"
  shows "\<exists>idx. best_of (\<lambda>i. fs ! i ! 0) (length fs) N idx
    \<and> select_best_N_individuals pg ties prob xs fs N = Inr (map ((!) xs) idx)
    \<and> (\<forall>q. select_best_N_into_new_population pg ties rnd prob xs fs N seed = Inr q
          \<longrightarrow> pg_x pg q = map ((!) xs) idx)"
proof (intro exI conjI allI impI)
  let ?idx = "take N (std_sort ties (\<lambda>a. fs ! a ! 0) [0..<length fs])"
  have len: "length (std_sort ties (\<lambda>a. fs ! a ! 0) [0..<length fs]) = length fs"
    using set_of_indexes [OF std_sort_mset [OF assms(2)]] by blast
  have idx: "get_best_N_individuals_indexes pg ties prob fs N = Inr ?idx"
    using so_indexes [OF assms(3-5), of ties N] assms(7) len by (simp add: resize_take)
  show best: "best_of (\<lambda>i. fs ! i ! 0) (length fs) N ?idx"
    by (rule best_of_sort [OF assms(2,7)])
  show "select_best_N_individuals pg ties prob xs fs N = Inr (map ((!) xs) ?idx)"
    using best assms(6) idx unfolding best_of_def
    by (simp add: select_best_N_individuals_def map_result_index)
  show "pg_x pg q = map ((!) xs) ?idx"
    if "select_best_N_into_new_population pg ties rnd prob xs fs N seed = Inr q" for q
    using that idx build_new_population_eq [OF assms(1)]
    by (auto simp: select_best_N_into_new_population_def)
qed

text \<open>
  A selection of more individuals than there are. With one objective, \<open>resize\<close> fills the list
  of indexes with zeros, so the result has \<open>N\<close> members, all individuals and then copies of the
  first one, however bad it is; with several objectives the result is just the individuals that
  exist, and a population made of it is smaller than asked for.
\<close>

theorem short_selection:
  assumes "pagmo_ok pg" and "rearranges ties" and "length xs = length fs" and "length fs < N" and "xs \<noteq> []"
    and "select_best_N_individuals pg ties prob xs fs N = Inr ys"
  shows "(pg_nobj pg prob \<le> 1 \<longrightarrow>
            (\<exists>idx. mset idx = mset [0..<length xs]
               \<and> ys = map ((!) xs) idx @ replicate (N - length xs) (xs ! 0)))
       \<and> (1 < pg_nobj pg prob \<longrightarrow> mset ys = mset xs)"
proof (intro conjI impI)
  obtain idx where idx: "get_best_N_individuals_indexes pg ties prob fs N = Inr idx"
      "map_result (vec_index xs) idx = Inr ys"
    using assms(6) by (auto simp: select_best_N_individuals_def bind_result_Inr)
  show "mset ys = mset xs" if many: "1 < pg_nobj pg prob"
  proof -
    obtain s where s: "pg_sort_mo pg fs = Inr s" "idx = take (min N (length s)) s"
      using idx(1) many by (auto simp: get_best_N_individuals_indexes_def map_sum_Inr)
    note perm = pagmo_moD [OF assms(1) s(1)] and facts = set_of_indexes [OF pagmo_moD [OF assms(1) s(1)]]
    have "ys = map ((!) xs) s" using idx(2) s(2) facts assms(3,4) map_result_index [of s xs] by auto
    then have "mset ys = image_mset ((!) xs) (mset [0..<length xs])" using perm assms(3) by simp
    then show ?thesis by (metis map_nth mset_map)
  qed
  show "\<exists>idx. mset idx = mset [0..<length xs] \<and> ys = map ((!) xs) idx @ replicate (N - length xs) (xs ! 0)"
    if one: "pg_nobj pg prob \<le> 1"
  proof -
    obtain s where s: "mset s = mset [0..<length fs]" "idx = resize N s"
      using so_indexes_cases [OF assms(1,2) one idx(1)] by blast
    have facts: "set s = {..<length fs}" "length s = length fs" using set_of_indexes [OF s(1)] by blast+
    have padded: "idx = s @ replicate (N - length xs) 0"
      using s(2) facts assms(3,4) by (simp add: resize_def)
    have "0 < length xs" using assms(5) by simp
    then have "set idx \<subseteq> {..<length xs}"
      using facts(1) unfolding padded assms(3) by (auto simp only: set_append set_replicate_conv_if split: if_splits)
    then have "ys = map ((!) xs) idx" using idx(2) map_result_index by fastforce
    then have "ys = map ((!) xs) s @ replicate (N - length xs) (xs ! 0)" using padded by simp
    then show ?thesis using s(1) assms(3) by auto
  qed
qed

text \<open>
  A small pagmo: a problem is its number of objectives, the fitness of a vector is
  its sum, new populations hold zeros.
\<close>

definition demo_pagmo :: "(nat, nat \<times> int list list \<times> u32, int) pagmo" where
  "demo_pagmo = \<lparr>pg_new = (\<lambda>p n s. Inr (p, replicate n [0], s)),
     pg_set_x = (\<lambda>i x (p, xs, s). if i < length xs then Inr (p, xs[i := x], s)
                   else Inl (Invalid_argument ''set_x'')),
     pg_x = (\<lambda>(p, xs, s). xs), pg_f = (\<lambda>(p, xs, s). map (\<lambda>x. [sum_list x]) xs), pg_problem = fst, pg_seed = snd \<circ> snd,
     pg_nobj = (\<lambda>p. p), pg_nc = (\<lambda>p. 0), pg_nec = (\<lambda>p. 0), pg_c_tol = (\<lambda>p. []),
     pg_sort_con = (\<lambda>fs nec tol. Inr (sort_key (\<lambda>i. fs ! i ! 0) [0..<length fs])),
     pg_sort_mo = (\<lambda>fs. Inr (sort_key (\<lambda>i. fs ! i ! 0) [0..<length fs]))\<rparr>"

lemma demo_pagmo_ok: "pagmo_ok demo_pagmo"
  by (auto simp: pagmo_ok_def demo_pagmo_def split: if_splits)

lemma demo_pagmo_total: "pagmo_total demo_pagmo (\<lambda>p x. True)"
  by (auto simp: pagmo_total_def demo_pagmo_def)

lemma rearranges_id: "rearranges (\<lambda>xs. xs)" and rearranges_rev: "rearranges rev"
  by (simp_all add: rearranges_def)

lemma demo_pagmo_counts: "pg_nc demo_pagmo p = 0" "pg_nobj demo_pagmo p = p"
  by (simp_all add: demo_pagmo_def)

theorem best_are_selected_witness:
  "\<exists>idx. best_of (\<lambda>i. [[5], [1], [3 :: int]] ! i ! 0) (length [[5], [1], [3 :: int]]) 2 idx
    \<and> select_best_N_individuals demo_pagmo rev 1 [[5], [1], [3]] [[5], [1], [3]] 2 = Inr (map ((!) [[5], [1], [3]]) idx)"
proof -
  have "[] \<notin> set [[5], [1], [3 :: int]]" "2 \<le> length [[5], [1], [3 :: int]]" by simp_all
  from best_are_selected [OF demo_pagmo_ok rearranges_rev demo_pagmo_counts(1) _ this(1) refl this(2), of 1]
  show ?thesis unfolding demo_pagmo_counts by blast
qed

lemma demo_short: "select_best_N_individuals demo_pagmo (\<lambda>xs. xs) 1 [[9], [1]] [[9], [1]] 4 = Inr [[1], [9], [9], [9]]"
  by (simp add: select_best_N_individuals_def get_best_N_individuals_indexes_def select_best_N_so_def
      demo_pagmo_def resize_def std_sort_def vec_index_def upt_rec numeral_2_eq_2)

theorem short_selection_witness:
  "\<exists>idx. mset idx = mset [0..<2]
     \<and> [[1], [9], [9], [9 :: int]] = map ((!) [[9], [1]]) idx @ replicate 2 [9]"
  using short_selection [OF demo_pagmo_ok rearranges_id _ _ _ demo_short] demo_pagmo_counts
  by (simp add: eval_nat_numeral)

end
