(* ===== verification/Worker.thy ===== *)
theory Worker
  imports Population_Tools Messages Settings
begin

text \<open>
  \<^verbatim>\<open>src/distributed/logic/include/distributed_worker.h\<close> and \<^verbatim>\<open>distributed_worker.cpp\<close>: the
  client that receives work from the controller, runs it on a thread of its own and sends the
  results back.

  The process has two threads. The main one handles the messages of the two sockets (the
  controller's and the one the worker thread talks to); the other reads the work, which may need
  a library from the controller, runs the algorithm and reports. They share nothing but the
  messages in \<open>wk_from_thread\<close> and \<open>wk_to_thread\<close>, so a run of the process is a sequence of the
  steps of either, \<open>worker_step\<close>.

  Reading a work container may call \<open>get_dll_from_controller\<close> through the library registry, any
  number of times: the parameter \<open>we_load\<close> gives for the bytes a tree of \<open>Fetch\<close> nodes, one for
  each library that is asked for. Which ones these are depends on what the registry has already
  got: \<open>we_load\<close> is given the answers that the process received so far (\<open>wk_received\<close>). Evolution is pagmo's (\<open>we_evolve\<close>, \<open>we_archi\<close>).
\<close>

section \<open>State\<close>

datatype worker_mode = SINGLE_THREADED | ARCHIPELAGO_BASED

datatype ('a, 'pop) load =
    Loaded "('a, 'pop) work_container"
  | Failed cpp_error
  | Fetch string "bytes option \<Rightarrow> ('a, 'pop) load"

text \<open>Where the worker thread is: reading its work, or waiting for a library.\<close>

datatype ('a, 'pop) progress =
    Thread_ended
  | Reading "('a, 'pop) load"
  | Waiting_for_dll string "bytes option \<Rightarrow> ('a, 'pop) load"

record ('a, 'prob, 'pop, 'd) wenv =
  we_pg :: "('prob, 'pop, 'd) pagmo"
  we_ties :: "nat list \<Rightarrow> nat list"
  we_random :: u32
  we_cores :: nat
  we_evolve :: "'a \<Rightarrow> 'pop \<Rightarrow> 'pop result"
  we_archi :: "('a \<times> 'pop) list \<Rightarrow> u64 \<Rightarrow> ('a \<times> 'pop) list result"
  we_load :: "(string \<times> bytes option) list \<Rightarrow> bytes \<Rightarrow> ('a, 'pop) load"
  we_emit :: "('a, 'pop) work_container \<Rightarrow> stream_op list"
  we_emit_request :: "get_dll_request \<Rightarrow> stream_op list"
  we_parse_dll :: "bytes \<Rightarrow> dll_binary_container result"
  we_xml :: "worker_settings xml_codec"
  we_bind :: "string \<Rightarrow> unit result"
  we_connect :: "string \<Rightarrow> unit result"

record ('a, 'pop) worker =
  wk_heartbeat_interval :: int
  wk_heartbeat_timeout :: int
  wk_reconnect_ivl_max :: int
  wk_options :: "(string \<times> int) list"
  wk_settings :: "worker_settings settings"
  wk_disk :: disk
  wk_id :: string
  wk_mode :: worker_mode
  wk_min_island_pop :: nat
  wk_controller :: string
  wk_joinable :: bool
  wk_progress :: "('a, 'pop) progress"
  wk_received :: "(string \<times> bytes option) list"
  wk_from_thread :: "(string \<times> MsgType \<times> bytes) list"
  wk_to_thread :: "(MsgType \<times> bytes) list"
  wk_to_controller :: "(MsgType \<times> bytes) list"
  wk_client_thread :: bool

section \<open>Splitting a population among islands\<close>

definition compute_optimal_island_count :: "nat \<Rightarrow> nat" where
  "compute_optimal_island_count hardware_concurrency =
    (if hardware_concurrency = 0 then 8 else hardware_concurrency)"

definition base_size :: "nat \<Rightarrow> nat \<Rightarrow> nat \<Rightarrow> nat" where
  "base_size minIslandPopSize totalPopSize islandCount =
    (let b = max minIslandPopSize (totalPopSize div islandCount);
         b = b - b mod 4
     in if b = 0 then 4 else b)"

text \<open>The inner loop: \<open>j\<close> below \<open>currentSize\<close>, left early when the individuals run out.\<close>

fun fill_island ::
  "('prob, 'pop, 'd) pagmo \<Rightarrow> 'd list list \<Rightarrow> nat list \<Rightarrow> nat \<Rightarrow> 'pop \<Rightarrow> (nat \<times> 'pop) result" where
  "fill_island pg individuals [] mainPopIndex islandPop = Inr (mainPopIndex, islandPop)"
| "fill_island pg individuals (j # js) mainPopIndex islandPop =
    (if length individuals \<le> mainPopIndex then Inr (mainPopIndex, islandPop)
     else bind_result (pg_set_x pg j (individuals ! mainPopIndex) islandPop)
            (fill_island pg individuals js (Suc mainPopIndex)))"

text \<open>The outer loop over the islands.\<close>

fun split_loop ::
  "('prob, 'pop, 'd) pagmo \<Rightarrow> 'prob \<Rightarrow> u64 \<Rightarrow> 'd list list \<Rightarrow> nat \<Rightarrow> nat list \<Rightarrow> nat \<Rightarrow> nat \<Rightarrow> 'pop list \<Rightarrow> 'pop list result" where
  "split_loop pg prob seed individuals baseSize [] remainingPop mainPopIndex islandPops = Inr islandPops"
| "split_loop pg prob seed individuals baseSize (i # rest) remainingPop mainPopIndex islandPops =
    (let currentSize = (if 4 \<le> remainingPop then baseSize + 4 else baseSize);
         remainingPop = (if 4 \<le> remainingPop then remainingPop - 4 else remainingPop)
     in bind_result (pg_new pg prob currentSize (ucast (seed + of_nat i)))
         (\<lambda>islandPop. bind_result (fill_island pg individuals [0..<currentSize] mainPopIndex islandPop)
           (\<lambda>(mainPopIndex, islandPop).
              split_loop pg prob seed individuals baseSize rest remainingPop mainPopIndex (islandPops @ [islandPop]))))"

definition split_population_for_islands ::
  "('prob, 'pop, 'd) pagmo \<Rightarrow> nat \<Rightarrow> 'pop \<Rightarrow> nat \<Rightarrow> 'pop list result" where
  "split_population_for_islands pg minIslandPopSize population islandCount =
    (let totalPopSize = length (pg_x pg population)
     in if islandCount = 0
        then Inl (Runtime_error ''_split_population_for_islands - Cannot split among 0 islands'')
        else
          (let baseSize = base_size minIslandPopSize totalPopSize islandCount;
               assignedPop = baseSize * islandCount mod 2 ^ 64;
               remainingPop = (if assignedPop < totalPopSize then totalPopSize - assignedPop else 0)
           in split_loop pg (pg_problem pg population) (ucast (pg_seed pg population)) (pg_x pg population)
                baseSize [0..<islandCount] remainingPop 0 []))"

section \<open>The work\<close>

definition single_threaded_worker ::
  "('a, 'prob, 'pop, 'd) wenv \<Rightarrow> 'a \<Rightarrow> 'pop \<Rightarrow> ('a, 'pop) work_container result" where
  "single_threaded_worker env algorithm population =
     map_sum id (\<lambda>new_pop. work_container_new algorithm new_pop '''' 1) (we_evolve env algorithm population)"

definition archipelago_based_worker ::
  "('a, 'prob, 'pop, 'd::linorder) wenv \<Rightarrow> nat \<Rightarrow> 'a \<Rightarrow> 'pop \<Rightarrow> u64 \<Rightarrow> ('a, 'pop) work_container result" where
  "archipelago_based_worker env minIslandPopSize algorithm population archiCycleCount =
    (let pg = we_pg env; islandCount = compute_optimal_island_count (we_cores env)
     in bind_result (split_population_for_islands pg minIslandPopSize population islandCount)
         (\<lambda>islandPops. bind_result (we_archi env (map (\<lambda>p. (algorithm, p)) islandPops) archiCycleCount)
           (\<lambda>archi. bind_result (vec_index archi 0)
             (\<lambda>(firstAlgorithm, firstIslPop).
               (let (allPopulations, allFitnesses) = merge_populations pg (map snd archi)
                in map_sum id (\<lambda>newPop. work_container_new firstAlgorithm newPop '''' 1)
                    (select_best_N_into_new_population pg (we_ties env) (we_random env) (pg_problem pg firstIslPop)
                       allPopulations allFitnesses (length (pg_x pg population)) (Some (pg_seed pg firstIslPop))))))))"

definition run_work :: "('a, 'prob, 'pop, 'd::linorder) wenv \<Rightarrow> ('a, 'pop) worker \<Rightarrow> ('a, 'pop) work_container \<Rightarrow> ('a, 'pop) work_container result" where
  "run_work env w wct =
    (case wk_mode w of
       ARCHIPELAGO_BASED \<Rightarrow> archipelago_based_worker env (wk_min_island_pop w) (algo wct) (pop wct) (cycleCount wct)
     | SINGLE_THREADED \<Rightarrow> single_threaded_worker env (algo wct) (pop wct))"

section \<open>The thread that runs the work\<close>

definition start_worker_thread :: "('a, 'prob, 'pop, 'd) wenv \<Rightarrow> bytes \<Rightarrow> ('a, 'pop) worker \<Rightarrow> unit result \<times> ('a, 'pop) worker" where
  "start_worker_thread env workData w =
    (if wk_joinable w then (Inl (Terminate ''assignment to a joinable std::thread''), w)
     else (Inr (), w\<lparr>wk_joinable := True,
             wk_progress := Reading (if workData = [] then Failed (Runtime_error ''Error: Attempted to deserialize an empty buffer'')
                                     else we_load env (wk_received w) workData)\<rparr>))"

text \<open>
  \<open>get_dll_from_controller\<close>: a new dealer socket and the request; then the loop that skips
  every message but \<open>DLL_BINARY\<close>.
\<close>

definition request_dll :: "('a, 'prob, 'pop, 'd) wenv \<Rightarrow> string \<Rightarrow> (bytes option \<Rightarrow> ('a, 'pop) load) \<Rightarrow> ('a, 'pop) worker \<Rightarrow> ('a, 'pop) worker" where
  "request_dll env lib_name k w =
     w\<lparr>wk_from_thread := wk_from_thread w @
         [(''worker_dll_handler'', GET_DLL, vector_serialize (we_emit_request env) \<lparr>req_dll_name = lib_name\<rparr>)],
       wk_to_thread := [], wk_progress := Waiting_for_dll lib_name k\<rparr>"

definition receive_dll :: "('a, 'prob, 'pop, 'd) wenv \<Rightarrow> string \<Rightarrow> (bytes option \<Rightarrow> ('a, 'pop) load) \<Rightarrow> ('a, 'pop) worker \<Rightarrow> unit result \<times> ('a, 'pop) worker" where
  "receive_dll env lib_name k w =
    (case wk_to_thread w of
       [] \<Rightarrow> (Inr (), w)
     | (type, binary) # rest \<Rightarrow>
         if type \<noteq> DLL_BINARY then (Inr (), w\<lparr>wk_to_thread := rest\<rparr>)
         else (case vector_deserialize (we_parse_dll env) binary of
                 Inl e \<Rightarrow> (Inl (Terminate ''exception left a thread''), w)
               | Inr dbc \<Rightarrow>
                   (Inr (), w\<lparr>wk_to_thread := rest, wk_received := wk_received w @ [(lib_name, dll_file dbc)],
                      wk_progress := Reading (k (dll_file dbc))\<rparr>)))"

text \<open>One step of the worker thread. An exception that leaves a thread ends the process.\<close>

definition thread_step :: "('a, 'prob, 'pop, 'd::linorder) wenv \<Rightarrow> ('a, 'pop) worker \<Rightarrow> unit result \<times> ('a, 'pop) worker" where
  "thread_step env w =
    (case wk_progress w of
       Thread_ended \<Rightarrow> (Inr (), w)
     | Waiting_for_dll lib_name k \<Rightarrow> receive_dll env lib_name k w
     | Reading (Fetch lib_name k) \<Rightarrow> (Inr (), request_dll env lib_name k w)
     | Reading (Failed e) \<Rightarrow> (Inl (Terminate ''exception left a thread''), w)
     | Reading (Loaded wct) \<Rightarrow>
         (case run_work env w wct of
            Inl e \<Rightarrow> (Inl (Terminate ''exception left a thread''), w)
          | Inr results \<Rightarrow>
              (Inr (), w\<lparr>wk_from_thread := wk_from_thread w @
                   [(''worker_main'', WORK_RESULTS, vector_serialize (we_emit env) results)],
                 wk_progress := Thread_ended\<rparr>)))"

section \<open>Handling of socket messages\<close>

definition handle_Worker_Socket_Msg ::
  "('a, 'prob, 'pop, 'd) wenv \<Rightarrow> MsgType \<Rightarrow> bytes \<Rightarrow> ('a, 'pop) worker \<Rightarrow> unit result \<times> ('a, 'pop) worker" where
  "handle_Worker_Socket_Msg env type binary w =
    (case type of
       ALLOCATE_WORK \<Rightarrow> start_worker_thread env binary w
     | DLL_BINARY \<Rightarrow>
         (case wk_progress w of
            Waiting_for_dll lib_name k \<Rightarrow> (Inr (), w\<lparr>wk_to_thread := wk_to_thread w @ [(DLL_BINARY, binary)]\<rparr>)
          | _ \<Rightarrow> (Inr (), w))
     | _ \<Rightarrow> (Inr (), w))"

definition handle_Thread_Socket_Msg :: "('a, 'pop) worker \<Rightarrow> unit result \<times> ('a, 'pop) worker" where
  "handle_Thread_Socket_Msg w =
    (case wk_from_thread w of
       [] \<Rightarrow> (Inr (), w)
     | (senderId, type, binary) # rest \<Rightarrow>
         (let w = w\<lparr>wk_from_thread := rest\<rparr>
          in case type of
               WORK_RESULTS \<Rightarrow>
                 if wk_joinable w
                 then (Inr (), w\<lparr>wk_joinable := False, wk_to_controller := wk_to_controller w @ [(WORK_RESULTS, binary)]\<rparr>)
                 else (Inl (Runtime_error ''std::system_error: join of a thread that is not joinable''), w)
             | GET_DLL \<Rightarrow> (Inr (), w\<lparr>wk_to_controller := wk_to_controller w @ [(GET_DLL, binary)]\<rparr>)
             | _ \<Rightarrow> (Inr (), w)))"

section \<open>Set-up, the client thread, shutting down\<close>

definition worker_new ::
  "('a, 'prob, 'pop, 'd) wenv \<Rightarrow> string \<Rightarrow> worker_mode \<Rightarrow> nat \<Rightarrow> int \<Rightarrow> int \<Rightarrow> int \<Rightarrow> string \<Rightarrow> nat list \<Rightarrow> disk
     \<Rightarrow> ('a, 'pop) worker result" where
  "worker_new env controllerAddress workerMode minIslandPopSize interval timeout ivlMax settingsFilePath draws d =
     bind_result (settings_new (we_xml env) (worker_settings_initialize draws) \<lparr>ws_workerId = ''''\<rparr> settingsFilePath True d)
       (\<lambda>s. bind_result (we_bind env ''inproc://thread_socket'')
         (\<lambda>_. case settings_call (we_xml env) s d of
             (Inl e, d') \<Rightarrow> Inl e
           | (Inr v, d') \<Rightarrow>
               map_sum id (\<lambda>_. \<lparr>wk_heartbeat_interval = interval, wk_heartbeat_timeout = timeout,
                 wk_reconnect_ivl_max = ivlMax,
                 wk_options = [(''heartbeat_ivl'', interval), (''heartbeat_timeout'', timeout),
                   (''reconnect_ivl_max'', ivlMax), (''hello_msg'', msg_int WORKER_JOIN)],
                 wk_settings = s, wk_disk = d', wk_id = ws_workerId v, wk_mode = workerMode,
                 wk_min_island_pop = minIslandPopSize, wk_controller = controllerAddress,
                 wk_joinable = False, wk_progress = Thread_ended, wk_received = [], wk_from_thread = [], wk_to_thread = [],
                 wk_to_controller = [], wk_client_thread = False\<rparr>) (we_connect env controllerAddress)))"

text \<open>What happens in the process: a message of either socket, or a step of the worker thread.\<close>

datatype worker_event =
    Controller_msg MsgType bytes
  | Thread_socket_msg
  | Thread_runs

fun worker_step :: "('a, 'prob, 'pop, 'd::linorder) wenv \<Rightarrow> worker_event \<Rightarrow> ('a, 'pop) worker \<Rightarrow> unit result \<times> ('a, 'pop) worker" where
  "worker_step env (Controller_msg type binary) w = handle_Worker_Socket_Msg env type binary w"
| "worker_step env Thread_socket_msg w = handle_Thread_Socket_Msg w"
| "worker_step env Thread_runs w = thread_step env w"

datatype process_state = Client_running | Client_returned | Process_terminated

record ('a, 'pop) process =
  p_state :: process_state
  p_worker :: "('a, 'pop) worker"

text \<open>
  \<open>run_client\<close>: any exception that a handler throws ends the client thread silently;
  \<open>std::terminate\<close> ends the process. The worker thread goes on without the client thread.
\<close>

fun state_after :: "unit result \<Rightarrow> process_state \<Rightarrow> process_state" where
  "state_after (Inr _) s = s"
| "state_after (Inl (Terminate _)) s = Process_terminated"
| "state_after (Inl _) s = Client_returned"

definition process_step :: "('a, 'prob, 'pop, 'd::linorder) wenv \<Rightarrow> worker_event \<Rightarrow> ('a, 'pop) process \<Rightarrow> ('a, 'pop) process" where
  "process_step env ev p =
    (if p_state p = Client_running \<or> (p_state p = Client_returned \<and> ev = Thread_runs)
     then (let (r, w) = worker_step env ev (p_worker p) in \<lparr>p_state = state_after r (p_state p), p_worker = w\<rparr>)
     else p)"

fun run_client :: "('a, 'prob, 'pop, 'd::linorder) wenv \<Rightarrow> worker_event list \<Rightarrow> ('a, 'pop) process \<Rightarrow> ('a, 'pop) process" where
  "run_client env [] p = p"
| "run_client env (ev # evs) p = run_client env evs (process_step env ev p)"

text \<open>
  \<open>client_loop\<close>: one poll on the thread of the caller, with the messages it finds and the steps the
  worker thread makes meanwhile. An exception of a handler leaves it, and the messages behind it wait.
\<close>

fun client_loop :: "('a, 'prob, 'pop, 'd::linorder) wenv \<Rightarrow> worker_event list \<Rightarrow> ('a, 'pop) worker \<Rightarrow> unit result \<times> ('a, 'pop) worker" where
  "client_loop env [] w = (Inr (), w)"
| "client_loop env (ev # evs) w = and_then (worker_step env ev w) (\<lambda>_. client_loop env evs)"

text \<open>
  The destructor: the settings are saved, the client thread is stopped and joined; then the
  members are destroyed, among them the worker thread, which must not be joinable any more.
\<close>

definition worker_destroy :: "('a, 'prob, 'pop, 'd) wenv \<Rightarrow> ('a, 'pop) worker \<Rightarrow> unit result \<times> ('a, 'pop) worker" where
  "worker_destroy env w =
    (case settings_save (we_xml env) (wk_settings w) (wk_disk w) of
       (Inl e, d) \<Rightarrow> (Inl (Terminate ''exception left a destructor''), w\<lparr>wk_disk := d\<rparr>)
     | (Inr _, d) \<Rightarrow>
         (let w = w\<lparr>wk_disk := d, wk_client_thread := False\<rparr>
          in if wk_joinable w then (Inl (Terminate ''destruction of a joinable std::thread''), w) else (Inr (), w)))"

end
