(* ===== verification/Worker_Correct.thy ===== *)
theory Worker_Correct
  imports Worker Machine
begin

text \<open>
  What the worker guarantees: how a population is split among the islands of its archipelago,
  what it sends back for a piece of work, and that it stays in service under any interleaving
  of messages and steps of its threads as long as it gets one piece of work at a time.
\<close>

section \<open>Splitting\<close>

fun island_sizes :: "nat \<Rightarrow> nat \<Rightarrow> nat \<Rightarrow> nat list" where
  "island_sizes b 0 R = []"
| "island_sizes b (Suc n) R = (if 4 \<le> R then (b + 4) # island_sizes b n (R - 4) else b # island_sizes b n R)"

lemma four_less:
  assumes "4 \<le> (R :: nat)"
  shows "R div 4 \<le> Suc n \<Longrightarrow> (R - 4) div 4 \<le> n" and "(R - 4) mod 4 = R mod 4" and "4 + R mod 4 \<le> R"
  using assms by (simp_all add: le_div_geq le_mod_geq le_diff_conv2)

lemma sum_island_sizes: "R div 4 \<le> n \<Longrightarrow> sum_list (island_sizes b n R) = b * n + (R - R mod 4)"
proof (induction b n R rule: island_sizes.induct)
  case (2 b n R)
  show ?case
  proof (cases "4 \<le> R")
    case True
    then have "sum_list (island_sizes b n (R - 4)) = b * n + (R - 4 - R mod 4)"
      using 2 four_less by simp
    then show ?thesis using True four_less(3) [OF True] by simp
  next
    case False
    then show ?thesis using 2 by simp
  qed
qed simp

lemma island_sizes_range: "s \<in> set (island_sizes b n R) \<Longrightarrow> s = b \<or> s = b + 4"
  by (induction b n R rule: island_sizes.induct) (auto split: if_splits)

lemma length_island_sizes [simp]: "length (island_sizes b n R) = n"
  by (induction b n R rule: island_sizes.induct) auto

lemma base_size_bounds:
  assumes "0 < n"
  shows "4 dvd base_size m T n" and "4 \<le> base_size m T n" and "T div n \<le> base_size m T n + 3"
    and "m \<le> base_size m T n + 3"
proof -
  define c where "c = max m (T div n) div 4"
  have "base_size m T n = (if 4 * c = 0 then 4 else 4 * c)"
    by (simp add: base_size_def Let_def c_def minus_mod_eq_mult_div)
  moreover have "max m (T div n) < 4 * c + 4" unfolding c_def by linarith
  then have "m < 4 * c + 4 \<and> T div n < 4 * c + 4" by (simp only: max_less_iff_conj)
  ultimately show "4 dvd base_size m T n" "4 \<le> base_size m T n" "T div n \<le> base_size m T n + 3"
      "m \<le> base_size m T n + 3"
    by simp_all
qed

lemma remaining_fits:
  assumes "0 < n"
  shows "(T - base_size m T n * n) div 4 \<le> n"
proof -
  have "T < (T div n + 1) * n" using assms by (metis Suc_eq_plus1 dividend_less_div_times mult_Suc)
  also have "\<dots> \<le> (base_size m T n + 4) * n"
    using base_size_bounds(3) [OF assms, of T m] by (intro mult_right_mono) auto
  finally have "T - base_size m T n * n \<le> 4 * n" by (simp add: algebra_simps)
  then show ?thesis by linarith
qed

lemma fill_island_eq:
  assumes "pagmo_ok pg"
  shows "fill_island pg xs [j..<s] m q = Inr (m', q') \<Longrightarrow> length (pg_x pg q) = s \<Longrightarrow> j \<le> s \<Longrightarrow> m \<le> length xs \<Longrightarrow>
    m' = min (length xs) (m + (s - j)) \<and> pg_problem pg q' = pg_problem pg q
    \<and> (\<exists>r. pg_x pg q' = take j (pg_x pg q) @ take (s - j) (drop m xs) @ r) \<and> length (pg_x pg q') = s"
proof (induction "s - j" arbitrary: j m q)
  case 0
  then show ?case by simp
next
  case (Suc d)
  then have upt: "[j..<s] = j # [Suc j..<s]" by (simp add: upt_rec)
  show ?case
  proof (cases "length xs \<le> m")
    case True
    then show ?thesis using Suc.prems upt by (auto intro: exI [of _ "drop j (pg_x pg q)"])
  next
    case False
    with Suc.prems(1) upt obtain q1 where q1: "pg_set_x pg j (xs ! m) q = Inr q1"
        "fill_island pg xs [Suc j..<s] (Suc m) q1 = Inr (m', q')"
      by (auto simp: bind_result_Inr)
    note set = pagmo_setD [OF assms q1(1)]
    have "m' = min (length xs) (Suc m + (s - Suc j)) \<and> pg_problem pg q' = pg_problem pg q1
      \<and> (\<exists>r. pg_x pg q' = take (Suc j) (pg_x pg q1) @ take (s - Suc j) (drop (Suc m) xs) @ r)
      \<and> length (pg_x pg q') = s"
      by (rule Suc.hyps(1) [OF _ q1(2)]) (use Suc.hyps(2) Suc.prems set False in auto)
    moreover have "take (Suc j) (pg_x pg q1) = take j (pg_x pg q) @ [xs ! m]"
      using set by (simp add: take_Suc_conv_app_nth)
    moreover have "take (s - j) (drop m xs) = xs ! m # take (s - Suc j) (drop (Suc m) xs)"
      using False Suc.hyps(2) by (metis Cons_nth_drop_Suc Suc_diff_Suc not_le take_Suc_Cons zero_less_Suc zero_less_diff)
    ultimately show ?thesis using set Suc.hyps(2) by auto
  qed
qed

lemma split_loop_eq:
  assumes "pagmo_ok pg"
  shows "split_loop pg prob seed xs b is R m acc = Inr pops \<Longrightarrow> m \<le> length xs \<Longrightarrow>
    \<exists>new kept. pops = acc @ new \<and> map (\<lambda>q. length (pg_x pg q)) new = island_sizes b (length is) R
      \<and> (\<forall>q \<in> set new. pg_problem pg q = prob)
      \<and> list_all2 (\<lambda>q ks. \<exists>r. pg_x pg q = ks @ r) new kept
      \<and> concat kept = take (sum_list (island_sizes b (length is) R)) (drop m xs)"
proof (induction "is" arbitrary: R m acc)
  case Nil
  then show ?case by simp
next
  case (Cons i rest)
  define s where "s = (if 4 \<le> R then b + 4 else b)"
  define R' where "R' = (if 4 \<le> R then R - 4 else R)"
  obtain q m1 q1 where q: "pg_new pg prob s (ucast (seed + of_nat i)) = Inr q"
      "fill_island pg xs [0..<s] m q = Inr (m1, q1)"
      "split_loop pg prob seed xs b rest R' m1 (acc @ [q1]) = Inr pops"
    using Cons.prems(1) by (auto simp: Let_def bind_result_Inr s_def R'_def)
  note new = pagmo_newD [OF assms q(1)]
  have filled: "m1 = min (length xs) (m + s)" "pg_problem pg q1 = prob"
      "\<exists>r. pg_x pg q1 = take s (drop m xs) @ r" "length (pg_x pg q1) = s"
    using fill_island_eq [OF assms q(2)] new Cons.prems(2) by auto
  obtain rest_new kept where ih: "pops = (acc @ [q1]) @ rest_new"
      "map (\<lambda>q. length (pg_x pg q)) rest_new = island_sizes b (length rest) R'"
      "\<forall>q \<in> set rest_new. pg_problem pg q = prob" "list_all2 (\<lambda>q ks. \<exists>r. pg_x pg q = ks @ r) rest_new kept"
      "concat kept = take (sum_list (island_sizes b (length rest) R')) (drop m1 xs)"
    using Cons.IH [OF q(3)] filled(1) by auto
  have sizes: "island_sizes b (length (i # rest)) R = s # island_sizes b (length rest) R'"
    by (simp add: s_def R'_def)
  have "drop m1 xs = drop s (drop m xs)" using filled(1) by (simp add: min_def add.commute)
  then have "concat (take s (drop m xs) # kept) = take (s + sum_list (island_sizes b (length rest) R')) (drop m xs)"
    using ih(5) by (simp add: take_add)
  then show ?case
    using ih filled sizes
    by (intro exI [of _ "q1 # rest_new"] exI [of _ "take s (drop m xs) # kept"]) auto
qed

lemma split_sizes_suffice:
  assumes "0 < n" and "base_size m T n * n < 2 ^ 64"
  defines "b \<equiv> base_size m T n"
  defines "R \<equiv> (if b * n mod 2 ^ 64 < T then T - b * n mod 2 ^ 64 else 0)"
  shows "T \<le> sum_list (island_sizes b n R) + 3" and "4 dvd T \<Longrightarrow> T \<le> sum_list (island_sizes b n R)"
proof -
  have R: "R = T - b * n" using assms(2) by (simp add: R_def b_def)
  then have "sum_list (island_sizes b n R) = b * n + (R - R mod 4)"
    using remaining_fits [OF assms(1)] sum_island_sizes by (simp add: b_def)
  moreover have "T \<le> b * n + R" "R mod 4 \<le> 3" "R mod 4 \<le> R" using R by auto
  moreover have "R mod 4 = 0" if "4 dvd T"
    using that R base_size_bounds(1) [OF assms(1)] by (cases "b * n \<le> T") (auto simp: b_def)
  ultimately show "T \<le> sum_list (island_sizes b n R) + 3" "4 dvd T \<Longrightarrow> T \<le> sum_list (island_sizes b n R)"
    by auto
qed

lemma fill_island_ok:
  assumes "pagmo_ok pg" and "pagmo_total pg fits" and "\<forall>x \<in> set xs. fits prob x"
  shows "j \<le> length (pg_x pg q) \<Longrightarrow> pg_problem pg q = prob
    \<Longrightarrow> \<exists>r. fill_island pg xs [j..<length (pg_x pg q)] m q = Inr r"
proof (induction "length (pg_x pg q) - j" arbitrary: j m q)
  case (Suc d)
  then have upt: "[j..<length (pg_x pg q)] = j # [Suc j..<length (pg_x pg q)]" by (simp add: upt_rec)
  show ?case
  proof (cases "length xs \<le> m")
    case False
    have "j < length (pg_x pg q)" using Suc.hyps(2) by simp
    with False obtain q1 where q1: "pg_set_x pg j (xs ! m) q = Inr q1"
      using pagmo_total_set [OF assms(2), of j q "xs ! m"] Suc.prems(2) assms(3) by auto
    note set = pagmo_setD [OF assms(1) q1]
    then have "\<exists>r. fill_island pg xs [Suc j..<length (pg_x pg q1)] (Suc m) q1 = Inr r"
      using Suc.hyps(1) [of q1 "Suc j"] Suc.hyps(2) Suc.prems by auto
    then show ?thesis using False set by (simp add: upt q1)
  qed (simp add: upt)
qed simp

lemma split_loop_ok:
  assumes "pagmo_ok pg" and "pagmo_total pg fits" and "\<forall>x \<in> set xs. fits prob x"
  shows "\<exists>pops. split_loop pg prob seed xs b is R m acc = Inr pops"
proof (induction "is" arbitrary: R m acc)
  case (Cons i rest)
  define s where "s = (if 4 \<le> R then b + 4 else b)"
  obtain q where q: "pg_new pg prob s (ucast (seed + of_nat i)) = Inr q"
    using pagmo_total_new [OF assms(2)] by blast
  note new = pagmo_newD [OF assms(1) q]
  then obtain r where "fill_island pg xs [0..<s] m q = Inr r"
    using fill_island_ok [OF assms, of 0 q m] by auto
  then show ?case using q Cons.IH by (simp add: Let_def s_def split: prod.splits)
qed simp

section \<open>Properties of the split\<close>

text \<open>
  C29: splitting a population keeps its individuals. The split is among exactly \<open>islandCount\<close>
  populations of the same problem, whose sizes are multiples of four, at least four, and differ
  by at most four; laid one after another, the individuals the islands begin with are the
  original ones in order; at most three are left out, and none when the size is a multiple of
  four. With a problem that accepts its own individuals the split never throws.
\<close>

theorem split_keeps_individuals:
  assumes "pagmo_ok pg" and "pagmo_total pg fits" and "0 < n"
    and "base_size minPop (length (pg_x pg p)) n * n < 2 ^ 64"
  shows "\<exists>pops. split_population_for_islands pg minPop p n = Inr pops
    \<and> length pops = n
    \<and> (\<exists>b. 4 dvd b \<and> 4 \<le> b \<and> minPop \<le> b + 3
         \<and> (\<forall>q \<in> set pops. length (pg_x pg q) \<in> {b, b + 4} \<and> pg_problem pg q = pg_problem pg p))
    \<and> (\<exists>kept. list_all2 (\<lambda>q ks. \<exists>r. pg_x pg q = ks @ r) pops kept
         \<and> concat kept = take (sum_list (map (\<lambda>q. length (pg_x pg q)) pops)) (pg_x pg p))
    \<and> length (pg_x pg p) \<le> sum_list (map (\<lambda>q. length (pg_x pg q)) pops) + 3
    \<and> (4 dvd length (pg_x pg p) \<longrightarrow> length (pg_x pg p) \<le> sum_list (map (\<lambda>q. length (pg_x pg q)) pops))"
proof -
  let ?T = "length (pg_x pg p)"
  define b where "b = base_size minPop ?T n"
  define R where "R = (if b * n mod 2 ^ 64 < ?T then ?T - b * n mod 2 ^ 64 else 0)"
  obtain pops where loop: "split_loop pg (pg_problem pg p) (ucast (pg_seed pg p)) (pg_x pg p) b [0..<n] R 0 [] = Inr pops"
    using split_loop_ok [OF assms(1,2)] pagmo_total_member [OF assms(2)] by blast
  then have split: "split_population_for_islands pg minPop p n = Inr pops"
    using assms(3) unfolding split_population_for_islands_def Let_def b_def R_def
    by (simp split del: if_split)
  obtain kept where kept: "map (\<lambda>q. length (pg_x pg q)) pops = island_sizes b n R"
      "\<forall>q \<in> set pops. pg_problem pg q = pg_problem pg p" "list_all2 (\<lambda>q ks. \<exists>r. pg_x pg q = ks @ r) pops kept"
      "concat kept = take (sum_list (island_sizes b n R)) (pg_x pg p)"
    using split_loop_eq [OF assms(1) loop] by auto
  have len: "length pops = n" using kept(1) by (metis length_island_sizes length_map)
  have sizes: "length (pg_x pg q) \<in> {b, b + 4}" if "q \<in> set pops" for q
    using that island_sizes_range [of "length (pg_x pg q)" b n R] kept(1)
    by (metis (no_types, lifting) image_eqI insertCI set_map)
  have range: "4 dvd b" "4 \<le> b" "minPop \<le> b + 3"
    using base_size_bounds [OF assms(3)] unfolding b_def by auto
  note enough = split_sizes_suffice [OF assms(3,4), folded b_def, folded R_def]
  show ?thesis
    by (intro exI [of _ pops] conjI)
      (use split len range sizes kept(2-4) enough in \<open>unfold kept(1), blast+\<close>)
qed

section \<open>What the worker sends back\<close>

text \<open>
  pagmo's evolution of an archipelago keeps the islands, the sizes of their populations and
  the problem. \<open>evolves\<close> says in addition that it does not throw.
\<close>

definition archi_ok :: "('a, 'prob, 'pop, 'd) wenv \<Rightarrow> bool" where
  "archi_ok env \<longleftrightarrow> (\<forall>ias c archi. we_archi env ias c = Inr archi \<longrightarrow>
     list_all2 (\<lambda>ap ap'. length (pg_x (we_pg env) (snd ap')) = length (pg_x (we_pg env) (snd ap))
       \<and> pg_problem (we_pg env) (snd ap') = pg_problem (we_pg env) (snd ap)) ias archi)"

definition evolves :: "('a, 'prob, 'pop, 'd) wenv \<Rightarrow> bool" where
  "evolves env \<longleftrightarrow> (\<forall>ias c. is_ok (we_archi env ias c))"

lemma archi_okD:
  assumes "archi_ok env" and "we_archi env ias c = Inr archi"
  shows "length archi = length ias"
    and "map (\<lambda>a. length (pg_x (we_pg env) (snd a))) archi = map (\<lambda>a. length (pg_x (we_pg env) (snd a))) ias"
    and "map (\<lambda>a. pg_problem (we_pg env) (snd a)) archi = map (\<lambda>a. pg_problem (we_pg env) (snd a)) ias"
proof -
  have rel: "list_all2 (\<lambda>ap ap'. length (pg_x (we_pg env) (snd ap')) = length (pg_x (we_pg env) (snd ap))
       \<and> pg_problem (we_pg env) (snd ap') = pg_problem (we_pg env) (snd ap)) ias archi"
    using assms unfolding archi_ok_def by blast
  show "length archi = length ias" using list_all2_lengthD [OF rel] by simp
  show "map (\<lambda>a. length (pg_x (we_pg env) (snd a))) archi = map (\<lambda>a. length (pg_x (we_pg env) (snd a))) ias"
    using rel by (induction rule: list_all2_induct) auto
  show "map (\<lambda>a. pg_problem (we_pg env) (snd a)) archi = map (\<lambda>a. pg_problem (we_pg env) (snd a)) ias"
    using rel by (induction rule: list_all2_induct) auto
qed

lemma split_eq:
  assumes "pagmo_ok pg" and "0 < n" and "base_size minPop (length (pg_x pg p)) n * n < 2 ^ 64"
    and "split_population_for_islands pg minPop p n = Inr pops"
  shows "length pops = n" and "\<forall>q \<in> set pops. pg_problem pg q = pg_problem pg p"
    and "4 dvd length (pg_x pg p) \<Longrightarrow> length (pg_x pg p) \<le> sum_list (map (\<lambda>q. length (pg_x pg q)) pops)"
    and "length (pg_x pg p) \<le> sum_list (map (\<lambda>q. length (pg_x pg q)) pops) + 3"
    and "0 < sum_list (map (\<lambda>q. length (pg_x pg q)) pops)"
proof -
  let ?T = "length (pg_x pg p)"
  define b where "b = base_size minPop ?T n"
  define R where "R = (if b * n mod 2 ^ 64 < ?T then ?T - b * n mod 2 ^ 64 else 0)"
  have "split_loop pg (pg_problem pg p) (ucast (pg_seed pg p)) (pg_x pg p) b [0..<n] R 0 [] = Inr pops"
    using assms(2,4) unfolding split_population_for_islands_def Let_def b_def R_def
    by (simp split del: if_split)
  then have sizes: "map (\<lambda>q. length (pg_x pg q)) pops = island_sizes b n R"
      and "\<forall>q \<in> set pops. pg_problem pg q = pg_problem pg p"
    using split_loop_eq [OF assms(1)] by fastforce+
  then show "length pops = n" "\<forall>q \<in> set pops. pg_problem pg q = pg_problem pg p"
    by (metis length_island_sizes length_map, blast)
  show "?T \<le> sum_list (map (\<lambda>q. length (pg_x pg q)) pops)" if "4 dvd ?T"
    unfolding sizes b_def R_def by (rule split_sizes_suffice(2) [OF assms(2,3) that])
  show "?T \<le> sum_list (map (\<lambda>q. length (pg_x pg q)) pops) + 3"
    unfolding sizes b_def R_def by (rule split_sizes_suffice(1) [OF assms(2,3)])
  have "0 < b" using base_size_bounds(2) [OF assms(2), of minPop ?T] by (simp add: b_def)
  then show "0 < sum_list (map (\<lambda>q. length (pg_x pg q)) pops)"
    unfolding sizes using assms(2) by (cases n) simp_all
qed

text \<open>
  The islands of an archipelago after its evolution hold the problem they were given, and have
  together as many individuals as before.
\<close>

lemma evolved_islands:
  assumes pg: "pagmo_ok (we_pg env)" and archi: "archi_ok env" "we_archi env (map (\<lambda>q. (alg, q)) pops) cycles = Inr archi"
    and pops: "\<forall>q \<in> set pops. pg_problem (we_pg env) q = prob"
  shows "length archi = length pops" "\<forall>q \<in> set (map snd archi). pg_problem (we_pg env) q = prob"
    and "length (concat (map (pg_x (we_pg env)) (map snd archi))) = sum_list (map (\<lambda>q. length (pg_x (we_pg env) q)) pops)"
    and "length (concat (map (pg_f (we_pg env)) (map snd archi))) = length (concat (map (pg_x (we_pg env)) (map snd archi)))"
proof -
  note kept = archi_okD [OF archi]
  show "length archi = length pops" using kept(1) by simp
  have "set (map (\<lambda>a. pg_problem (we_pg env) (snd a)) archi) \<subseteq> {prob}" unfolding kept(3) using pops by auto
  then show "\<forall>q \<in> set (map snd archi). pg_problem (we_pg env) q = prob" by auto
  have "length (concat (map (pg_x (we_pg env)) (map snd archi))) = sum_list (map (\<lambda>a. length (pg_x (we_pg env) (snd a))) archi)"
    by (simp add: length_concat comp_def)
  also have "\<dots> = sum_list (map (\<lambda>q. length (pg_x (we_pg env) q)) pops)" unfolding kept(2) by (simp add: comp_def)
  finally show "length (concat (map (pg_x (we_pg env)) (map snd archi))) = sum_list (map (\<lambda>q. length (pg_x (we_pg env) q)) pops)" .
  show "length (concat (map (pg_f (we_pg env)) (map snd archi))) = length (concat (map (pg_x (we_pg env)) (map snd archi)))"
    using merged_lengths [OF pg, of "map snd archi"] by simp
qed

text \<open>
  C27: what an archipelago worker answers. With an evolution and a problem that do not throw, and
  no overflow of the sizes, the worker runs the given algorithm on the islands of the split for the
  given number of cycles. Its answer holds a population of the original problem that begins with
  as many different individuals of the evolved islands as were sent, or with all of them where the
  islands have fewer; for an unconstrained problem with one objective these are the best ones in
  ascending order. The islands never have fewer individuals when the size that was sent is a
  multiple of four, so the answer then has exactly this size; otherwise at most three are missing,
  and they are made up for by copies of the first individual of the first island, however bad it
  is, when there is one objective, and not at all when there are several.
\<close>

theorem archipelago_answer:
  assumes "pagmo_ok (we_pg env)" and "pagmo_total (we_pg env) fits" and "rearranges (we_ties env)"
    and "archi_ok env" and "evolves env"
    and "base_size minPop (length (pg_x (we_pg env) p)) (compute_optimal_island_count (we_cores env))
           * compute_optimal_island_count (we_cores env) < 2 ^ 64"
  shows "\<exists>pops archi wct idx xs fs. split_population_for_islands (we_pg env) minPop p (compute_optimal_island_count (we_cores env)) = Inr pops
    \<and> we_archi env (map (\<lambda>q. (alg, q)) pops) cycles = Inr archi
    \<and> xs = concat (map (\<lambda>a. pg_x (we_pg env) (snd a)) archi) \<and> fs = concat (map (\<lambda>a. pg_f (we_pg env) (snd a)) archi)
    \<and> length xs = length fs \<and> fs \<noteq> [] \<and> length (pg_x (we_pg env) p) \<le> length fs + 3
    \<and> (4 dvd length (pg_x (we_pg env) p) \<longrightarrow> length (pg_x (we_pg env) p) \<le> length fs)
    \<and> archipelago_based_worker env minPop alg p cycles = Inr wct
    \<and> pg_problem (we_pg env) (pop wct) = pg_problem (we_pg env) p
    \<and> distinct idx \<and> set idx \<subseteq> {..<length fs} \<and> length idx = min (length (pg_x (we_pg env) p)) (length fs)
    \<and> pg_x (we_pg env) (pop wct) = map ((!) xs) idx
        @ (if pg_nobj (we_pg env) (pg_problem (we_pg env) p) \<le> 1 then replicate (length (pg_x (we_pg env) p) - length fs) (xs ! 0) else [])
    \<and> (pg_nobj (we_pg env) (pg_problem (we_pg env) p) \<le> 1 \<and> pg_nc (we_pg env) (pg_problem (we_pg env) p) = 0 \<longrightarrow>
         best_of (\<lambda>i. fs ! i ! 0) (length fs) (min (length (pg_x (we_pg env) p)) (length fs)) idx)"
proof -
  let ?pg = "we_pg env" and ?n = "compute_optimal_island_count (we_cores env)" and ?N = "length (pg_x (we_pg env) p)"
  have n: "0 < ?n" by (simp add: compute_optimal_island_count_def)
  obtain pops where split: "split_population_for_islands ?pg minPop p ?n = Inr pops"
    using split_loop_ok [OF assms(1,2)] pagmo_total_member [OF assms(2), of _ p] n
    unfolding split_population_for_islands_def Let_def by (simp split del: if_split) blast
  note pops = split_eq [OF assms(1) n assms(6) split]
  obtain archi where archi: "we_archi env (map (\<lambda>q. (alg, q)) pops) cycles = Inr archi"
    using assms(5) unfolding evolves_def is_ok_ex by blast
  let ?qs = "map snd archi"
  let ?xs = "concat (map (pg_x ?pg) ?qs)" and ?fs = "concat (map (pg_f ?pg) ?qs)"
  note evolved = evolved_islands [OF assms(1,4) archi pops(2)]
  have size: "length ?xs = length ?fs" "?N \<le> length ?fs + 3" "4 dvd ?N \<Longrightarrow> ?N \<le> length ?fs" "0 < length ?fs"
    using pops(3-5) evolved(3,4) by argo+
  have nonempty: "[] \<notin> set ?fs" using pagmo_fitnessD [OF assms(1)] by auto
  obtain first rest where first: "archi = first # rest" using evolved(1) pops(1) n by (cases archi) auto
  have prob: "pg_problem ?pg (snd first) = pg_problem ?pg p" using evolved(2) first by simp
  obtain idx where idx: "get_best_N_individuals_indexes ?pg (we_ties env) (pg_problem ?pg p) ?fs ?N = Inr idx"
    using selection_ok [OF assms(2) evolved(2) assms(1)] by blast
  obtain chosen where chosen: "idx = chosen @ (if pg_nobj ?pg (pg_problem ?pg p) \<le> 1 then replicate (?N - length ?fs) 0 else [])"
      "distinct chosen" "set chosen \<subseteq> {..<length ?fs}" "length chosen = min ?N (length ?fs)"
      "pg_nobj ?pg (pg_problem ?pg p) \<le> 1 \<and> pg_nc ?pg (pg_problem ?pg p) = 0 \<longrightarrow>
        best_of (\<lambda>i. ?fs ! i ! 0) (length ?fs) (min ?N (length ?fs)) chosen"
    using padded_selection [OF assms(1,3) nonempty idx] by blast
  have fits: "\<forall>x \<in> set ?xs. fits (pg_problem ?pg p) x"
    using pagmo_total_member [OF assms(2)] evolved(2) by fastforce
  have inside: "set idx \<subseteq> {..<length ?xs}"
    using chosen(1,3) size(4) unfolding size(1) by (auto simp only: set_append set_replicate_conv_if list.set split: if_splits)
  obtain q where q: "build_new_population ?pg (we_random env) (pg_problem ?pg p) ?xs idx (Some (pg_seed ?pg (snd first))) = Inr q"
    using build_new_population_ok [OF assms(1,2) inside fits] by blast
  have worker: "archipelago_based_worker env minPop alg p cycles = Inr (work_container_new (fst first) q '''' 1)"
    using split archi first prob idx q
    by (simp add: archipelago_based_worker_def Let_def vec_index_def merge_populations_eq
        select_best_N_into_new_population_def split_beta)
  have "pg_x ?pg q = map ((!) ?xs) idx" "pg_problem ?pg q = pg_problem ?pg p"
    using build_new_population_eq [OF assms(1) q] by blast+
  then have answer: "pg_problem ?pg (pop (work_container_new (fst first) q '''' 1)) = pg_problem ?pg p"
      "pg_x ?pg (pop (work_container_new (fst first) q '''' 1)) = map ((!) ?xs) chosen
        @ (if pg_nobj ?pg (pg_problem ?pg p) \<le> 1 then replicate (?N - length ?fs) (?xs ! 0) else [])"
    using chosen(1) by (simp_all add: work_container_new_def)
  have all: "?xs = concat (map (\<lambda>a. pg_x ?pg (snd a)) archi)" "?fs = concat (map (\<lambda>a. pg_f ?pg (snd a)) archi)"
    by (simp_all add: comp_def)
  show ?thesis
    by (rule exI [of _ pops], rule exI [of _ archi], rule exI [of _ "work_container_new (fst first) q '''' 1"],
        rule exI [of _ chosen], rule exI [of _ ?xs], rule exI [of _ ?fs])
      (use split archi all size worker answer chosen(2-5) in blast)
qed

section \<open>One piece of work, from its arrival to its answer\<close>

text \<open>
  With a controller that answers every request by \<open>prov\<close>: the libraries that reading asks for,
  what it gives in the end, and the steps of the process until the answer is sent.
\<close>

primrec dlls_asked :: "(string \<Rightarrow> bytes option) \<Rightarrow> ('a, 'pop) load \<Rightarrow> string list" where
  "dlls_asked prov (Loaded wct) = []"
| "dlls_asked prov (Failed e) = []"
| "dlls_asked prov (Fetch lib k) = lib # dlls_asked prov (k (prov lib))"

primrec loads_to :: "(string \<Rightarrow> bytes option) \<Rightarrow> ('a, 'pop) load \<Rightarrow> ('a, 'pop) work_container result" where
  "loads_to prov (Loaded wct) = Inr wct"
| "loads_to prov (Failed e) = Inl e"
| "loads_to prov (Fetch lib k) = loads_to prov (k (prov lib))"

primrec job_events :: "(dll_binary_container \<Rightarrow> stream_op list) \<Rightarrow> (string \<Rightarrow> bytes option) \<Rightarrow> ('a, 'pop) load \<Rightarrow> worker_event list" where
  "job_events emit prov (Loaded wct) = [Thread_runs, Thread_socket_msg]"
| "job_events emit prov (Failed e) = [Thread_runs]"
| "job_events emit prov (Fetch lib k) =
     [Thread_runs, Thread_socket_msg,
      Controller_msg DLL_BINARY (vector_serialize emit \<lparr>dll_name = lib, dll_file = prov lib\<rparr>), Thread_runs]
     @ job_events emit prov (k (prov lib))"

definition idle :: "('a, 'pop) worker \<Rightarrow> bool" where
  "idle w \<longleftrightarrow> \<not> wk_joinable w \<and> wk_progress w = Thread_ended \<and> wk_from_thread w = [] \<and> wk_to_thread w = []"

lemma run_client_append: "run_client env (evs @ evs') p = run_client env evs' (run_client env evs p)"
  by (induction evs arbitrary: p) simp_all

text \<open>
  Polling on the caller's thread and on the client thread are the same as long as nothing is thrown;
  what ends the client thread silently is thrown at the caller of \<open>client_loop\<close>.
\<close>

lemma client_loop_append: "client_loop env (evs @ evs') w = and_then (client_loop env evs w) (\<lambda>_. client_loop env evs')"
  by (induction evs arbitrary: w) (auto simp: and_then_def split: prod.split sum.split)

lemma client_loop_returns:
  "client_loop env evs w = (Inr (), w') \<Longrightarrow>
   run_client env evs \<lparr>p_state = Client_running, p_worker = w\<rparr> = \<lparr>p_state = Client_running, p_worker = w'\<rparr>"
  by (induction evs arbitrary: w) (auto simp: and_then_Inr process_step_def)

lemma client_loop_throws:
  "client_loop env evs w = (Inl e, w') \<Longrightarrow>
   \<exists>n \<le> length evs. run_client env (take n evs) \<lparr>p_state = Client_running, p_worker = w\<rparr>
     = \<lparr>p_state = state_after (Inl e) Client_running, p_worker = w'\<rparr>"
proof (induction evs arbitrary: w)
  case (Cons ev evs)
  obtain res w1 where step: "worker_step env ev w = (res, w1)" by fastforce
  show ?case
  proof (cases res)
    case (Inl f)
    then show ?thesis using Cons.prems step by (intro exI [of _ 1]) (simp add: process_step_def)
  next
    case (Inr u)
    then obtain n where "n \<le> length evs" "run_client env (take n evs) \<lparr>p_state = Client_running, p_worker = w1\<rparr>
        = \<lparr>p_state = state_after (Inl e) Client_running, p_worker = w'\<rparr>"
      using Cons step by auto
    then show ?thesis using Inr step by (intro exI [of _ "Suc n"]) (simp add: process_step_def)
  qed
qed simp

lemma run_work_frame:
  "wk_mode w' = wk_mode w \<Longrightarrow> wk_min_island_pop w' = wk_min_island_pop w \<Longrightarrow> run_work env w' wct = run_work env w wct"
  by (simp add: run_work_def split: worker_mode.split)

lemma job_runs:
  fixes w :: "('a, 'pop) worker"
  assumes "codec_ok emit (we_parse_dll env)"
  shows "loads_to prov l = Inr wct \<Longrightarrow> run_work env w wct = Inr res \<Longrightarrow> wk_joinable w \<Longrightarrow> wk_from_thread w = []
     \<Longrightarrow> wk_to_thread w = [] \<Longrightarrow> wk_progress w = Reading l
     \<Longrightarrow> run_client env (job_events emit prov l) \<lparr>p_state = Client_running, p_worker = w\<rparr>
       = \<lparr>p_state = Client_running, p_worker = w\<lparr>wk_joinable := False, wk_progress := Thread_ended,
            wk_to_controller := wk_to_controller w
              @ map (\<lambda>lib. (GET_DLL, vector_serialize (we_emit_request env) \<lparr>req_dll_name = lib\<rparr>)) (dlls_asked prov l)
              @ [(WORK_RESULTS, vector_serialize (we_emit env) res)],
            wk_received := wk_received w @ map (\<lambda>lib. (lib, prov lib)) (dlls_asked prov l)\<rparr>\<rparr>"
proof (induction l arbitrary: w)
  case (Loaded wct')
  then show ?case
    by (simp add: process_step_def thread_step_def handle_Thread_Socket_Msg_def)
next
  case (Failed e)
  then show ?case by simp
next
  case (Fetch lib k)
  define w' where "w' = w\<lparr>wk_progress := Reading (k (prov lib)), wk_received := wk_received w @ [(lib, prov lib)],
    wk_to_controller := wk_to_controller w @ [(GET_DLL, vector_serialize (we_emit_request env) \<lparr>req_dll_name = lib\<rparr>)]\<rparr>"
  have "run_client env [Thread_runs, Thread_socket_msg,
      Controller_msg DLL_BINARY (vector_serialize emit \<lparr>dll_name = lib, dll_file = prov lib\<rparr>), Thread_runs]
      \<lparr>p_state = Client_running, p_worker = w\<rparr> = \<lparr>p_state = Client_running, p_worker = w'\<rparr>"
    using Fetch.prems
    by (simp add: process_step_def thread_step_def request_dll_def handle_Thread_Socket_Msg_def
        handle_Worker_Socket_Msg_def receive_dll_def serialize_roundtrip [OF assms] w'_def)
  moreover have "run_work env w' wct = Inr res"
    using Fetch.prems(2) by (subst run_work_frame [of _ w]) (simp_all add: w'_def)
  ultimately show ?case
    using Fetch.IH [of "k (prov lib)" w'] Fetch.prems
    by (simp only: job_events.simps run_client_append) (simp add: w'_def)
qed

text \<open>
  C28: every piece of work is answered. When an idle worker receives work that can be read with
  the libraries the controller provides and whose evolution does not throw, then after the steps
  of \<open>job_events\<close> it has asked for exactly the libraries the reading needs, in order, has sent
  the results of \<open>run_work\<close> once, and is idle again; it remembers what it got.
\<close>

theorem work_is_answered:
  assumes "codec_ok emit (we_parse_dll env)" and "idle w" and "data \<noteq> []"
    and "loads_to prov (we_load env (wk_received w) data) = Inr wct" and "run_work env w wct = Inr res"
  shows "run_client env (Controller_msg ALLOCATE_WORK data # job_events emit prov (we_load env (wk_received w) data))
      \<lparr>p_state = Client_running, p_worker = w\<rparr>
    = \<lparr>p_state = Client_running, p_worker = w\<lparr>wk_to_controller := wk_to_controller w
         @ map (\<lambda>lib. (GET_DLL, vector_serialize (we_emit_request env) \<lparr>req_dll_name = lib\<rparr>)) (dlls_asked prov (we_load env (wk_received w) data))
         @ [(WORK_RESULTS, vector_serialize (we_emit env) res)],
         wk_received := wk_received w @ map (\<lambda>lib. (lib, prov lib)) (dlls_asked prov (we_load env (wk_received w) data))\<rparr>\<rparr>"
proof -
  let ?w = "w\<lparr>wk_joinable := True, wk_progress := Reading (we_load env (wk_received w) data)\<rparr>"
  have idle: "\<not> wk_joinable w" "wk_progress w = Thread_ended" "wk_from_thread w = []" "wk_to_thread w = []"
    using assms(2) by (auto simp: idle_def)
  have "process_step env (Controller_msg ALLOCATE_WORK data) \<lparr>p_state = Client_running, p_worker = w\<rparr>
      = \<lparr>p_state = Client_running, p_worker = ?w\<rparr>"
    using assms(3) idle by (simp add: process_step_def handle_Worker_Socket_Msg_def start_worker_thread_def)
  moreover have "run_work env ?w wct = Inr res" by (subst run_work_frame [of _ w]) (simp_all add: assms(5))
  ultimately show ?thesis
    using job_runs [OF assms(1,4), of ?w] idle by (cases w) simp
qed

section \<open>One piece of work at a time\<close>

text \<open>
  With the libraries \<open>prov\<close> that the controller has: reading the work and running it does not fail.
  An answer to a request for \<open>lib\<close> is right if it can be read and holds the library \<open>prov\<close> has.
\<close>

primrec never_fails :: "(string \<Rightarrow> bytes option) \<Rightarrow> ('a, 'prob, 'pop, 'd::linorder) wenv \<Rightarrow> ('a, 'pop) worker
    \<Rightarrow> ('a, 'pop) load \<Rightarrow> bool" where
  "never_fails prov env w (Loaded wct) = is_ok (run_work env w wct)"
| "never_fails prov env w (Failed e) = False"
| "never_fails prov env w (Fetch lib k) = never_fails prov env w (k (prov lib))"

definition right_answer :: "(string \<Rightarrow> bytes option) \<Rightarrow> ('a, 'prob, 'pop, 'd) wenv \<Rightarrow> string \<Rightarrow> bytes \<Rightarrow> bool" where
  "right_answer prov env lib b \<longleftrightarrow>
     (case vector_deserialize (we_parse_dll env) b of Inl e \<Rightarrow> False | Inr dbc \<Rightarrow> dll_file dbc = prov lib)"

definition honest :: "(string \<Rightarrow> bytes option) \<Rightarrow> (string \<times> bytes option) list \<Rightarrow> bool" where
  "honest prov received \<longleftrightarrow> list_all (\<lambda>(lib, f). f = prov lib) received"

definition results_sent :: "('a, 'pop) worker \<Rightarrow> nat" where
  "results_sent w = length (filter (\<lambda>m. fst m = WORK_RESULTS) (wk_to_controller w))"

definition results_queued :: "('a, 'pop) worker \<Rightarrow> nat" where
  "results_queued w = length (filter (\<lambda>m. fst (snd m) = WORK_RESULTS) (wk_from_thread w))"

fun allocations :: "worker_event list \<Rightarrow> nat" where
  "allocations [] = 0"
| "allocations (Controller_msg ALLOCATE_WORK d # evs) = Suc (allocations evs)"
| "allocations (ev # evs) = allocations evs"

text \<open>
  What the controller may send: work only when every earlier piece is answered, work that can be
  done, and to a thread that waits for a library the right answer. \<open>n\<close> counts the work sent so far.
\<close>

fun may_send :: "(string \<Rightarrow> bytes option) \<Rightarrow> ('a, 'prob, 'pop, 'd::linorder) wenv \<Rightarrow> nat \<Rightarrow> ('a, 'pop) worker
    \<Rightarrow> worker_event \<Rightarrow> bool" where
  "may_send prov env n w (Controller_msg ALLOCATE_WORK d) \<longleftrightarrow>
     results_sent w = n \<and> d \<noteq> [] \<and> never_fails prov env w (we_load env (wk_received w) d)"
| "may_send prov env n w (Controller_msg DLL_BINARY b) \<longleftrightarrow>
     (case wk_progress w of Waiting_for_dll lib k \<Rightarrow> right_answer prov env lib b | _ \<Rightarrow> True)"
| "may_send prov env n w ev \<longleftrightarrow> True"

text \<open>The process with the number of pieces of work it was sent.\<close>

fun client_step :: "('a, 'prob, 'pop, 'd::linorder) wenv \<Rightarrow> worker_event \<Rightarrow> nat \<times> ('a, 'pop) process \<Rightarrow> nat \<times> ('a, 'pop) process" where
  "client_step env ev (n, p) = (n + allocations [ev], process_step env ev p)"

fun client_ok :: "(string \<Rightarrow> bytes option) \<Rightarrow> ('a, 'prob, 'pop, 'd::linorder) wenv \<Rightarrow> worker_event \<Rightarrow> nat \<times> ('a, 'pop) process \<Rightarrow> bool" where
  "client_ok prov env ev (n, p) \<longleftrightarrow> may_send prov env n (p_worker p) ev"

definition polite :: "(string \<Rightarrow> bytes option) \<Rightarrow> ('a, 'prob, 'pop, 'd::linorder) wenv \<Rightarrow> nat \<Rightarrow> worker_event list \<Rightarrow> ('a, 'pop) process \<Rightarrow> bool" where
  "polite prov env n evs p \<longleftrightarrow> orderly (client_step env) (client_ok prov env) evs (n, p)"

definition worker_inv :: "(string \<Rightarrow> bytes option) \<Rightarrow> ('a, 'prob, 'pop, 'd::linorder) wenv \<Rightarrow> nat \<Rightarrow> ('a, 'pop) worker \<Rightarrow> bool" where
  "worker_inv prov env n w \<longleftrightarrow>
     n = results_sent w + (if wk_joinable w then 1 else 0)
   \<and> results_queued w = (if wk_joinable w \<and> wk_progress w = Thread_ended then 1 else 0)
   \<and> (\<not> wk_joinable w \<longrightarrow> wk_progress w = Thread_ended)
   \<and> (\<forall>l. wk_progress w = Reading l \<longrightarrow> never_fails prov env w l)
   \<and> (\<forall>lib k. wk_progress w = Waiting_for_dll lib k \<longrightarrow> never_fails prov env w (k (prov lib))
        \<and> (\<forall>(t, b) \<in> set (wk_to_thread w). right_answer prov env lib b))
   \<and> honest prov (wk_received w)"

lemma never_fails_frame:
  "wk_mode w' = wk_mode w \<Longrightarrow> wk_min_island_pop w' = wk_min_island_pop w \<Longrightarrow> never_fails prov env w' l = never_fails prov env w l"
  by (induction l) (simp_all add: run_work_frame [of w' w])

lemma never_fails_update [simp]:
  "never_fails prov env (w\<lparr>wk_progress := g\<rparr>) l = never_fails prov env w l"
  "never_fails prov env (w\<lparr>wk_from_thread := q\<rparr>) l = never_fails prov env w l"
  "never_fails prov env (w\<lparr>wk_to_thread := t\<rparr>) l = never_fails prov env w l"
  "never_fails prov env (w\<lparr>wk_to_controller := c\<rparr>) l = never_fails prov env w l"
  "never_fails prov env (w\<lparr>wk_joinable := j\<rparr>) l = never_fails prov env w l"
  "never_fails prov env (w\<lparr>wk_received := h\<rparr>) l = never_fails prov env w l"
  by (rule never_fails_frame; simp)+

lemma controller_msg_inv:
  assumes "worker_inv prov env n w" and "may_send prov env n w (Controller_msg t d)"
  shows "\<exists>w'. handle_Worker_Socket_Msg env t d w = (Inr (), w') \<and> worker_inv prov env (n + allocations [Controller_msg t d]) w'"
proof (cases t)
  case ALLOCATE_WORK
  with assms show ?thesis
    by (auto simp: worker_inv_def handle_Worker_Socket_Msg_def start_worker_thread_def
        results_sent_def results_queued_def split: if_splits)
next
  case DLL_BINARY
  show ?thesis
  proof (cases "wk_progress w")
    case (Waiting_for_dll lib k)
    then have "right_answer prov env lib d" using assms(2) DLL_BINARY by simp
    with assms(1) Waiting_for_dll show ?thesis
      unfolding DLL_BINARY
      by (simp add: handle_Worker_Socket_Msg_def) (simp add: worker_inv_def results_sent_def results_queued_def)
  qed (use assms DLL_BINARY in \<open>simp_all add: handle_Worker_Socket_Msg_def\<close>)
qed (use assms in \<open>simp_all add: handle_Worker_Socket_Msg_def\<close>)

lemma socket_msg_inv:
  assumes "worker_inv prov env n w"
  shows "\<exists>w'. handle_Thread_Socket_Msg w = (Inr (), w') \<and> worker_inv prov env n w'"
proof (cases "wk_from_thread w")
  case Nil
  with assms show ?thesis by (simp add: handle_Thread_Socket_Msg_def)
next
  case (Cons m rest)
  obtain s t b where m: "m = (s, t, b)" by (cases m)
  with assms Cons show ?thesis
    by (cases t) (auto simp: handle_Thread_Socket_Msg_def worker_inv_def results_sent_def results_queued_def split: if_splits)
qed

lemma reading_inv:
  assumes "worker_inv prov env n w" and "wk_progress w = Reading l"
  shows "\<exists>w'. thread_step env w = (Inr (), w') \<and> worker_inv prov env n w'"
proof -
  have never: "never_fails prov env w l" and busy: "wk_joinable w" using assms by (auto simp: worker_inv_def)
  show ?thesis
  proof (cases l)
    case (Loaded wct)
    then obtain res where "run_work env w wct = Inr res" using never by (auto simp: is_ok_ex)
    with assms(2) Loaded show ?thesis
      by (simp add: thread_step_def)
        (use assms busy in \<open>simp add: worker_inv_def results_sent_def results_queued_def\<close>)
  next
    case (Failed e)
    then show ?thesis using never by simp
  next
    case (Fetch lib k)
    with assms(2) show ?thesis
      by (simp add: thread_step_def request_dll_def)
        (use assms Fetch busy never in \<open>simp add: worker_inv_def results_sent_def results_queued_def\<close>)
  qed
qed

lemma waiting_inv:
  assumes "worker_inv prov env n w" and "wk_progress w = Waiting_for_dll lib k"
  shows "\<exists>w'. thread_step env w = (Inr (), w') \<and> worker_inv prov env n w'"
proof (cases "wk_to_thread w")
  case Nil
  with assms show ?thesis by (simp add: thread_step_def receive_dll_def)
next
  case (Cons m rest)
  obtain t b where m: "m = (t, b)" by (cases m)
  obtain dbc where "vector_deserialize (we_parse_dll env) b = Inr dbc" "dll_file dbc = prov lib"
    using assms Cons m by (auto simp: worker_inv_def right_answer_def split: sum.splits)
  moreover have "wk_joinable w" using assms by (auto simp: worker_inv_def)
  ultimately show ?thesis
    using assms(2) Cons m
    by (simp add: thread_step_def receive_dll_def)
      (use assms Cons m in \<open>simp add: worker_inv_def results_sent_def results_queued_def honest_def\<close>)
qed

lemma worker_step_inv:
  assumes "worker_inv prov env n w" and "may_send prov env n w ev"
  shows "\<exists>w'. worker_step env ev w = (Inr (), w') \<and> worker_inv prov env (n + allocations [ev]) w'"
proof (cases ev)
  case (Controller_msg t d)
  then show ?thesis using controller_msg_inv assms by simp
next
  case Thread_socket_msg
  then show ?thesis using socket_msg_inv [OF assms(1)] by simp
next
  case Thread_runs
  then show ?thesis
    using reading_inv [OF assms(1)] waiting_inv [OF assms(1)] assms(1)
    by (cases "wk_progress w") (simp_all add: thread_step_def)
qed

lemma allocations_Cons: "allocations (ev # evs) = allocations [ev] + allocations evs"
proof (cases ev)
  case (Controller_msg t d)
  then show ?thesis by (cases t) simp_all
qed simp_all

fun client_inv :: "(string \<Rightarrow> bytes option) \<Rightarrow> ('a, 'prob, 'pop, 'd::linorder) wenv \<Rightarrow> nat \<times> ('a, 'pop) process \<Rightarrow> bool" where
  "client_inv prov env (n, p) \<longleftrightarrow> p_state p = Client_running \<and> worker_inv prov env n (p_worker p)"

interpretation client: machine "client_step env" "client_ok prov env" "client_inv prov env" for prov env
proof unfold_locales
  fix s ev assume "client_inv prov env s" "client_ok prov env ev s"
  moreover obtain n p where s: "s = (n, p)" by (cases s)
  ultimately obtain w' where "worker_step env ev (p_worker p) = (Inr (), w')" "worker_inv prov env (n + allocations [ev]) w'"
    using worker_step_inv [of prov env n "p_worker p" ev] by auto
  then show "client_inv prov env (client_step env ev s)"
    using \<open>client_inv prov env s\<close> by (simp add: s process_step_def)
qed

lemma runs_client: "runs (client_step env) evs (n, p) = (n + allocations evs, run_client env evs p)"
proof (induction evs arbitrary: n p)
  case (Cons ev evs)
  then show ?case using allocations_Cons [of ev evs] by (simp del: allocations.simps)
qed simp

lemma run_client_inv:
  "worker_inv prov env n (p_worker p) \<Longrightarrow> p_state p = Client_running \<Longrightarrow> polite prov env n evs p \<Longrightarrow>
   p_state (run_client env evs p) = Client_running \<and> worker_inv prov env (n + allocations evs) (p_worker (run_client env evs p))"
  using client.runs_inv [of prov env "(n, p)" evs] by (simp add: polite_def runs_client)

lemma idle_inv: "idle w \<Longrightarrow> wk_to_controller w = [] \<Longrightarrow> honest prov (wk_received w) \<Longrightarrow> worker_inv prov env 0 w"
  by (simp add: idle_def worker_inv_def results_sent_def results_queued_def)

lemma worker_inv_count: "worker_inv prov env n w \<Longrightarrow> n = results_sent w + (if wk_joinable w then 1 else 0)"
  by (simp add: worker_inv_def)

lemma terminated_stays: "p_state p = Process_terminated \<Longrightarrow> run_client env evs p = p"
  by (induction evs) (simp_all add: process_step_def)

section \<open>Properties of the process\<close>

text \<open>
  The worker stays in service under every interleaving. Whatever order the messages and the
  steps of the two threads come in: as long as the controller sends a piece of work only after
  all earlier ones were answered (and the work can be done), the client thread never throws, the
  process does not end, no join waits for a thread that is not there, and every piece of work
  but the one being worked on has been answered exactly once.
\<close>

theorem worker_stays_in_service:
  assumes "idle w" and "wk_to_controller w = []" and "honest prov (wk_received w)"
    and "polite prov env 0 evs \<lparr>p_state = Client_running, p_worker = w\<rparr>"
  shows "p_state (run_client env evs \<lparr>p_state = Client_running, p_worker = w\<rparr>) = Client_running
    \<and> allocations evs = results_sent (p_worker (run_client env evs \<lparr>p_state = Client_running, p_worker = w\<rparr>))
        + (if wk_joinable (p_worker (run_client env evs \<lparr>p_state = Client_running, p_worker = w\<rparr>)) then 1 else 0)"
proof -
  have "worker_inv prov env 0 (p_worker \<lparr>p_state = Client_running, p_worker = w\<rparr>)"
    using idle_inv [OF assms(1-3)] by simp
  note kept = run_client_inv [OF this _ assms(4), simplified]
  then show ?thesis using worker_inv_count [OF conjunct2 [OF kept]] by blast
qed

text \<open>
  A second piece of work kills the worker. When \<open>ALLOCATE_WORK\<close> arrives while the worker
  thread has not been joined, the assignment to the thread object ends the process, and with it
  the work in progress: no later event changes anything and no result of the first piece is
  ever sent.
\<close>

theorem second_work_kills_worker:
  assumes "p_state p = Client_running" and "wk_joinable (p_worker p)"
  shows "run_client env (Controller_msg ALLOCATE_WORK data # evs) p
    = \<lparr>p_state = Process_terminated, p_worker = p_worker p\<rparr>"
proof -
  have "process_step env (Controller_msg ALLOCATE_WORK data) p = \<lparr>p_state = Process_terminated, p_worker = p_worker p\<rparr>"
    using assms by (simp add: process_step_def handle_Worker_Socket_Msg_def start_worker_thread_def)
  then show ?thesis by (simp add: terminated_stays)
qed

text \<open>
  Work that fails kills the worker. An exception in the evolution (or in reading the work)
  leaves the worker thread, which ends the process; the controller only sees that the
  connection is lost.
\<close>

theorem failing_work_kills_worker:
  assumes "idle w" and "data \<noteq> []" and "we_load env (wk_received w) data = Loaded wct" and "run_work env w wct = Inl e"
  shows "p_state (run_client env (Controller_msg ALLOCATE_WORK data # Thread_runs # evs) \<lparr>p_state = Client_running, p_worker = w\<rparr>)
      = Process_terminated
    \<and> wk_to_controller (p_worker (run_client env (Controller_msg ALLOCATE_WORK data # Thread_runs # evs)
         \<lparr>p_state = Client_running, p_worker = w\<rparr>)) = wk_to_controller w"
proof -
  let ?w = "w\<lparr>wk_joinable := True, wk_progress := Reading (Loaded wct)\<rparr>"
  have "process_step env (Controller_msg ALLOCATE_WORK data) \<lparr>p_state = Client_running, p_worker = w\<rparr>
      = \<lparr>p_state = Client_running, p_worker = ?w\<rparr>"
    using assms(1-3) by (simp add: process_step_def handle_Worker_Socket_Msg_def start_worker_thread_def idle_def)
  moreover have "run_work env ?w wct = Inl e" using assms(4) by (subst run_work_frame [of _ w]) simp_all
  then have "process_step env Thread_runs \<lparr>p_state = Client_running, p_worker = ?w\<rparr>
      = \<lparr>p_state = Process_terminated, p_worker = ?w\<rparr>"
    by (simp add: process_step_def thread_step_def)
  ultimately show ?thesis by (simp add: terminated_stays)
qed

section \<open>Applying the properties\<close>

text \<open>A small worker: two cores, evolution that changes nothing, work that may need a library.\<close>

definition demo_pop :: "nat \<times> int list list \<times> u32" where
  "demo_pop = (1, [[4], [3], [2], [1]], 7)"

definition demo_container :: "(string, nat \<times> int list list \<times> u32) work_container" where
  "demo_container = work_container_new ''de'' demo_pop '''' 1"

definition demo_load :: "(string \<times> bytes option) list \<Rightarrow> bytes \<Rightarrow> (string, nat \<times> int list list \<times> u32) load" where
  "demo_load received data =
    (if data = [1] \<or> (data = [2] \<and> list_ex (\<lambda>(lib, f). lib = ''schwefel'' \<and> f \<noteq> None) received) then Loaded demo_container
     else if data = [2] then Fetch ''schwefel'' (\<lambda>b. if b = None then Failed (Runtime_error ''no library'') else Loaded demo_container)
     else Failed (Runtime_error ''archive''))"

fun demo_name :: "bytes \<Rightarrow> string \<Rightarrow> (string \<times> bytes) option" where
  "demo_name (m # c # bs) cs = (if m = 1 then demo_name bs (cs @ [char_of (unat c)]) else Some (cs, c # bs))"
| "demo_name _ cs = None"

definition demo_emit_dll :: "dll_binary_container \<Rightarrow> stream_op list" where
  "demo_emit_dll d =
    [Xsputn (concat (map (\<lambda>c. [1, word_of_nat (of_char c)]) (dll_name d))),
     Xsputn (case dll_file d of None \<Rightarrow> [0, 0] | Some f \<Rightarrow> [0, 1] @ f)]"

definition demo_parse_dll :: "bytes \<Rightarrow> dll_binary_container result" where
  "demo_parse_dll bs =
    (case demo_name bs [] of
       Some (n, t # f) \<Rightarrow> Inr \<lparr>dll_name = n, dll_file = (if t = 1 then Some f else None)\<rparr>
     | _ \<Rightarrow> Inl (Runtime_error ''archive''))"

lemma demo_name_emit:
  "demo_name (concat (map (\<lambda>c. [1, word_of_nat (of_char c)]) cs) @ 0 # b # bs) ds = Some (ds @ cs, b # bs)"
proof (induction cs arbitrary: ds)
  case (Cons c cs)
  have "(char_of (unat (word_of_nat (of_char c) :: byte)) :: char) = c" by (simp add: unat_of_nat)
  then show ?case using Cons by simp
qed simp

lemma demo_dll_codec_ok: "codec_ok demo_emit_dll demo_parse_dll"
proof -
  have "demo_parse_dll (concat (map op_bytes (demo_emit_dll d))) = Inr d \<and> concat (map op_bytes (demo_emit_dll d)) \<noteq> []" for d
    by (cases d; cases "dll_file d") (simp_all add: demo_emit_dll_def demo_parse_dll_def demo_name_emit)
  then show ?thesis by (simp add: codec_ok_def)
qed

definition demo_wenv :: "(string, nat, nat \<times> int list list \<times> u32, int) wenv" where
  "demo_wenv = \<lparr>we_pg = demo_pagmo, we_ties = (\<lambda>xs. xs), we_random = 0, we_cores = 2,
     we_evolve = (\<lambda>a p. if a = ''de'' then Inr p else Inl (Invalid_argument ''algorithm'')),
     we_archi = (\<lambda>ias c. Inr ias), we_load = demo_load, we_emit = (\<lambda>c. [Overflow 65]),
     we_emit_request = demo_emit, we_parse_dll = demo_parse_dll, we_xml = demo_xml,
     we_bind = (\<lambda>a. Inr ()), we_connect = (\<lambda>a. Inr ())\<rparr>"

definition demo_worker :: "(string, nat \<times> int list list \<times> u32) worker" where
  "demo_worker = \<lparr>wk_heartbeat_interval = 2000, wk_heartbeat_timeout = 300000, wk_reconnect_ivl_max = 10000,
     wk_options = [], wk_settings = \<lparr>settingsPath = ''w'', st_value = \<lparr>ws_workerId = ''w''\<rparr>, autoSave = True\<rparr>,
     wk_disk = demo_disk, wk_id = ''w'', wk_mode = SINGLE_THREADED, wk_min_island_pop = 4, wk_controller = ''c'',
     wk_joinable = False, wk_progress = Thread_ended, wk_received = [], wk_from_thread = [], wk_to_thread = [],
     wk_to_controller = [], wk_client_thread = True\<rparr>"

lemma demo_worker_idle: "idle demo_worker" "wk_to_controller demo_worker = []"
  by (simp_all add: idle_def demo_worker_def)

lemma demo_wenv_ok:
  "pagmo_ok (we_pg demo_wenv)" "pagmo_total (we_pg demo_wenv) (\<lambda>p x. True)" "rearranges (we_ties demo_wenv)"
  "archi_ok demo_wenv" "evolves demo_wenv"
  using demo_pagmo_ok demo_pagmo_total rearranges_id
  by (simp_all add: demo_wenv_def archi_ok_def evolves_def list_all2_refl)

lemma demo_sizes: "length (pg_x demo_pagmo demo_pop) = 4" "base_size m 4 n = (let b = max m (4 div n) in if b - b mod 4 = 0 then 4 else b - b mod 4)"
  by (simp_all add: demo_pagmo_def demo_pop_def base_size_def Let_def)

theorem split_keeps_individuals_witness:
  "\<exists>pops. split_population_for_islands demo_pagmo 8 demo_pop 2 = Inr pops \<and> length pops = 2
    \<and> 4 \<le> sum_list (map (\<lambda>q. length (pg_x demo_pagmo q)) pops)"
  using split_keeps_individuals [OF demo_pagmo_ok demo_pagmo_total, of 2 8 demo_pop] demo_sizes by auto

theorem archipelago_answer_witness:
  "(\<exists>wct. archipelago_based_worker demo_wenv 4 ''de'' demo_pop 1 = Inr wct
      \<and> length (pg_x (we_pg demo_wenv) (pop wct)) = 4)
   \<and> (\<exists>wct. archipelago_based_worker demo_wenv 4 ''de'' (1, replicate 9 [5], 7) 1 = Inr wct
      \<and> length (pg_x (we_pg demo_wenv) (pop wct)) = 9)"
proof
  have pg: "we_pg demo_wenv = demo_pagmo" and cores: "compute_optimal_island_count (we_cores demo_wenv) = 2"
    by (simp_all add: demo_wenv_def compute_optimal_island_count_def)
  have nine: "length (pg_x demo_pagmo (1, replicate 9 [5], 7)) = 9" "pg_problem demo_pagmo (1, replicate 9 [5], 7) = 1"
    by (simp_all add: demo_pagmo_def)
  have one: "pg_problem demo_pagmo demo_pop = 1" by (simp add: demo_pagmo_def demo_pop_def)
  have fits: "base_size 4 (length (pg_x (we_pg demo_wenv) demo_pop)) (compute_optimal_island_count (we_cores demo_wenv))
        * compute_optimal_island_count (we_cores demo_wenv) < 2 ^ 64"
      "base_size 4 (length (pg_x (we_pg demo_wenv) (1, replicate 9 [5], 7))) (compute_optimal_island_count (we_cores demo_wenv))
        * compute_optimal_island_count (we_cores demo_wenv) < 2 ^ 64"
    unfolding pg cores demo_sizes nine by (simp_all add: base_size_def Let_def)
  show "\<exists>wct. archipelago_based_worker demo_wenv 4 ''de'' demo_pop 1 = Inr wct \<and> length (pg_x (we_pg demo_wenv) (pop wct)) = 4"
    using archipelago_answer [OF demo_wenv_ok fits(1), of "''de''" 1]
    unfolding pg one demo_sizes demo_pagmo_counts by auto
  show "\<exists>wct. archipelago_based_worker demo_wenv 4 ''de'' (1, replicate 9 [5], 7) 1 = Inr wct
      \<and> length (pg_x (we_pg demo_wenv) (pop wct)) = 9"
    using archipelago_answer [OF demo_wenv_ok fits(2), of "''de''" 1]
    unfolding pg nine demo_pagmo_counts by auto
qed

theorem work_is_answered_witness:
  "map fst (wk_to_controller (p_worker (run_client demo_wenv
       (Controller_msg ALLOCATE_WORK [2] # job_events demo_emit_dll (\<lambda>n. Some [7]) (we_load demo_wenv [] [2]))
       \<lparr>p_state = Client_running, p_worker = demo_worker\<rparr>))) = [GET_DLL, WORK_RESULTS]"
proof -
  have load: "loads_to (\<lambda>n. Some [7]) (we_load demo_wenv [] [2]) = Inr demo_container"
      "dlls_asked (\<lambda>n. Some [7]) (we_load demo_wenv [] [2]) = [''schwefel'']"
    by (simp_all add: demo_wenv_def demo_load_def)
  have none: "wk_received demo_worker = []" by (simp add: demo_worker_def)
  have "run_work demo_wenv demo_worker demo_container = Inr (work_container_new ''de'' demo_pop '''' 1)"
    by (simp add: run_work_def demo_worker_def single_threaded_worker_def demo_wenv_def demo_container_def work_container_new_def)
  from work_is_answered [OF _ demo_worker_idle(1) _ load(1) [folded none] this, of demo_emit_dll] show ?thesis
    using demo_dll_codec_ok demo_worker_idle(2) by (simp add: none load(2)) (simp add: demo_wenv_def)
qed

theorem second_work_kills_worker_witness:
  "p_state (run_client demo_wenv [Controller_msg ALLOCATE_WORK [1], Controller_msg ALLOCATE_WORK [2]]
     \<lparr>p_state = Client_running, p_worker = demo_worker\<rparr>) = Process_terminated"
proof -
  let ?p = "process_step demo_wenv (Controller_msg ALLOCATE_WORK [1]) \<lparr>p_state = Client_running, p_worker = demo_worker\<rparr>"
  have "p_state ?p = Client_running" "wk_joinable (p_worker ?p)"
    by (simp_all add: process_step_def handle_Worker_Socket_Msg_def start_worker_thread_def demo_worker_def)
  from second_work_kills_worker [OF this, of demo_wenv "[2]" "[]"] show ?thesis by simp
qed

theorem failing_work_kills_worker_witness:
  "p_state (run_client (demo_wenv\<lparr>we_evolve := (\<lambda>a p. Inl (Runtime_error ''nan''))\<rparr>)
     [Controller_msg ALLOCATE_WORK [1], Thread_runs] \<lparr>p_state = Client_running, p_worker = demo_worker\<rparr>) = Process_terminated"
proof -
  let ?e = "demo_wenv\<lparr>we_evolve := (\<lambda>a p. Inl (Runtime_error ''nan''))\<rparr>"
  have "we_load ?e (wk_received demo_worker) [1] = Loaded demo_container" "run_work ?e demo_worker demo_container = Inl (Runtime_error ''nan'')"
    by (simp_all add: demo_wenv_def demo_load_def run_work_def demo_worker_def single_threaded_worker_def)
  from failing_work_kills_worker [OF demo_worker_idle(1) _ this, of "[]"] show ?thesis by simp
qed

text \<open>Two pieces of work, the second only after the answer to the first; the first needs a library.\<close>

definition demo_events :: "worker_event list" where
  "demo_events = [Controller_msg ALLOCATE_WORK [2], Thread_socket_msg, Thread_runs, Controller_msg GET_DLL [], Thread_socket_msg,
     Controller_msg DLL_BINARY (vector_serialize demo_emit_dll \<lparr>dll_name = ''schwefel'', dll_file = Some [7]\<rparr>),
     Thread_runs, Thread_runs, Thread_socket_msg, Controller_msg ALLOCATE_WORK [2], Thread_runs]"

lemma demo_polite: "polite (\<lambda>n. Some [7]) demo_wenv 0 demo_events \<lparr>p_state = Client_running, p_worker = demo_worker\<rparr>"
  using serialize_roundtrip [OF demo_dll_codec_ok]
  by (simp add: polite_def demo_events_def demo_wenv_def demo_load_def process_step_def thread_step_def run_work_def
      handle_Worker_Socket_Msg_def start_worker_thread_def handle_Thread_Socket_Msg_def results_sent_def request_dll_def
      receive_dll_def right_answer_def demo_worker_def single_threaded_worker_def demo_container_def work_container_new_def)

theorem worker_stays_in_service_witness:
  "p_state (run_client demo_wenv demo_events \<lparr>p_state = Client_running, p_worker = demo_worker\<rparr>) = Client_running"
  using worker_stays_in_service [OF demo_worker_idle _ demo_polite] by (simp add: honest_def demo_worker_def)

end
