(* ===== verification/Sockets.thy ===== *)
theory Sockets
  imports Messages
begin

unbundle bit_operations_syntax

text \<open>
  \<^verbatim>\<open>src/distributed/sockets\<close>: how messages are cut into ZeroMQ frames. A client socket (dealer,
  pair) sends the message type and the payload; the router sends and receives the identity of
  the peer in front. The messages by which ZeroMQ reports a connection and its loss cannot have
  more than one frame, so the router does not read a payload after \<open>WORKER_JOIN\<close> and
  \<open>WORKER_LEAVE\<close>.

  ZeroMQ is not code of the repository. A socket is modelled by the frames that have arrived
  and the messages that were handed to it; \<open>recv\<close> takes the next frame, and waits (\<open>None\<close>)
  when there is none.
\<close>

section \<open>Integers in frames\<close>

text \<open>\<open>memcpy\<close> between an \<open>int\<close> and a frame, little-endian.\<close>

definition le_bytes :: "u32 \<Rightarrow> bytes" where
  "le_bytes x = map (\<lambda>k. ucast (drop_bit k x)) [0, 8, 16, 24]"

definition int_frame :: "int \<Rightarrow> bytes" where
  "int_frame i = le_bytes (word_of_int i)"

definition frame_int :: "bytes \<Rightarrow> int result" where
  "frame_int f = (case f of
      b0 # b1 # b2 # b3 # rest \<Rightarrow>
        Inr (sint (ucast b0 OR push_bit 8 (ucast b1) OR push_bit 16 (ucast b2) OR push_bit 24 (ucast b3) :: u32))
    | _ \<Rightarrow> Inl (Undefined_behaviour ''memcpy beyond the frame''))"

section \<open>The base class\<close>

record zmq_socket =
  sk_in :: "bytes list"
  sk_out :: "bytes list list"
  sk_partial :: "bytes list"
  sk_bound :: "string list"
  sk_connected :: "string list"
  sk_routing_id :: bytes

definition socket_new :: "zmq_socket" where
  "socket_new = \<lparr>sk_in = [], sk_out = [], sk_partial = [], sk_bound = [], sk_connected = [], sk_routing_id = []\<rparr>"

definition socket_bind :: "string \<Rightarrow> zmq_socket \<Rightarrow> zmq_socket" where
  "socket_bind address s = s\<lparr>sk_bound := sk_bound s @ [address]\<rparr>"

definition socket_connect :: "string \<Rightarrow> zmq_socket \<Rightarrow> zmq_socket" where
  "socket_connect address s = s\<lparr>sk_connected := sk_connected s @ [address]\<rparr>"

text \<open>\<open>send\<close> with the flags \<open>sndmore\<close> and \<open>none\<close>: the message leaves with its last frame.\<close>

definition send_more :: "bytes \<Rightarrow> zmq_socket \<Rightarrow> zmq_socket" where
  "send_more f s = s\<lparr>sk_partial := sk_partial s @ [f]\<rparr>"

definition send_last :: "bytes \<Rightarrow> zmq_socket \<Rightarrow> zmq_socket" where
  "send_last f s = s\<lparr>sk_out := sk_out s @ [sk_partial s @ [f]], sk_partial := []\<rparr>"

definition recv_frame :: "zmq_socket \<Rightarrow> (bytes \<times> zmq_socket) option" where
  "recv_frame s = (case sk_in s of [] \<Rightarrow> None | f # fs \<Rightarrow> Some (f, s\<lparr>sk_in := fs\<rparr>))"

section \<open>Client sockets\<close>

definition dealer_send :: "MsgType \<Rightarrow> bytes \<Rightarrow> zmq_socket \<Rightarrow> zmq_socket" where
  "dealer_send type serialized s = send_last serialized (send_more (int_frame (msg_int type)) s)"

definition pair_send :: "MsgType \<Rightarrow> bytes \<Rightarrow> zmq_socket \<Rightarrow> zmq_socket" where
  "pair_send type serialized s = send_last serialized (send_more (int_frame (msg_int type)) s)"

text \<open>\<open>client_socket::send\<close> without a payload and with an object.\<close>

definition client_send_empty :: "(MsgType \<Rightarrow> bytes \<Rightarrow> zmq_socket \<Rightarrow> zmq_socket) \<Rightarrow> MsgType \<Rightarrow> zmq_socket \<Rightarrow> zmq_socket" where
  "client_send_empty send type s = send type [] s"

definition client_send_object ::
  "(MsgType \<Rightarrow> bytes \<Rightarrow> zmq_socket \<Rightarrow> zmq_socket) \<Rightarrow> ('x \<Rightarrow> stream_op list) \<Rightarrow> MsgType \<Rightarrow> 'x \<Rightarrow> zmq_socket \<Rightarrow> zmq_socket" where
  "client_send_object send emit type payload s = send type (vector_serialize emit payload) s"

definition dealer_receive :: "zmq_socket \<Rightarrow> ((MsgType \<times> bytes) result \<times> zmq_socket) option" where
  "dealer_receive s =
    (case recv_frame s of
       None \<Rightarrow> None
     | Some (typeMsg, s1) \<Rightarrow>
         (case recv_frame s1 of
            None \<Rightarrow> None
          | Some (payloadMsg, s2) \<Rightarrow>
              (case frame_int typeMsg of
                 Inl e \<Rightarrow> Some (Inl e, s2)
               | Inr type \<Rightarrow> Some (Inr (msg_of_int type, payloadMsg), s2))))"

definition pair_receive :: "zmq_socket \<Rightarrow> ((MsgType \<times> bytes) result \<times> zmq_socket) option" where
  "pair_receive s =
    (case recv_frame s of
       None \<Rightarrow> None
     | Some (typeMsg, s1) \<Rightarrow>
         (case recv_frame s1 of
            None \<Rightarrow> None
          | Some (payloadMsg, s2) \<Rightarrow>
              (case frame_int typeMsg of
                 Inl e \<Rightarrow> Some (Inl e, s2)
               | Inr type \<Rightarrow> Some (Inr (msg_of_int type, payloadMsg), s2))))"

definition set_routing_id :: "string \<Rightarrow> zmq_socket \<Rightarrow> zmq_socket" where
  "set_routing_id routingId s = s\<lparr>sk_routing_id := map (\<lambda>c. word_of_nat (of_char c)) routingId\<rparr>"

section \<open>Server sockets\<close>

definition router_send :: "bytes \<Rightarrow> MsgType \<Rightarrow> bytes \<Rightarrow> zmq_socket \<Rightarrow> zmq_socket" where
  "router_send receiverId type serialized s =
     send_last serialized (send_more (int_frame (msg_int type)) (send_more receiverId s))"

definition server_send_empty :: "bytes \<Rightarrow> MsgType \<Rightarrow> zmq_socket \<Rightarrow> zmq_socket" where
  "server_send_empty receiverId type s = router_send receiverId type [] s"

definition server_send_object :: "('x \<Rightarrow> stream_op list) \<Rightarrow> bytes \<Rightarrow> MsgType \<Rightarrow> 'x \<Rightarrow> zmq_socket \<Rightarrow> zmq_socket" where
  "server_send_object emit receiverId type payload s = router_send receiverId type (vector_serialize emit payload) s"

definition router_receive :: "zmq_socket \<Rightarrow> ((bytes \<times> MsgType \<times> bytes) result \<times> zmq_socket) option" where
  "router_receive s =
    (case recv_frame s of
       None \<Rightarrow> None
     | Some (identity, s1) \<Rightarrow>
         (case recv_frame s1 of
            None \<Rightarrow> None
          | Some (typeMsg, s2) \<Rightarrow>
              (case frame_int typeMsg of
                 Inl e \<Rightarrow> Some (Inl e, s2)
               | Inr type \<Rightarrow>
                   (let msgType = msg_of_int type
                    in if msgType \<noteq> WORKER_JOIN \<and> msgType \<noteq> WORKER_LEAVE
                       then (case recv_frame s2 of
                               None \<Rightarrow> None
                             | Some (payloadMsg, s3) \<Rightarrow> Some (Inr (identity, msgType, payloadMsg), s3))
                       else Some (Inr (identity, msgType, []), s2)))))"

section \<open>Lemmas\<close>

lemma le_bytes_inverse:
  "ucast (ucast x :: byte) OR push_bit 8 (ucast (ucast (drop_bit 8 x) :: byte))
     OR push_bit 16 (ucast (ucast (drop_bit 16 x) :: byte)) OR push_bit 24 (ucast (ucast (drop_bit 24 x) :: byte))
   = (x :: u32)"
proof (rule bit_eqI)
  fix n assume "possible_bit TYPE(32 word) n"
  then have n: "n < 32" by (simp add: possible_bit_word)
  then consider "n < 8" | "8 \<le> n \<and> n < 16" | "16 \<le> n \<and> n < 24" | "24 \<le> n" by linarith
  then show "bit (ucast (ucast x :: byte) OR push_bit 8 (ucast (ucast (drop_bit 8 x) :: byte))
     OR push_bit 16 (ucast (ucast (drop_bit 16 x) :: byte))
     OR push_bit 24 (ucast (ucast (drop_bit 24 x) :: byte)) :: u32) n = bit x n"
    using n by cases (auto simp: bit_simps)
qed

lemma frame_int_frame:
  assumes "- (2 ^ 31) \<le> i" and "i < 2 ^ 31"
  shows "frame_int (int_frame i) = Inr i"
proof -
  have "sint (word_of_int i :: u32) = i"
    using assms by (simp add: sint_sbintrunc' signed_take_bit_int_eq_self)
  then show ?thesis by (simp add: frame_int_def int_frame_def le_bytes_def le_bytes_inverse)
qed

lemma frame_msg: "msg_ok t \<Longrightarrow> frame_int (int_frame (msg_int t)) = Inr (msg_int t)"
  using msg_int_range frame_int_frame by blast

section \<open>Streams of messages\<close>

text \<open>All frames of a message are there when its first one is: ZeroMQ delivers messages whole.\<close>

fun receive_n :: "(zmq_socket \<Rightarrow> ('m result \<times> zmq_socket) option) \<Rightarrow> nat \<Rightarrow> zmq_socket
    \<Rightarrow> 'm result option list \<times> zmq_socket" where
  "receive_n receive 0 s = ([], s)"
| "receive_n receive (Suc n) s =
     (case receive s of
        None \<Rightarrow> ([None], s)
      | Some (m, s1) \<Rightarrow> (let (ms, s2) = receive_n receive n s1 in (Some m # ms, s2)))"

text \<open>
  What a kind of socket promises: a message in its frames is received as it is and its frames are
  taken off, and a message sent leaves as one multipart message. Streams follow for every kind.
\<close>

locale framed_socket =
  fixes receive :: "zmq_socket \<Rightarrow> ('m result \<times> zmq_socket) option"
    and send :: "'n \<Rightarrow> zmq_socket \<Rightarrow> zmq_socket"
    and arriving :: "'m \<Rightarrow> bytes list"
    and leaving :: "'n \<Rightarrow> bytes list"
    and receivable :: "'m \<Rightarrow> bool"
  assumes receives: "receivable m \<Longrightarrow> sk_in s = arriving m @ rest \<Longrightarrow> receive s = Some (Inr m, s\<lparr>sk_in := rest\<rparr>)"
    and sends: "sk_partial s = [] \<Longrightarrow> sk_out (send n s) = sk_out s @ [leaving n] \<and> sk_partial (send n s) = []"
begin

lemma receive_stream:
  "list_all receivable ms \<Longrightarrow> sk_in s = concat (map arriving ms) @ rest \<Longrightarrow>
   receive_n receive (length ms) s = (map (\<lambda>m. Some (Inr m)) ms, s\<lparr>sk_in := rest\<rparr>)"
proof (induction ms arbitrary: s)
  case (Cons m ms)
  have "receive s = Some (Inr m, s\<lparr>sk_in := concat (map arriving ms) @ rest\<rparr>)"
    by (rule receives) (use Cons.prems in simp_all)
  then show ?case using Cons.IH [of "s\<lparr>sk_in := concat (map arriving ms) @ rest\<rparr>"] Cons.prems
    by simp
qed simp

lemma send_stream:
  "sk_partial s = [] \<Longrightarrow> sk_out (fold send ns s) = sk_out s @ map leaving ns \<and> sk_partial (fold send ns s) = []"
  by (induction ns arbitrary: s) (simp_all add: sends)

end

text \<open>How a message looks on the wire, seen by a client and by the router.\<close>

fun client_frames :: "MsgType \<times> bytes \<Rightarrow> bytes list" where
  "client_frames (t, p) = [int_frame (msg_int t), p]"

definition presence :: "MsgType \<Rightarrow> bool" where
  "presence t \<longleftrightarrow> t = WORKER_JOIN \<or> t = WORKER_LEAVE"

fun router_frames :: "bytes \<times> MsgType \<times> bytes \<Rightarrow> bytes list" where
  "router_frames (i, t, p) =
     (if presence t then [i, int_frame (msg_int t)] else [i, int_frame (msg_int t), p])"

fun routable :: "bytes \<times> MsgType \<times> bytes \<Rightarrow> bool" where
  "routable (i, t, p) \<longleftrightarrow> msg_ok t \<and> (presence t \<longrightarrow> p = [])"

lemma dealer_receive_frames:
  "msg_ok t \<Longrightarrow> sk_in s = int_frame (msg_int t) # p # rest \<Longrightarrow>
   dealer_receive s = Some (Inr (t, p), s\<lparr>sk_in := rest\<rparr>)"
  by (simp add: dealer_receive_def recv_frame_def frame_msg)

lemmas send_simps = send_more_def send_last_def

interpretation dealer: framed_socket dealer_receive "\<lambda>(t, p). dealer_send t p" client_frames client_frames "\<lambda>(t, p). msg_ok t"
  by unfold_locales (auto simp: dealer_receive_frames dealer_send_def send_simps)

interpretation pair_socket: framed_socket pair_receive "\<lambda>(t, p). pair_send t p" client_frames client_frames "\<lambda>(t, p). msg_ok t"
  by unfold_locales (auto simp: pair_receive_def recv_frame_def frame_msg pair_send_def send_simps)

interpretation router: framed_socket router_receive "\<lambda>(i, t, p). router_send i t p" router_frames
    "\<lambda>(i, t, p). [i, int_frame (msg_int t), p]" routable
  by unfold_locales
    (auto simp: router_receive_def recv_frame_def frame_msg Let_def presence_def router_send_def send_simps)

section \<open>Properties\<close>

text \<open>
  The router reads back a stream in which ordinary messages and the one-frame presence
  messages of ZeroMQ are mixed. If every arrived message has its identity frame in front, then
  receiving as often as there are messages yields exactly these messages in order, an empty
  payload for \<open>WORKER_JOIN\<close> and \<open>WORKER_LEAVE\<close>, and leaves the frames behind them.
\<close>

lemma router_stream_example:
  "fst (receive_n router_receive 3 (socket_new\<lparr>sk_in :=
      [[7], [0, 0, 0, 0], [7], [3, 0, 0, 0], [1, 2], [8], [1, 0, 0, 0]]\<rparr>))
   = [Some (Inr ([7], WORKER_JOIN, [])), Some (Inr ([7], WORK_RESULTS, [1, 2])), Some (Inr ([8], WORKER_LEAVE, []))]"
proof -
  let ?ms = "[([7], WORKER_JOIN, []), ([7], WORK_RESULTS, [1, 2]), ([8], WORKER_LEAVE, [])] :: (bytes \<times> MsgType \<times> bytes) list"
  have "fst (receive_n router_receive (length ?ms) (socket_new\<lparr>sk_in :=
      [[7], [0, 0, 0, 0], [7], [3, 0, 0, 0], [1, 2], [8], [1, 0, 0, 0]]\<rparr>)) = map (\<lambda>m. Some (Inr m)) ?ms"
    by (subst router.receive_stream [of ?ms _ "[]"])
      (simp_all add: presence_def int_frame_def le_bytes_def)
  then show ?thesis by (simp add: eval_nat_numeral)
qed

text \<open>The streams of the two kinds of sockets, from the frames one side sends to what the other receives.\<close>

lemma dealer_to_router:
  assumes "sk_partial c = []" and "sk_out c = []" and "list_all (\<lambda>(t, p). msg_ok t \<and> \<not> presence t) ups"
    and "sk_in r = concat (map (\<lambda>m. peer # m) (sk_out (fold (\<lambda>(t, p). dealer_send t p) ups c)))"
  shows "receive_n router_receive (length ups) r = (map (\<lambda>(t, p). Some (Inr (peer, t, p))) ups, r\<lparr>sk_in := []\<rparr>)"
proof -
  let ?ups = "map (\<lambda>(t, p). (peer, t, p)) ups"
  have "sk_in r = concat (map router_frames ?ups) @ []"
    unfolding assms(4) conjunct1 [OF dealer.send_stream [OF assms(1)]] assms(2)
    using assms(3) by (induction ups) auto
  moreover have "list_all routable ?ups" using assms(3) by (auto simp: list_all_iff)
  ultimately have "receive_n router_receive (length ?ups) r = (map (\<lambda>m. Some (Inr m)) ?ups, r\<lparr>sk_in := []\<rparr>)"
    by (intro router.receive_stream)
  then show ?thesis by (auto simp: comp_def case_prod_beta)
qed

lemma router_to_dealer:
  assumes "sk_partial r = []" and "sk_out r = []" and "list_all (\<lambda>(t, p). msg_ok t) downs"
    and "sk_in c = concat (map tl (sk_out (fold (\<lambda>(t, p). router_send peer t p) downs r)))"
  shows "receive_n dealer_receive (length downs) c = (map (\<lambda>m. Some (Inr m)) downs, c\<lparr>sk_in := []\<rparr>)"
proof -
  have down: "fold (\<lambda>(t, p). router_send peer t p) downs r
      = fold (\<lambda>(i, t, p). router_send i t p) (map (\<lambda>(t, p). (peer, t, p)) downs) r"
    by (induction downs arbitrary: r) auto
  have "sk_in c = concat (map client_frames downs) @ []"
    unfolding assms(4) down conjunct1 [OF router.send_stream [OF assms(1)]] assms(2)
    by (induction downs) auto
  then show ?thesis by (rule dealer.receive_stream [OF assms(3)])
qed

lemma pair_to_pair:
  assumes "sk_partial a = []" and "sk_out a = []" and "list_all (\<lambda>(t, p). msg_ok t) ms"
    and "sk_in b = concat (sk_out (fold (\<lambda>(t, p). pair_send t p) ms a))"
  shows "receive_n pair_receive (length ms) b = (map (\<lambda>m. Some (Inr m)) ms, b\<lparr>sk_in := []\<rparr>)"
proof -
  have "sk_in b = concat (map client_frames ms) @ []"
    unfolding assms(4) conjunct1 [OF pair_socket.send_stream [OF assms(1)]] assms(2) by simp
  then show ?thesis by (rule pair_socket.receive_stream [OF assms(3)])
qed

text \<open>
  C17: messages arrive unchanged, in order and with nothing added or left over. From a dealer to
  the router, whatever the payloads and for all types but the two presence types, with the
  identity ZeroMQ puts in front; from the router to a dealer for all types, ZeroMQ having taken the
  identity off; and between two pair sockets for all types, in both directions. The presence types
  are ZeroMQ's own one-frame messages: should a dealer send one, the router would take it without
  its payload frame, which it would read as the identity of the next message.
\<close>

theorem client_router_exchange:
  assumes "sk_partial c = []" and "sk_out c = []" and "sk_partial r = []" and "sk_out r = []"
    and "list_all (\<lambda>(t, p). msg_ok t \<and> \<not> presence t) ups"
    and "list_all (\<lambda>(t, p). msg_ok t) downs"
    and "sk_in r = concat (map (\<lambda>m. peer # m) (sk_out (fold (\<lambda>(t, p). dealer_send t p) ups c)))"
    and "sk_in c = concat (map tl (sk_out (fold (\<lambda>(t, p). router_send peer t p) downs r)))"
    and "sk_partial a = []" and "sk_out a = []" and "sk_partial b = []" and "sk_out b = []"
    and "list_all (\<lambda>(t, p). msg_ok t) there" and "list_all (\<lambda>(t, p). msg_ok t) back"
    and "sk_in b = concat (sk_out (fold (\<lambda>(t, p). pair_send t p) there a))"
    and "sk_in a = concat (sk_out (fold (\<lambda>(t, p). pair_send t p) back b))"
  shows "receive_n router_receive (length ups) r = (map (\<lambda>(t, p). Some (Inr (peer, t, p))) ups, r\<lparr>sk_in := []\<rparr>)
    \<and> receive_n dealer_receive (length downs) c = (map (\<lambda>m. Some (Inr m)) downs, c\<lparr>sk_in := []\<rparr>)
    \<and> receive_n pair_receive (length there) b = (map (\<lambda>m. Some (Inr m)) there, b\<lparr>sk_in := []\<rparr>)
    \<and> receive_n pair_receive (length back) a = (map (\<lambda>m. Some (Inr m)) back, a\<lparr>sk_in := []\<rparr>)
    \<and> (presence t \<longrightarrow> router_receive (r\<lparr>sk_in := peer # concat (sk_out (dealer_send t p c)) @ rest\<rparr>)
          = Some (Inr (peer, t, []), r\<lparr>sk_in := p # rest\<rparr>))"
proof (intro conjI impI)
  show "router_receive (r\<lparr>sk_in := peer # concat (sk_out (dealer_send t p c)) @ rest\<rparr>)
      = Some (Inr (peer, t, []), r\<lparr>sk_in := p # rest\<rparr>)" if "presence t"
    using that assms(1,2) unfolding presence_def
    by (elim disjE) (simp_all add: dealer_send_def send_simps router_receive_def recv_frame_def frame_int_frame msg_of_int_def)
qed (rule dealer_to_router [OF assms(1,2,5,7)] router_to_dealer [OF assms(3,4,6,8)]
    pair_to_pair [OF assms(9,10,13,15)] pair_to_pair [OF assms(11,12,14,16)])+

theorem client_router_exchange_witness:
  "fst (receive_n router_receive 2 (socket_new\<lparr>sk_in := [[9], int_frame 4, [5], [9], int_frame 3, []]\<rparr>))
     = [Some (Inr ([9], GET_DLL, [5])), Some (Inr ([9], WORK_RESULTS, []))]
   \<and> fst (receive_n dealer_receive 1 (socket_new\<lparr>sk_in := [int_frame 5, [6, 7]]\<rparr>)) = [Some (Inr (DLL_BINARY, [6, 7]))]
   \<and> fst (receive_n pair_receive 1 (socket_new\<lparr>sk_in := [int_frame 0, [8]]\<rparr>)) = [Some (Inr (WORKER_JOIN, [8]))]
   \<and> router_receive (socket_new\<lparr>sk_in := [[9], int_frame 1, [5]]\<rparr>) = Some (Inr ([9], WORKER_LEAVE, []), socket_new\<lparr>sk_in := [[5]]\<rparr>)"
proof -
  let ?r = "socket_new\<lparr>sk_in := [[9], int_frame 4, [5], [9], int_frame 3, []]\<rparr>" and ?c = "socket_new\<lparr>sk_in := [int_frame 5, [6, 7]]\<rparr>"
  let ?b = "socket_new\<lparr>sk_in := [int_frame 0, [8]]\<rparr>"
  note simps = socket_new_def presence_def dealer_send_def router_send_def pair_send_def send_simps
  show ?thesis
    using client_router_exchange [of ?c ?r "[(GET_DLL, [5]), (WORK_RESULTS, [])]" "[(DLL_BINARY, [6, 7])]" "[9]"
        socket_new ?b "[(WORKER_JOIN, [8])]" "[]" WORKER_LEAVE "[5]" "[]"]
    by (simp add: simps numeral_2_eq_2 del: receive_n.simps)
qed

end
