(* ===== verification/Island.thy ===== *)
theory Island
  imports Sockets Uuid
begin

text \<open>
  \<^verbatim>\<open>src/distributed/logic/include/distributed_island.h\<close> and \<^verbatim>\<open>distributed_island.cpp\<close>: the user-defined
  island of pagmo that has its evolution done by a worker. An evolution sends the algorithm and
  the population of the island to the controller, waits for the results and puts them into the
  island; every exception on the way becomes a \<open>runtime_error\<close> with the reason in its text.

  The island of pagmo is its algorithm and its population; what is asked of the two is the record
  \<open>ienv\<close>. \<open>run_evolve\<close> is \<open>None\<close> while it waits for the answer. The text that \<open>pagmo_throw\<close> puts in
  front of a message is left out.
\<close>

record distributed_island =
  is_socket :: zmq_socket
  is_islandId :: string
  is_preferredWorkerId :: string
  is_cycleCount :: u64

record ('a, 'pop) pagmo_island =
  il_algorithm :: 'a
  il_population :: 'pop

record ('a, 'pop) ienv =
  ie_algo_safety :: "'a \<Rightarrow> thread_safety"
  ie_problem_safety :: "'pop \<Rightarrow> thread_safety"
  ie_algo_name :: "'a \<Rightarrow> string"
  ie_problem_name :: "'pop \<Rightarrow> string"
  ie_emit :: "('a, 'pop) work_container \<Rightarrow> stream_op list"
  ie_parse :: "bytes \<Rightarrow> ('a, 'pop) work_container result"
  ie_connect :: "string \<Rightarrow> unit result"

section \<open>Construction and settings of an island\<close>

definition distributed_island_with :: "string \<Rightarrow> u64 \<Rightarrow> nat list \<Rightarrow> distributed_island" where
  "distributed_island_with preferred_worker_id cycle_count draws =
     \<lparr>is_socket = socket_new, is_islandId = ''island_'' @ uuid_String (uuid_New draws),
      is_preferredWorkerId = preferred_worker_id, is_cycleCount = cycle_count\<rparr>"

definition distributed_island_default :: "nat list \<Rightarrow> distributed_island" where
  "distributed_island_default draws =
     \<lparr>is_socket = socket_new, is_islandId = ''island_'' @ uuid_String (uuid_New draws),
      is_preferredWorkerId = '''', is_cycleCount = 1\<rparr>"

definition set_preferred_worker :: "string \<Rightarrow> distributed_island \<Rightarrow> distributed_island" where
  "set_preferred_worker worker d = d\<lparr>is_preferredWorkerId := worker\<rparr>"

definition set_cycle_count :: "u64 \<Rightarrow> distributed_island \<Rightarrow> distributed_island" where
  "set_cycle_count cycles d = d\<lparr>is_cycleCount := cycles\<rparr>"

definition clear_preferred_worker :: "distributed_island \<Rightarrow> distributed_island" where
  "clear_preferred_worker d = d\<lparr>is_preferredWorkerId := ''''\<rparr>"

definition clear_cycle_count :: "distributed_island \<Rightarrow> distributed_island" where
  "clear_cycle_count d = d\<lparr>is_cycleCount := 1\<rparr>"

definition island_get_name :: string where
  "island_get_name = ''Distributed island''"

definition island_get_extra_info :: "distributed_island \<Rightarrow> string" where
  "island_get_extra_info d = ''ID: '' @ is_islandId d"

section \<open>Evolution\<close>

definition load_pagmo_pop_and_algo :: "('a, 'pop) ienv \<Rightarrow> ('a, 'pop) pagmo_island \<Rightarrow> ('a \<times> 'pop) result" where
  "load_pagmo_pop_and_algo env isle =
    (if ie_algo_safety env (il_algorithm isle) < Safety_basic
     then Inl (Invalid_argument (''the 'distributed_island' UDI requires an algorithm providing at least the 'basic' ''
            @ ''thread safety guarantee, but an algorithm of type '' @ [CHR 0x27]
            @ ie_algo_name env (il_algorithm isle) @ [CHR 0x27] @ '' does not''))
     else if ie_problem_safety env (il_population isle) < Safety_basic
     then Inl (Invalid_argument (''the 'distributed_island' UDI requires a problem providing at least the 'basic' ''
            @ ''thread safety guarantee, but a problem of type '' @ [CHR 0x27]
            @ ie_problem_name env (il_population isle) @ [CHR 0x27] @ '' does not''))
     else Inr (il_algorithm isle, il_population isle))"

text \<open>The thread up to the point where it waits: check, connect, send the work.\<close>

definition island_request :: "('a, 'pop) ienv \<Rightarrow> ('a, 'pop) pagmo_island \<Rightarrow> distributed_island \<Rightarrow> unit result \<times> distributed_island" where
  "island_request env isle d =
    (case load_pagmo_pop_and_algo env isle of
       Inl e \<Rightarrow> (Inl e, d)
     | Inr (initial_algo, initial_pop) \<Rightarrow>
         (let s = set_routing_id (is_islandId d) (is_socket d)
          in case ie_connect env ''ipc://distributed_controller_islands_socket'' of
               Inl e \<Rightarrow> (Inl e, d\<lparr>is_socket := s\<rparr>)
             | Inr _ \<Rightarrow>
                 (Inr (), d\<lparr>is_socket :=
                    client_send_object dealer_send (ie_emit env) ALLOCATE_WORK
                      (work_container_new initial_algo initial_pop (is_preferredWorkerId d) (is_cycleCount d))
                      (socket_connect ''ipc://distributed_controller_islands_socket'' s)\<rparr>)))"

text \<open>The thread after the answer has come.\<close>

definition island_reply :: "('a, 'pop) ienv \<Rightarrow> MsgType \<Rightarrow> bytes \<Rightarrow> ('a, 'pop) pagmo_island \<Rightarrow> ('a, 'pop) pagmo_island result" where
  "island_reply env type binary isle =
    (if type \<noteq> WORK_RESULTS
     then Inl (Runtime_error (''Distributed island expected WORK_RESULTS from Controller, got enum value: ''
            @ int_str (msg_int type)))
     else map_sum id (\<lambda>work_results. isle\<lparr>il_population := pop work_results, il_algorithm := algo work_results\<rparr>)
            (vector_deserialize (ie_parse env) binary))"

text \<open>Rethrowing on the calling thread; undefined behaviour and \<open>terminate\<close> are no exceptions.\<close>

definition wrap_exception :: "cpp_error \<Rightarrow> cpp_error" where
  "wrap_exception = wrap_error ''Aborting distributed island, the thread has thrown an exception: ''"

definition run_evolve ::
  "('a, 'pop) ienv \<Rightarrow> ('a, 'pop) pagmo_island \<Rightarrow> distributed_island
     \<Rightarrow> (unit result \<times> ('a, 'pop) pagmo_island \<times> distributed_island) option" where
  "run_evolve env isle d =
    (case island_request env isle d of
       (Inl e, d) \<Rightarrow> Some (Inl (wrap_exception e), isle, d)
     | (Inr _, d) \<Rightarrow>
         (case dealer_receive (is_socket d) of
            None \<Rightarrow> None
          | Some (Inl e, s) \<Rightarrow> Some (Inl (wrap_exception e), isle, d\<lparr>is_socket := s\<rparr>)
          | Some (Inr (type, binary), s) \<Rightarrow>
              (case island_reply env type binary isle of
                 Inl e \<Rightarrow> Some (Inl (wrap_exception e), isle, d\<lparr>is_socket := s\<rparr>)
               | Inr isle' \<Rightarrow> Some (Inr (), isle', d\<lparr>is_socket := s\<rparr>))))"

section \<open>Properties\<close>

text \<open>A failed evolution leaves algorithm and population as they were.\<close>

lemma failed_evolution_keeps_island: "run_evolve env isle d = Some (Inl e, isle', d') \<Longrightarrow> isle' = isle"
  by (auto simp: run_evolve_def split: prod.splits sum.splits option.splits)

lemma island_request_sends:
  assumes "Safety_basic \<le> ie_algo_safety env (il_algorithm isle)"
    and "Safety_basic \<le> ie_problem_safety env (il_population isle)"
    and "ie_connect env ''ipc://distributed_controller_islands_socket'' = Inr ()" and "sk_partial (is_socket d) = []"
  shows "\<exists>d'. island_request env isle d = (Inr (), d') \<and> sk_in (is_socket d') = sk_in (is_socket d)
    \<and> sk_out (is_socket d') = sk_out (is_socket d) @ [[int_frame (msg_int ALLOCATE_WORK),
        vector_serialize (ie_emit env) (work_container_new (il_algorithm isle) (il_population isle)
          (is_preferredWorkerId d) (is_cycleCount d))]]"
  using assms
  by (simp add: island_request_def load_pagmo_pop_and_algo_def Let_def client_send_object_def dealer_send_def
      send_more_def send_last_def set_routing_id_def socket_connect_def flip: not_less)

text \<open>
  An evolution of a distributed island. When algorithm and problem are thread safe and the
  controller answers with the results of some worker, the island has sent exactly one message,
  which carries its algorithm, its population, the preferred worker and the cycle count, and
  ends up with the algorithm and the population of the results; nothing else is read.
\<close>

lemma island_adopts_results:
  assumes "codec_ok (ie_emit env) (ie_parse env)"
    and "Safety_basic \<le> ie_algo_safety env (il_algorithm isle)"
    and "Safety_basic \<le> ie_problem_safety env (il_population isle)"
    and "ie_connect env ''ipc://distributed_controller_islands_socket'' = Inr ()" and "sk_partial (is_socket d) = []"
    and "sk_in (is_socket d) = int_frame (msg_int WORK_RESULTS) # vector_serialize (ie_emit env) res # rest"
  shows "\<exists>d'. run_evolve env isle d = Some (Inr (), isle\<lparr>il_population := pop res, il_algorithm := algo res\<rparr>, d')
    \<and> sk_in (is_socket d') = rest
    \<and> sk_out (is_socket d') = sk_out (is_socket d) @ [[int_frame (msg_int ALLOCATE_WORK),
        vector_serialize (ie_emit env) (work_container_new (il_algorithm isle) (il_population isle)
          (is_preferredWorkerId d) (is_cycleCount d))]]"
proof -
  obtain d1 where d1: "island_request env isle d = (Inr (), d1)" "sk_in (is_socket d1) = sk_in (is_socket d)"
      "sk_out (is_socket d1) = sk_out (is_socket d) @ [[int_frame (msg_int ALLOCATE_WORK),
        vector_serialize (ie_emit env) (work_container_new (il_algorithm isle) (il_population isle)
          (is_preferredWorkerId d) (is_cycleCount d))]]"
    using island_request_sends [OF assms(2-5)] by blast
  have "dealer_receive (is_socket d1)
      = Some (Inr (WORK_RESULTS, vector_serialize (ie_emit env) res), (is_socket d1)\<lparr>sk_in := rest\<rparr>)"
    by (rule dealer_receive_frames) (simp_all add: d1(2) assms(6))
  then show ?thesis
    using d1 by (simp add: run_evolve_def island_reply_def serialize_roundtrip [OF assms(1)])
qed

text \<open>
  An archive for work containers whose algorithm and population are one bit each: the two bits,
  the cycle count in unary, the name of the worker.
\<close>

definition bit_emit :: "(bool, bool) work_container \<Rightarrow> stream_op list" where
  "bit_emit c =
    [Xsputn [if algo c then 1 else 0, if pop c then 1 else 0], Xsputn (replicate (unat (cycleCount c)) 1), Overflow 0,
     Xsputn (map (\<lambda>c. word_of_nat (of_char c)) (preferredWorkerId c)), Overflow (-1)]"

definition bit_parse :: "bytes \<Rightarrow> (bool, bool) work_container result" where
  "bit_parse bs =
    (case bs of
       a # p # rest \<Rightarrow>
         Inr \<lparr>algo = (a = 1), pop = (p = 1),
              preferredWorkerId = map (char_of \<circ> unat) (tl (dropWhile (\<lambda>b. b = 1) rest)),
              cycleCount = of_nat (length (takeWhile (\<lambda>b. b = 1) rest))\<rparr>
     | _ \<Rightarrow> Inl (Runtime_error ''archive''))"

lemma unary_prefix:
  "takeWhile (\<lambda>b. b = 1) (replicate n 1 @ 0 # xs) = replicate n (1 :: byte)"
  "dropWhile (\<lambda>b. b = 1) (replicate n 1 @ 0 # xs) = 0 # (xs :: bytes)"
  by (induction n) simp_all

lemma bit_codec_ok: "codec_ok bit_emit bit_parse"
proof -
  have char: "(char_of (unat (word_of_nat (of_char c) :: byte)) :: char) = c" for c :: char
    by (simp add: unat_of_nat)
  have "bit_parse (concat (map op_bytes (bit_emit x))) = Inr x" for x
    by (cases x) (simp add: bit_emit_def bit_parse_def char comp_def unary_prefix)
  then show ?thesis by (simp add: codec_ok_def bit_emit_def)
qed

definition demo_ienv :: "(bool, bool) ienv" where
  "demo_ienv = \<lparr>ie_algo_safety = (\<lambda>a. Safety_basic), ie_problem_safety = (\<lambda>p. Safety_constant),
     ie_algo_name = (\<lambda>a. ''de''), ie_problem_name = (\<lambda>p. ''schwefel''),
     ie_emit = bit_emit, ie_parse = bit_parse, ie_connect = (\<lambda>a. Inr ())\<rparr>"

theorem island_adopts_results_witness:
  "\<exists>d. run_evolve demo_ienv \<lparr>il_algorithm = True, il_population = False\<rparr>
        ((distributed_island_default [])\<lparr>is_socket := socket_new\<lparr>sk_in := [int_frame 3, [1, 1, 1, 0]]\<rparr>\<rparr>)
      = Some (Inr (), \<lparr>il_algorithm = True, il_population = True\<rparr>, d)"
proof -
  let ?d = "(distributed_island_default [])\<lparr>is_socket := socket_new\<lparr>sk_in := [int_frame 3, [1, 1, 1, 0]]\<rparr>\<rparr>"
  have bytes: "vector_serialize bit_emit (work_container_new True True '''' 1) = [1, 1, 1, 0]"
    by (simp add: vector_serialize_bytes bit_emit_def work_container_new_def)
  have "codec_ok (ie_emit demo_ienv) (ie_parse demo_ienv)" using bit_codec_ok by (simp add: demo_ienv_def)
  from island_adopts_results [OF this, of "\<lparr>il_algorithm = True, il_population = False\<rparr>" ?d "work_container_new True True '''' 1" "[]"]
  show ?thesis using bytes
    by (auto simp: demo_ienv_def less_eq_thread_safety_def socket_new_def work_container_new_def)
qed

end
