(* ===== verification/System.thy ===== *)
theory System
  imports Controller_Correct Worker_Correct Island
begin

text \<open>
  The parts together: a controller, the process of one worker it serves, and everything else as
  an environment that keeps to the protocol. Messages between the two travel in order and are
  not lost (ZeroMQ over one connection): what the controller has sent to the worker is in
  \<open>toWorkers\<close>, what the worker has sent is in \<open>wk_to_controller\<close>, and two counters say how much of
  either has arrived. Steps of the controller, of both threads of the worker and of the
  environment interleave freely.

  \<open>prov\<close> is what the controller has under the name of each library: the registry of the controller asks
  nobody else, and its handlers do not change its files. A worker whose thread needs a library asks
  for it, waits, and gets it (\<open>fetch_ok\<close>), so that reading the work ends as \<open>loads_to prov\<close> says.
\<close>

section \<open>What the controller sends to a worker\<close>

definition allocs :: "string \<Rightarrow> (string \<times> MsgType \<times> bytes) list \<Rightarrow> nat" where
  "allocs w ms = length (filter (\<lambda>m. fst m = w \<and> fst (snd m) = ALLOCATE_WORK) ms)"

definition libs_sent :: "string \<Rightarrow> (string \<times> MsgType \<times> bytes) list \<Rightarrow> nat" where
  "libs_sent w ms = length (filter (\<lambda>m. fst m = w \<and> fst (snd m) = DLL_BINARY) ms)"

definition busy :: "string \<Rightarrow> controller \<Rightarrow> nat" where
  "busy w c = (if w \<in> fst ` set (workAllocationMap c) then 1 else 0)"

definition mail_ok :: "('a, 'p, 'q, 'u) env \<Rightarrow> string \<times> MsgType \<times> bytes \<Rightarrow> bool" where
  "mail_ok e m \<longleftrightarrow>
     (fst (snd m) = ALLOCATE_WORK \<and> readable_work e (snd (snd m)))
   \<or> (fst (snd m) = DLL_BINARY \<and> (\<exists>x. snd (snd m) = vector_serialize (e_emit_dll e) x))"

text \<open>The registry of the controller asks nobody else, and has the libraries \<open>prov\<close>.\<close>

definition reg_ok :: "('a, 'p, 'q, 'u) env \<Rightarrow> (string \<Rightarrow> bytes option) \<Rightarrow> controller \<Rightarrow> bool" where
  "reg_ok e prov c \<longleftrightarrow> local_registry (e_host e) (ct_registry c)
     \<and> (\<forall>lib. stored_lib (e_host e) lib (ct_registry c) = prov lib)"

text \<open>
  Between two states of the controller: only good messages are sent, the pieces of work sent to
  \<open>w\<close> are those it is busy with in the end or has answered (\<open>done\<close>), less what it was busy with,
  and \<open>w\<close> is sent as many libraries as it asked for (\<open>libs\<close>).
\<close>

definition tracked :: "('a, 'p, 'q, 'u) env \<Rightarrow> string \<Rightarrow> nat \<Rightarrow> nat \<Rightarrow> controller \<Rightarrow> controller \<Rightarrow> bool" where
  "tracked e w done libs c c' \<longleftrightarrow>
     (\<exists>new. toWorkers c' = toWorkers c @ new \<and> (\<forall>m \<in> set new. mail_ok e m)
        \<and> allocs w new + busy w c = busy w c' + done \<and> libs_sent w new = libs)
   \<and> (\<forall>prov. reg_ok e prov c \<longrightarrow> reg_ok e prov c')"

lemma allocs_append [simp]:
  "allocs w (xs @ ys) = allocs w xs + allocs w ys" "libs_sent w (xs @ ys) = libs_sent w xs + libs_sent w ys"
  by (simp_all add: allocs_def libs_sent_def)

lemma allocs_Nil [simp]: "allocs w [] = 0" "libs_sent w [] = 0"
  by (simp_all add: allocs_def libs_sent_def)

lemma busy_le: "busy w c \<le> 1"
  by (simp add: busy_def)

lemma tracked_same:
  "toWorkers c' = toWorkers c \<Longrightarrow> workAllocationMap c' = workAllocationMap c \<Longrightarrow> ct_registry c' = ct_registry c
     \<Longrightarrow> tracked e w 0 0 c c'"
  by (simp add: tracked_def busy_def reg_ok_def)

lemma tracked_trans:
  assumes "tracked e w d1 l1 c c1" and "tracked e w d2 l2 c1 c2"
  shows "tracked e w (d1 + d2) (l1 + l2) c c2"
proof -
  obtain n1 n2 where n: "toWorkers c1 = toWorkers c @ n1" "\<forall>m \<in> set n1. mail_ok e m"
      "allocs w n1 + busy w c = busy w c1 + d1" "libs_sent w n1 = l1" "toWorkers c2 = toWorkers c1 @ n2"
      "\<forall>m \<in> set n2. mail_ok e m" "allocs w n2 + busy w c1 = busy w c2 + d2" "libs_sent w n2 = l2"
    using assms unfolding tracked_def by blast
  then have "toWorkers c2 = toWorkers c @ (n1 @ n2) \<and> (\<forall>m \<in> set (n1 @ n2). mail_ok e m)
      \<and> allocs w (n1 @ n2) + busy w c = busy w c2 + (d1 + d2) \<and> libs_sent w (n1 @ n2) = l1 + l2"
    by auto
  then show ?thesis using assms unfolding tracked_def by blast
qed

lemma tracked_assigned:
  assumes "ctl_ok e c" and "v \<in> set (freeWorkersPool c)" and "readable_work e d"
  shows "tracked e w 0 0 c (assigned e t v i d c)"
proof -
  have "v \<notin> fst ` set (workAllocationMap c)" using assms(1,2) by (auto simp: ctl_ok_def sched_ok_def)
  then have "allocs w [(v, ALLOCATE_WORK, d)] + busy w c = busy w (assigned e t v i d c)"
      "libs_sent w [(v, ALLOCATE_WORK, d)] = 0"
    by (auto simp: allocs_def libs_sent_def busy_def)
  then show ?thesis
    using assms(3) by (auto simp: tracked_def mail_ok_def reg_ok_def)
qed

lemma tracked_erase:
  "w \<notin> fst ` set (workAllocationMap c) \<or> v \<noteq> w \<Longrightarrow> workAllocationMap c' = map_erase v (workAllocationMap c)
     \<Longrightarrow> toWorkers c' = toWorkers c \<Longrightarrow> ct_registry c' = ct_registry c \<Longrightarrow> tracked e w 0 0 c c'"
  by (auto simp: tracked_def busy_def reg_ok_def)

lemma tracked_done:
  "w \<in> fst ` set (workAllocationMap c) \<Longrightarrow> workAllocationMap c' = map_erase w (workAllocationMap c)
     \<Longrightarrow> toWorkers c' = toWorkers c \<Longrightarrow> ct_registry c' = ct_registry c \<Longrightarrow> tracked e w 1 0 c c'"
  by (auto simp: tracked_def busy_def reg_ok_def)

section \<open>Every handler is tracked\<close>

lemma allocate_island_tracked:
  assumes "ctl_ok e c" and "readable_work e d"
  shows "tracked e w 0 0 c (snd (allocate_island_work e ch i d c))"
proof (cases "freeWorkersPool c = []")
  case True
  then show ?thesis by (auto simp: allocate_island_work_def intro: tracked_same)
next
  case False
  obtain v where v: "v \<in> set (freeWorkersPool c)"
      "allocate_worker_to_island e ch i d c = (Inr (), assigned e (ch_now ch) v i d c)"
    using allocate_worker_eq [OF assms(1) False assms(2)] by blast
  show ?thesis
    using tracked_assigned [OF assms(1) v(1) assms(2)] False v(2) by (simp add: allocate_island_work_def)
qed

lemma add_free_tracked:
  assumes "ctl_ok e c" and "no_idle c" and "v \<in> known c" and "v \<notin> fst ` set (workAllocationMap c)"
  shows "tracked e w 0 0 c (snd (add_free_worker e ch v c))"
proof (cases "islandsWaitingForAlloc c = []")
  case True
  then show ?thesis by (auto simp: add_free_worker_def intro: tracked_same)
next
  case False
  obtain i d c2 where c2: "c2 = c\<lparr>freeWorkersPool := [v], islandsWaitingForAlloc := map_erase i (islandsWaitingForAlloc c)\<rparr>"
      "add_free_worker e ch v c = (Inr (), assigned e (ch_now ch) v i d c2)" "ctl_ok e c2" "readable_work e d"
    using add_free_waiting [OF assms False] by blast
  have "tracked e w 0 0 c c2" by (rule tracked_same) (simp_all add: c2(1))
  moreover have "tracked e w 0 0 c2 (assigned e (ch_now ch) v i d c2)"
    by (rule tracked_assigned [OF c2(3) _ c2(4)]) (simp add: c2(1))
  ultimately show ?thesis using tracked_trans [of e w 0 0 c c2 0 0] c2(2) by simp
qed

lemma join_tracked:
  assumes inv: "ctl_inv e c" and nb: "v \<notin> fst ` set (workAllocationMap c)"
  shows "tracked e w 0 0 c (snd (handle_join e ch v c))"
proof (cases "v \<in> set (freeWorkersPool c)")
  case True
  then show ?thesis by (auto simp: handle_join_def intro: tracked_same)
next
  case False
  let ?c = "set_repo e (worker_joined v worker_info_new (repo c)) c"
  have ok: "ctl_ok e ?c" using inv by (intro ctl_ok_set_repo) (auto simp: ctl_inv_def joined_dom)
  have "tracked e w 0 0 ?c (snd (add_free_worker e ch v ?c))"
    by (rule add_free_tracked [OF ok]) (use inv nb in \<open>simp_all add: ctl_inv_def joined_dom\<close>)
  moreover have "tracked e w 0 0 c ?c" by (rule tracked_same) simp_all
  moreover have "can_save c" using inv by (simp add: ctl_inv_def ctl_ok_def)
  ultimately show ?thesis
    using False tracked_trans [of e w 0 0 c ?c 0 0] by (simp add: handle_join_def with_repo_eq)
qed

lemma leave_tracked:
  assumes inv: "ctl_inv e c" and "v \<noteq> w"
  shows "tracked e w 0 0 c (snd (handle_leave e ch v c))"
proof (cases "map_of (workAllocationMap c) v")
  case None
  have "can_save c" using inv by (simp add: ctl_inv_def ctl_ok_def)
  then show ?thesis using None by (auto simp: handle_leave_def with_repo_eq intro: tracked_same)
next
  case (Some r)
  note l = leave_busy [OF inv Some]
  have "tracked e w 0 0 c (departed e v c)"
    by (rule tracked_erase [of _ _ v]) (use assms(2) in \<open>simp_all add: departed_def Let_def\<close>)
  moreover have "tracked e w 0 0 (departed e v c) (snd (handle_leave e ch v c))"
    unfolding l(1) by (rule allocate_island_tracked [OF l(2,3)])
  ultimately show ?thesis using tracked_trans [of e w 0 0 c "departed e v c" 0 0] by simp
qed

lemma results_tracked:
  assumes inv: "ctl_inv e c" and r: "map_of (workAllocationMap c) v = Some r" and b: "readable_work e b"
  shows "tracked e w (if v = w then 1 else 0) 0 c (snd (handle_results e ch v b c))"
proof -
  obtain c2 where c2: "handle_results e ch v b c = add_free_worker e ch v c2" "ctl_ok e c2" "no_idle c2" "v \<in> known c2"
      "workAllocationMap c2 = map_erase v (workAllocationMap c)" "toWorkers c2 = toWorkers c" "ct_registry c2 = ct_registry c"
    using results_run [OF assms, of ch] by blast
  have "v \<notin> fst ` set (workAllocationMap c2)" using c2(5) by simp
  then have "tracked e w 0 0 c2 (snd (add_free_worker e ch v c2))" by (rule add_free_tracked [OF c2(2-4)])
  moreover have "v \<in> fst ` set (workAllocationMap c)" using r by (force dest: map_of_SomeD)
  then have "tracked e w (if v = w then 1 else 0) 0 c c2"
    using tracked_done [OF _ _ c2(6,7), of w e] tracked_erase [OF _ c2(5-7), of w e] c2(5)
    by (cases "v = w") simp_all
  ultimately show ?thesis
    using tracked_trans [of e w _ _ c c2 0 0] unfolding c2(1) by fastforce
qed

text \<open>A request for a library is answered with what the controller has.\<close>

definition lends :: "('a, 'p, 'q, 'u) env \<Rightarrow> string \<Rightarrow> string \<Rightarrow> bytes option \<Rightarrow> registry \<Rightarrow> controller \<Rightarrow> controller" where
  "lends e v lib f r c = c\<lparr>ct_registry := r, toWorkers := toWorkers c @
     [(v, DLL_BINARY, vector_serialize (e_emit_dll e) \<lparr>dll_name = lib, dll_file = f\<rparr>)]\<rparr>"

lemma get_dll_lends:
  assumes q: "vector_deserialize (e_request e) b = Inr q" and reg: "reg_ok e prov c"
  shows "\<exists>r. handle_get_dll e v b c = (Inr (), lends e v (req_dll_name q) (prov (req_dll_name q)) r c)
    \<and> (\<forall>prov. reg_ok e prov c \<longrightarrow> reg_ok e prov (lends e v lib f r c))"
proof -
  have stored: "stored_lib (e_host e) (req_dll_name q) (ct_registry c) = prov (req_dll_name q)" using reg by (simp add: reg_ok_def)
  from local_lib [of "e_host e" "ct_registry c" "req_dll_name q"] reg obtain r where
      "get_lib_as_file (e_host e) (req_dll_name q) (ct_registry c) = (Inr (prov (req_dll_name q)), r)"
      "local_registry (e_host e) r" "\<forall>m. stored_lib (e_host e) m r = stored_lib (e_host e) m (ct_registry c)"
    unfolding stored [symmetric] by (auto simp: reg_ok_def)
  then show ?thesis using q by (intro exI [of _ r]) (simp add: handle_get_dll_def reg_ok_def lends_def)
qed

lemma get_dll_tracked:
  assumes q: "vector_deserialize (e_request e) b = Inr q" and reg: "reg_ok e prov c"
  shows "tracked e w 0 (if v = w then 1 else 0) c (snd (handle_get_dll e v b c))"
proof -
  obtain r where r: "handle_get_dll e v b c = (Inr (), lends e v (req_dll_name q) (prov (req_dll_name q)) r c)"
      "\<forall>prov'. reg_ok e prov' c \<longrightarrow> reg_ok e prov' (lends e v (req_dll_name q) (prov (req_dll_name q)) r c)"
    using get_dll_lends [OF assms] by blast
  show ?thesis unfolding tracked_def r(1) snd_conv
    using r(2) by (intro conjI exI [of _ "[(v, DLL_BINARY, vector_serialize (e_emit_dll e)
        \<lparr>dll_name = req_dll_name q, dll_file = prov (req_dll_name q)\<rparr>)]"])
      (auto simp: lends_def allocs_def libs_sent_def busy_def mail_ok_def)
qed

text \<open>Who sent a message to the controller.\<close>

fun sender_worker :: "event \<Rightarrow> string option" where
  "sender_worker (Worker_msg ch v t b) = Some v"
| "sender_worker (Island_msg ch i t b) = None"

lemma event_tracked:
  assumes inv: "ctl_inv e c" and reg: "reg_ok e prov c" and ex: "expected e ev c"
    and stay: "\<And>ch b. ev \<noteq> Worker_msg ch w WORKER_LEAVE b"
  shows "tracked e w (if \<exists>ch b. ev = Worker_msg ch w WORK_RESULTS b then 1 else 0)
    (if \<exists>ch b. ev = Worker_msg ch w GET_DLL b then 1 else 0) c (snd (handle_event e ev c))"
proof (cases ev)
  case (Worker_msg ch v t b)
  show ?thesis
  proof (cases t)
    case WORKER_JOIN
    then show ?thesis using join_tracked [OF inv] ex Worker_msg by (simp add: handle_workers_msg_def)
  next
    case WORKER_LEAVE
    then have "v \<noteq> w" using stay [of ch b] Worker_msg by auto
    then show ?thesis using leave_tracked [OF inv] WORKER_LEAVE Worker_msg by (simp add: handle_workers_msg_def)
  next
    case WORK_RESULTS
    then obtain r where r: "map_of (workAllocationMap c) v = Some r" and b: "readable_work e b"
      using ex Worker_msg by (auto simp: map_contains_def [symmetric] map_contains_iff)
    show ?thesis using results_tracked [OF inv r b, of w ch] WORK_RESULTS Worker_msg
      by (cases "v = w") (simp_all add: handle_workers_msg_def)
  next
    case GET_DLL
    then obtain q where "vector_deserialize (e_request e) b = Inr q"
      using ex Worker_msg by (auto split: sum.splits)
    then show ?thesis using get_dll_tracked [OF _ reg] GET_DLL Worker_msg by (simp add: handle_workers_msg_def)
  qed (use Worker_msg in \<open>simp_all add: handle_workers_msg_def tracked_same\<close>)
next
  case (Island_msg ch i t b)
  show ?thesis
  proof (cases "t = ALLOCATE_WORK")
    case True
    then show ?thesis using allocate_island_tracked [of e c b w ch i] inv ex Island_msg
      by (simp add: handle_islands_msg_def ctl_inv_def)
  next
    case False
    then show ?thesis using Island_msg by (cases t) (simp_all add: handle_islands_msg_def tracked_same)
  qed
qed

section \<open>A controller and one of its workers\<close>

record ('a, 'pop) system =
  sy_server :: server
  sy_process :: "('a, 'pop) process"
  sy_down :: nat
  sy_up :: nat

definition mail :: "string \<Rightarrow> controller \<Rightarrow> (MsgType \<times> bytes) list" where
  "mail w c = map snd (filter (\<lambda>m. fst m = w) (toWorkers c))"

text \<open>When the connection to the worker \<open>v\<close> is closed, what was sent over it is gone.\<close>

definition forget :: "string \<Rightarrow> controller \<Rightarrow> controller" where
  "forget v c = c\<lparr>toWorkers := filter (\<lambda>m. fst m \<noteq> v) (toWorkers c)\<rparr>"

lemma forget_fields [simp]:
  "freeWorkersPool (forget v c) = freeWorkersPool c" "workAllocationMap (forget v c) = workAllocationMap c"
  "islandsWaitingForAlloc (forget v c) = islandsWaitingForAlloc c" "toIslands (forget v c) = toIslands c"
  "ct_registry (forget v c) = ct_registry c" "ct_settings (forget v c) = ct_settings c" "ct_disk (forget v c) = ct_disk c"
  "toWorkers (forget v c) = filter (\<lambda>m. fst m \<noteq> v) (toWorkers c)"
  by (simp_all add: forget_def)

lemma forget_mail [simp]: "mail w (forget v c) = (if v = w then [] else mail w c)"
proof -
  have "filter (\<lambda>m. fst m \<noteq> v \<and> fst m = w) ms = (if v = w then [] else filter (\<lambda>m. fst m = w) ms)" for ms :: "(string \<times> MsgType \<times> bytes) list"
    by (induction ms) auto
  note this [simp]
  show ?thesis by (simp add: mail_def)
qed

lemma forget_inv: "ctl_inv e c \<Longrightarrow> v \<notin> fst ` set (workAllocationMap c) \<Longrightarrow> ctl_inv e (forget v c)"
  unfolding ctl_inv_def ctl_ok_def
  by (elim conjE, intro conjI) (simp_all add: outstanding_def can_save_def, force)

definition close_connection :: "string \<Rightarrow> server \<Rightarrow> server" where
  "close_connection v sv = sv\<lparr>ctrl := forget v (ctrl sv)\<rparr>"

text \<open>
  What happens: a message of somebody else reaches the controller; the connection to somebody else is
  closed; the next message of the worker reaches the controller; the next message of the controller
  reaches the worker; the worker handles a message of its thread; the thread runs.
\<close>

datatype sys_event =
    Others event
  | Closed string
  | To_controller choice
  | To_worker
  | Worker_main
  | Worker_thread

fun sys_step :: "('a, 'p, 'q, 'u) env \<Rightarrow> ('a, 'prob, 'p, 'd::linorder) wenv \<Rightarrow> string \<Rightarrow> sys_event
    \<Rightarrow> ('a, 'p) system \<Rightarrow> ('a, 'p) system" where
  "sys_step e env w (Others ev) s = s\<lparr>sy_server := poll e ev (sy_server s)\<rparr>"
| "sys_step e env w (Closed v) s = s\<lparr>sy_server := close_connection v (sy_server s)\<rparr>"
| "sys_step e env w (To_controller ch) s =
    (if sy_up s < length (wk_to_controller (p_worker (sy_process s)))
     then (let (t, b) = wk_to_controller (p_worker (sy_process s)) ! sy_up s
           in s\<lparr>sy_server := poll e (Worker_msg ch w t b) (sy_server s), sy_up := Suc (sy_up s)\<rparr>)
     else s)"
| "sys_step e env w To_worker s =
    (if sy_down s < length (mail w (ctrl (sy_server s)))
     then (let (t, b) = mail w (ctrl (sy_server s)) ! sy_down s
           in s\<lparr>sy_process := process_step env (Controller_msg t b) (sy_process s), sy_down := Suc (sy_down s)\<rparr>)
     else s)"
| "sys_step e env w Worker_main s = s\<lparr>sy_process := process_step env Thread_socket_msg (sy_process s)\<rparr>"
| "sys_step e env w Worker_thread s = s\<lparr>sy_process := process_step env Thread_runs (sy_process s)\<rparr>"

text \<open>The worker has just joined: \<open>WORKER_JOIN\<close> is the greeting of its connection.\<close>

definition sys_start :: "('a, 'p, 'q, 'u) env \<Rightarrow> choice \<Rightarrow> string \<Rightarrow> controller \<Rightarrow> ('a, 'p) worker \<Rightarrow> ('a, 'p) system" where
  "sys_start e ch w c wk =
     \<lparr>sy_server = poll e (Worker_msg ch w WORKER_JOIN []) \<lparr>serving = True, ctrl = c\<rparr>,
      sy_process = \<lparr>p_state = Client_running, p_worker = wk\<rparr>, sy_down = 0, sy_up = 0\<rparr>"

text \<open>
  The others keep to the protocol, and none of them speaks for the worker. A connection is closed when
  nobody is busy at its end any more.
\<close>

fun others_behave :: "('a, 'p, 'q, 'u) env \<Rightarrow> string \<Rightarrow> sys_event \<Rightarrow> ('a, 'p) system \<Rightarrow> bool" where
  "others_behave e w (Others ev) s \<longleftrightarrow> expected e ev (ctrl (sy_server s)) \<and> sender_worker ev \<noteq> Some w"
| "others_behave e w (Closed v) s \<longleftrightarrow> v \<noteq> w \<and> v \<notin> fst ` set (workAllocationMap (ctrl (sy_server s)))"
| "others_behave e w ev s \<longleftrightarrow> True"

inductive sys_reach :: "('a, 'p, 'q, 'u) env \<Rightarrow> ('a, 'prob, 'p, 'd::linorder) wenv \<Rightarrow> string \<Rightarrow> ('a, 'p) system
    \<Rightarrow> ('a, 'p) system \<Rightarrow> bool" for e env w s0 where
  sys_begin: "sys_reach e env w s0 s0"
| sys_next: "sys_reach e env w s0 s \<Longrightarrow> others_behave e w ev s \<Longrightarrow> sys_reach e env w s0 (sys_step e env w ev s)"

text \<open>
  The two sides speak the same language (both use the archives of boost and pagmo), and every
  piece of work the controller can read can be done by the worker with the libraries that the
  controller has, whichever of them it has got already.
\<close>

definition same_language :: "('a, 'p, 'q, 'u) env \<Rightarrow> ('a, 'prob, 'p, 'd) wenv \<Rightarrow> bool" where
  "same_language e env \<longleftrightarrow> codec_ok (we_emit env) (e_work e) \<and> codec_ok (we_emit_request env) (e_request e)
     \<and> codec_ok (e_emit_dll e) (we_parse_dll env)"

definition can_do :: "('a, 'p, 'q, 'u) env \<Rightarrow> (string \<Rightarrow> bytes option) \<Rightarrow> ('a, 'prob, 'p, 'd::linorder) wenv
    \<Rightarrow> ('a, 'p) worker \<Rightarrow> bool" where
  "can_do e prov env wk \<longleftrightarrow>
     (\<forall>received d. honest prov received \<and> readable_work e d \<longrightarrow> never_fails prov env wk (we_load env received d))"

section \<open>What the worker says\<close>

definition good_talk :: "('a, 'prob, 'p, 'd) wenv \<Rightarrow> MsgType \<times> bytes \<Rightarrow> bool" where
  "good_talk env m \<longleftrightarrow>
     (fst m = WORK_RESULTS \<and> (\<exists>x. snd m = vector_serialize (we_emit env) x))
   \<or> (fst m = GET_DLL \<and> (\<exists>x. snd m = vector_serialize (we_emit_request env) x))"

definition talk_inv :: "('a, 'prob, 'p, 'd) wenv \<Rightarrow> ('a, 'p) worker \<Rightarrow> ('a, 'p) worker \<Rightarrow> bool" where
  "talk_inv env wk0 wk \<longleftrightarrow> wk_mode wk = wk_mode wk0 \<and> wk_min_island_pop wk = wk_min_island_pop wk0
     \<and> (\<forall>m \<in> set (wk_to_controller wk). good_talk env m)
     \<and> (\<forall>m \<in> set (wk_from_thread wk). good_talk env (snd m))"

lemma worker_step_talk:
  assumes "talk_inv env wk0 wk"
  shows "talk_inv env wk0 (snd (worker_step env ev wk))"
proof (cases ev)
  case (Controller_msg t b)
  then show ?thesis
    using assms by (cases t) (auto simp: handle_Worker_Socket_Msg_def start_worker_thread_def talk_inv_def split: progress.split)
next
  case Thread_socket_msg
  show ?thesis
  proof (cases "wk_from_thread wk")
    case Nil
    then show ?thesis using assms Thread_socket_msg by (simp add: handle_Thread_Socket_Msg_def)
  next
    case (Cons m rest)
    obtain i t b where m: "m = (i, t, b)" by (cases m)
    then have "good_talk env (t, b)" using assms Cons by (simp add: talk_inv_def)
    then have "t = WORK_RESULTS \<or> t = GET_DLL" by (auto simp: good_talk_def)
    then show ?thesis using assms Thread_socket_msg Cons m
      by (elim disjE) (simp_all add: handle_Thread_Socket_Msg_def Let_def talk_inv_def)
  qed
next
  case Thread_runs
  have request: "talk_inv env wk0 (request_dll env lib k wk)" for lib k
    using assms by (auto simp: request_dll_def talk_inv_def good_talk_def)
  have received: "talk_inv env wk0 (snd (receive_dll env lib k wk))" for lib k
    using assms by (auto simp: receive_dll_def talk_inv_def split: list.split sum.split)
  have answer: "talk_inv env wk0 (wk\<lparr>wk_from_thread := wk_from_thread wk @
      [(''worker_main'', WORK_RESULTS, vector_serialize (we_emit env) r)], wk_progress := Thread_ended\<rparr>)" for r
    using assms by (auto simp: talk_inv_def good_talk_def)
  show ?thesis
    using assms request received answer Thread_runs
    by (simp add: thread_step_def request_dll_def split: progress.split load.split sum.split)
qed

section \<open>The invariant of the pair\<close>

definition answered :: "(MsgType \<times> bytes) list \<Rightarrow> nat" where
  "answered ms = length (filter (\<lambda>m. fst m = WORK_RESULTS) ms)"

definition given :: "(MsgType \<times> bytes) list \<Rightarrow> nat" where
  "given ms = length (filter (\<lambda>m. fst m = ALLOCATE_WORK) ms)"

definition lent :: "(MsgType \<times> bytes) list \<Rightarrow> nat" where
  "lent ms = length (filter (\<lambda>m. fst m = DLL_BINARY) ms)"

definition requested :: "(MsgType \<times> bytes) list \<Rightarrow> nat" where
  "requested ms = length (filter (\<lambda>m. fst m = GET_DLL) ms)"

lemma sent_mail:
  "given (map snd (filter (\<lambda>m. fst m = w) ms)) = allocs w ms"
  "lent (map snd (filter (\<lambda>m. fst m = w) ms)) = libs_sent w ms"
  by (induction ms) (simp_all add: given_def lent_def allocs_def libs_sent_def)

lemma results_answered: "results_sent wk = answered (wk_to_controller wk)"
  by (simp add: results_sent_def answered_def)

lemma counts_append [simp]:
  "given (xs @ ys) = given xs + given ys" "answered (xs @ ys) = answered xs + answered ys"
  "lent (xs @ ys) = lent xs + lent ys" "requested (xs @ ys) = requested xs + requested ys"
  by (simp_all add: given_def answered_def lent_def requested_def)

lemma counts_Nil [simp]: "given [] = 0" "answered [] = 0" "lent [] = 0" "requested [] = 0"
  by (simp_all add: given_def answered_def lent_def requested_def)

lemma counts_Cons [simp]:
  "given (m # ms) = given ms + (if fst m = ALLOCATE_WORK then 1 else 0)"
  "answered (m # ms) = answered ms + (if fst m = WORK_RESULTS then 1 else 0)"
  "lent (m # ms) = lent ms + (if fst m = DLL_BINARY then 1 else 0)"
  "requested (m # ms) = requested ms + (if fst m = GET_DLL then 1 else 0)"
  by (simp_all add: given_def answered_def lent_def requested_def)

lemma count_drop:
  assumes "n < length ms"
  shows "lent (drop n ms) = lent (drop (Suc n) ms) + (if fst (ms ! n) = DLL_BINARY then 1 else 0)"
    and "requested (drop n ms) = requested (drop (Suc n) ms) + (if fst (ms ! n) = GET_DLL then 1 else 0)"
  by (simp_all add: Cons_nth_drop_Suc [OF assms, symmetric])

lemma count_take_le: "given (take n ms) \<le> given ms" "answered (take n ms) \<le> answered ms"
proof -
  have "given (take n ms @ drop n ms) = given (take n ms) + given (drop n ms)"
    "answered (take n ms @ drop n ms) = answered (take n ms) + answered (drop n ms)" by (rule counts_append)+
  then show "given (take n ms) \<le> given ms" "answered (take n ms) \<le> answered ms" by simp_all
qed

lemma count_Suc:
  assumes "n < length ms"
  shows "given (take (Suc n) ms) = given (take n ms) + (if fst (ms ! n) = ALLOCATE_WORK then 1 else 0)"
    and "answered (take (Suc n) ms) = answered (take n ms) + (if fst (ms ! n) = WORK_RESULTS then 1 else 0)"
  using assms by (simp_all add: take_Suc_conv_app_nth)

text \<open>
  Requests for libraries and answers to them that are on their way inside the worker (\<open>fetching\<close>):
  with those on their way between the two there is one in all while the thread waits, else none.
\<close>

definition waiting_thread :: "('a, 'p) worker \<Rightarrow> nat" where
  "waiting_thread wk = (case wk_progress wk of Waiting_for_dll lib k \<Rightarrow> 1 | _ \<Rightarrow> 0)"

definition fetching :: "('a, 'p) worker \<Rightarrow> nat" where
  "fetching wk = requested (map snd (wk_from_thread wk)) + length (wk_to_thread wk)"

lemma worker_step_fetch:
  assumes step: "worker_step env ev wk = (Inr (), wk')" and wk: "fetching wk \<le> waiting_thread wk"
    and dll: "\<And>b. ev = Controller_msg DLL_BINARY b \<Longrightarrow> fetching wk < waiting_thread wk"
    and work: "\<And>b. ev = Controller_msg ALLOCATE_WORK b \<Longrightarrow> waiting_thread wk = 0"
    and types: "list_all (\<lambda>m. fst m = DLL_BINARY) (wk_to_thread wk)"
  shows "(\<exists>more. wk_to_controller wk' = wk_to_controller wk @ more
      \<and> fetching wk' + requested more + waiting_thread wk = fetching wk + waiting_thread wk'
          + (if \<exists>b. ev = Controller_msg DLL_BINARY b then 1 else 0))
    \<and> (list_all (\<lambda>m. fst m = DLL_BINARY) (wk_to_thread wk'))"
proof (cases ev)
  case (Controller_msg t b)
  consider (work) "t = ALLOCATE_WORK" | (dll) "t = DLL_BINARY" | (other) "worker_step env ev wk = (Inr (), wk)" "t \<noteq> DLL_BINARY"
    using Controller_msg by (cases t) (auto simp: handle_Worker_Socket_Msg_def)
  then show ?thesis
  proof cases
    case work
    then have "waiting_thread wk = 0" using assms(4) Controller_msg by blast
    then show ?thesis using step types work Controller_msg
      by (auto simp: handle_Worker_Socket_Msg_def start_worker_thread_def fetching_def waiting_thread_def split: if_splits progress.splits)
  next
    case dll
    then have "fetching wk < waiting_thread wk" using assms(3) Controller_msg by blast
    then show ?thesis using step types dll Controller_msg
      by (auto simp: handle_Worker_Socket_Msg_def fetching_def waiting_thread_def split: progress.splits)
  next
    case other
    then show ?thesis using step types Controller_msg by simp
  qed
next
  case Thread_socket_msg
  then show ?thesis using step types
    by (auto simp: handle_Thread_Socket_Msg_def Let_def fetching_def waiting_thread_def split: list.splits MsgType.splits if_splits)
next
  case Thread_runs
  then show ?thesis using step types wk
    by (auto simp: thread_step_def request_dll_def receive_dll_def fetching_def waiting_thread_def
        split: progress.splits load.splits list.splits sum.splits if_splits)
qed

text \<open>Messages of the one request that is open are about the library \<open>lib\<close>.\<close>

definition about :: "('a, 'prob, 'p, 'd) wenv \<Rightarrow> string \<Rightarrow> (MsgType \<times> bytes) list \<Rightarrow> bool" where
  "about env lib ms \<longleftrightarrow> (\<forall>(t, b) \<in> set ms. t = GET_DLL \<longrightarrow> b = vector_serialize (we_emit_request env) \<lparr>req_dll_name = lib\<rparr>)"

definition replies :: "('a, 'p, 'q, 'u) env \<Rightarrow> (string \<Rightarrow> bytes option) \<Rightarrow> string \<Rightarrow> (MsgType \<times> bytes) list \<Rightarrow> bool" where
  "replies e prov lib ms \<longleftrightarrow> (\<forall>(t, b) \<in> set ms. t = DLL_BINARY \<longrightarrow>
     b = vector_serialize (e_emit_dll e) \<lparr>dll_name = lib, dll_file = prov lib\<rparr>)"

definition fetch_ok :: "('a, 'p, 'q, 'u) env \<Rightarrow> (string \<Rightarrow> bytes option) \<Rightarrow> ('a, 'prob, 'p, 'd) wenv \<Rightarrow> string
    \<Rightarrow> ('a, 'p) system \<Rightarrow> bool" where
  "fetch_ok e prov env w s \<longleftrightarrow>
     (\<forall>lib k. wk_progress (p_worker (sy_process s)) = Waiting_for_dll lib k \<longrightarrow>
        about env lib (map snd (wk_from_thread (p_worker (sy_process s))))
      \<and> about env lib (drop (sy_up s) (wk_to_controller (p_worker (sy_process s))))
      \<and> replies e prov lib (drop (sy_down s) (mail w (ctrl (sy_server s)))))"

lemma fetch_okD:
  assumes "fetch_ok e prov env w s" and "wk_progress (p_worker (sy_process s)) = Waiting_for_dll lib k"
  shows "about env lib (map snd (wk_from_thread (p_worker (sy_process s))))"
    "about env lib (drop (sy_up s) (wk_to_controller (p_worker (sy_process s))))"
    "replies e prov lib (drop (sy_down s) (mail w (ctrl (sy_server s))))"
  using assms by (auto simp: fetch_ok_def)

lemma about_simps [simp]:
  "about env lib []" "about env lib (xs @ ys) \<longleftrightarrow> about env lib xs \<and> about env lib ys"
  "about env lib (m # ms) \<longleftrightarrow> (fst m = GET_DLL \<longrightarrow> snd m = vector_serialize (we_emit_request env) \<lparr>req_dll_name = lib\<rparr>)
     \<and> about env lib ms"
  by (auto simp: about_def)

lemma replies_simps [simp]:
  "replies e prov lib []" "replies e prov lib (xs @ ys) \<longleftrightarrow> replies e prov lib xs \<and> replies e prov lib ys"
  "replies e prov lib (m # ms) \<longleftrightarrow>
     (fst m = DLL_BINARY \<longrightarrow> snd m = vector_serialize (e_emit_dll e) \<lparr>dll_name = lib, dll_file = prov lib\<rparr>) \<and> replies e prov lib ms"
  by (auto simp: replies_def)

lemma no_request: "requested ms = 0 \<Longrightarrow> about env lib ms" "lent ms = 0 \<Longrightarrow> replies e prov lib ms"
  by (auto simp: requested_def lent_def about_def replies_def filter_empty_conv)

lemma later_messages:
  "m \<le> n \<Longrightarrow> about env lib (drop m xs) \<Longrightarrow> about env lib (drop n xs)"
  "m \<le> n \<Longrightarrow> replies e prov lib (drop m xs) \<Longrightarrow> replies e prov lib (drop n xs)"
  using set_drop_subset_set_drop [of m n xs] by (auto simp: about_def replies_def)

text \<open>What the worker asks for is what its thread waits for.\<close>

lemma worker_step_about:
  assumes "worker_step env ev wk = (Inr (), wk')" and "wk_progress wk' = Waiting_for_dll lib k'"
    and "\<And>k. wk_progress wk = Waiting_for_dll lib k \<Longrightarrow> about env lib (map snd (wk_from_thread wk))"
    and "waiting_thread wk = 0 \<Longrightarrow> requested (map snd (wk_from_thread wk)) = 0"
  shows "about env lib (map snd (wk_from_thread wk'))
    \<and> (\<exists>more. wk_to_controller wk' = wk_to_controller wk @ more \<and> about env lib more)
    \<and> (waiting_thread wk = 0 \<or> (\<exists>k. wk_progress wk = Waiting_for_dll lib k))"
proof (cases ev)
  case (Controller_msg t b)
  then have "wk_from_thread wk' = wk_from_thread wk" "wk_to_controller wk' = wk_to_controller wk" "wk_progress wk = Waiting_for_dll lib k'"
    using assms(1,2) by (auto simp: handle_Worker_Socket_Msg_def start_worker_thread_def split: MsgType.splits if_splits progress.splits)
  then show ?thesis using assms(3) by auto
next
  case Thread_socket_msg
  then show ?thesis using assms
    by (auto simp: handle_Thread_Socket_Msg_def Let_def split: list.splits MsgType.splits if_splits)
next
  case Thread_runs
  then show ?thesis using assms
    by (auto simp: thread_step_def request_dll_def receive_dll_def waiting_thread_def no_request
        split: progress.splits load.splits list.splits sum.splits if_splits)
qed

definition sys_inv :: "('a, 'p, 'q, 'u) env \<Rightarrow> (string \<Rightarrow> bytes option) \<Rightarrow> ('a, 'prob, 'p, 'd::linorder) wenv \<Rightarrow> string \<Rightarrow> ('a, 'p) worker
    \<Rightarrow> ('a, 'p) system \<Rightarrow> bool" where
  "sys_inv e prov env w wk0 s \<longleftrightarrow>
     (let c = ctrl (sy_server s); wk = p_worker (sy_process s)
      in serving (sy_server s) \<and> ctl_inv e c \<and> reg_ok e prov c
       \<and> p_state (sy_process s) = Client_running
       \<and> worker_inv prov env (given (take (sy_down s) (mail w c))) wk \<and> talk_inv env wk0 wk
       \<and> sy_down s \<le> length (mail w c) \<and> sy_up s \<le> length (wk_to_controller wk)
       \<and> (\<forall>m \<in> set (mail w c). mail_ok e (w, m))
       \<and> given (mail w c) = answered (take (sy_up s) (wk_to_controller wk)) + busy w c
       \<and> fetching wk + requested (drop (sy_up s) (wk_to_controller wk)) + lent (drop (sy_down s) (mail w c)) = waiting_thread wk
       \<and> (list_all (\<lambda>m. fst m = DLL_BINARY) (wk_to_thread wk)) \<and> fetch_ok e prov env w s)"

text \<open>One message handled by the controller.\<close>

lemma poll_tracked:
  assumes "serving sv" and "ctl_inv e (ctrl sv)" and "reg_ok e prov (ctrl sv)" and "expected e ev (ctrl sv)"
    and "\<And>ch b. ev \<noteq> Worker_msg ch w WORKER_LEAVE b"
  shows "\<exists>c'. poll e ev sv = \<lparr>serving = True, ctrl = c'\<rparr> \<and> ctl_inv e c'
    \<and> tracked e w (if \<exists>ch b. ev = Worker_msg ch w WORK_RESULTS b then 1 else 0)
         (if \<exists>ch b. ev = Worker_msg ch w GET_DLL b then 1 else 0) (ctrl sv) c'"
proof -
  have "fst (handle_event e ev (ctrl sv)) = Inr ()" "ctl_inv e (snd (handle_event e ev (ctrl sv)))"
    using event_good [OF assms(2,4)] by (simp_all add: runs_to_def good_step_def)
  then show ?thesis
    using assms(1) event_tracked [OF assms(2-5)] by (simp add: poll_def case_prod_beta)
qed

lemma tracked_mail:
  assumes "tracked e w done libs c c'"
  shows "\<exists>new. mail w c' = mail w c @ new \<and> (\<forall>m \<in> set new. mail_ok e (w, m))
    \<and> given new + busy w c = busy w c' + done \<and> lent new = libs" and "reg_ok e prov c \<Longrightarrow> reg_ok e prov c'"
proof -
  obtain new where new: "toWorkers c' = toWorkers c @ new" "\<forall>m \<in> set new. mail_ok e m"
      "allocs w new + busy w c = busy w c' + done" "libs_sent w new = libs"
    using assms unfolding tracked_def by blast
  let ?m = "map snd (filter (\<lambda>m. fst m = w) new)"
  have "\<forall>m \<in> set ?m. mail_ok e (w, m)" using new(2) by (auto simp: mail_ok_def)
  moreover have "mail w c' = mail w c @ ?m" by (simp add: mail_def new(1))
  moreover have "given ?m = allocs w new" "lent ?m = libs_sent w new" by (rule sent_mail)+
  ultimately show "\<exists>new. mail w c' = mail w c @ new \<and> (\<forall>m \<in> set new. mail_ok e (w, m))
    \<and> given new + busy w c = busy w c' + done \<and> lent new = libs"
    using new(3,4) by auto
  show "reg_ok e prov c \<Longrightarrow> reg_ok e prov c'" using assms unfolding tracked_def by blast
qed

lemma poll_lends:
  assumes "serving sv" and "reg_ok e prov (ctrl sv)" and "codec_ok (we_emit_request env) (e_request e)"
  shows "mail v (ctrl (poll e (Worker_msg ch v GET_DLL (vector_serialize (we_emit_request env) \<lparr>req_dll_name = lib\<rparr>)) sv))
    = mail v (ctrl sv) @ [(DLL_BINARY, vector_serialize (e_emit_dll e) \<lparr>dll_name = lib, dll_file = prov lib\<rparr>)]"
proof -
  obtain r where "handle_get_dll e v (vector_serialize (we_emit_request env) \<lparr>req_dll_name = lib\<rparr>) (ctrl sv)
      = (Inr (), lends e v lib (prov lib) r (ctrl sv))"
    using get_dll_lends [OF serialize_roundtrip [OF assms(3)] assms(2), where v = v] by (metis get_dll_request.select_convs(1))
  then show ?thesis using assms(1) by (simp add: poll_def handle_workers_msg_def lends_def mail_def)
qed

lemma new_replies:
  assumes "serving sv" and "reg_ok e prov (ctrl sv)" and "codec_ok (we_emit_request env) (e_request e)"
    and new: "mail w (ctrl (poll e ev sv)) = mail w (ctrl sv) @ new" "lent new = (if \<exists>ch b. ev = Worker_msg ch w GET_DLL b then 1 else 0)"
    and ask: "\<And>ch b. ev = Worker_msg ch w GET_DLL b \<Longrightarrow> b = vector_serialize (we_emit_request env) \<lparr>req_dll_name = lib\<rparr>"
  shows "replies e prov lib new"
proof (cases "\<exists>ch b. ev = Worker_msg ch w GET_DLL b")
  case True
  then obtain ch where "ev = Worker_msg ch w GET_DLL (vector_serialize (we_emit_request env) \<lparr>req_dll_name = lib\<rparr>)"
    using ask by blast
  then have "[(DLL_BINARY, vector_serialize (e_emit_dll e) \<lparr>dll_name = lib, dll_file = prov lib\<rparr>)] = new"
    using new(1) poll_lends [OF assms(1-3), of w ch lib] by simp
  then show ?thesis by (elim subst) simp
next
  case False
  then show ?thesis using new(2) by (simp add: no_request)
qed

text \<open>The controller's part of the invariant after a message, \<open>up\<close> counting the worker's own.\<close>

lemma server_step_inv:
  assumes inv: "sys_inv e prov env w wk0 s" and ex: "expected e ev (ctrl (sy_server s))"
    and stay: "\<And>ch b. ev \<noteq> Worker_msg ch w WORKER_LEAVE b"
    and up: "sy_up s \<le> up" "up \<le> length (wk_to_controller (p_worker (sy_process s)))" and lang: "same_language e env"
    and ask: "\<And>lib k ch b. wk_progress (p_worker (sy_process s)) = Waiting_for_dll lib k \<Longrightarrow> ev = Worker_msg ch w GET_DLL b
      \<Longrightarrow> b = vector_serialize (we_emit_request env) \<lparr>req_dll_name = lib\<rparr>"
    and own: "answered (take up (wk_to_controller (p_worker (sy_process s))))
      = answered (take (sy_up s) (wk_to_controller (p_worker (sy_process s)))) + (if \<exists>ch b. ev = Worker_msg ch w WORK_RESULTS b then 1 else 0)"
    and libs: "requested (drop (sy_up s) (wk_to_controller (p_worker (sy_process s))))
      = requested (drop up (wk_to_controller (p_worker (sy_process s)))) + (if \<exists>ch b. ev = Worker_msg ch w GET_DLL b then 1 else 0)"
  shows "sys_inv e prov env w wk0 (s\<lparr>sy_server := poll e ev (sy_server s), sy_up := up\<rparr>)"
proof -
  note i = inv [unfolded sys_inv_def Let_def]
  obtain c' where c': "poll e ev (sy_server s) = \<lparr>serving = True, ctrl = c'\<rparr>" "ctl_inv e c'"
      "tracked e w (if \<exists>ch b. ev = Worker_msg ch w WORK_RESULTS b then 1 else 0)
        (if \<exists>ch b. ev = Worker_msg ch w GET_DLL b then 1 else 0) (ctrl (sy_server s)) c'"
    using poll_tracked [OF _ _ _ ex stay] i by blast
  obtain new where new: "mail w c' = mail w (ctrl (sy_server s)) @ new" "\<forall>m \<in> set new. mail_ok e (w, m)"
      "given new + busy w (ctrl (sy_server s)) = busy w c' + (if \<exists>ch b. ev = Worker_msg ch w WORK_RESULTS b then 1 else 0)"
      "lent new = (if \<exists>ch b. ev = Worker_msg ch w GET_DLL b then 1 else 0)"
    using tracked_mail(1) [OF c'(3)] by blast
  have reg: "reg_ok e prov c'" using tracked_mail(2) [OF c'(3)] i by blast
  have "about env lib (drop up (wk_to_controller (p_worker (sy_process s)))) \<and> replies e prov lib new"
    if p: "wk_progress (p_worker (sy_process s)) = Waiting_for_dll lib k" for lib k
    using i p new(1,4) lang ask [OF p] c'(1) later_messages(1) [OF up(1)] fetch_okD(2) [of e prov env w s, OF _ p]
      new_replies [of "sy_server s" e prov env w ev new lib]
    by (simp add: same_language_def)
  then have "fetch_ok e prov env w (s\<lparr>sy_server := poll e ev (sy_server s), sy_up := up\<rparr>)"
    using i new(1) by (auto simp: fetch_ok_def c'(1))
  then show ?thesis
    using i c'(2) new up(2) own libs reg by (simp add: sys_inv_def c'(1) ball_Un del: ex_simps)
qed

lemma worker_fetch_ok:
  assumes "worker_step env ev (p_worker (sy_process s)) = (Inr (), wk')" and "fetch_ok e prov env w s" and "sy_down s \<le> down"
    and none: "waiting_thread (p_worker (sy_process s)) = 0 \<Longrightarrow> requested (map snd (wk_from_thread (p_worker (sy_process s)))) = 0"
    and sent: "waiting_thread (p_worker (sy_process s)) = 0 \<Longrightarrow> requested (drop (sy_up s) (wk_to_controller (p_worker (sy_process s)))) = 0
      \<and> lent (drop (sy_down s) (mail w (ctrl (sy_server s)))) = 0"
    and up: "sy_up s \<le> length (wk_to_controller (p_worker (sy_process s)))"
    and p: "wk_progress wk' = Waiting_for_dll lib k"
  shows "about env lib (map snd (wk_from_thread wk')) \<and> about env lib (drop (sy_up s) (wk_to_controller wk'))
      \<and> replies e prov lib (drop down (mail w (ctrl (sy_server s))))"
proof -
  let ?wk = "p_worker (sy_process s)"
  from worker_step_about [OF assms(1) p _ none] fetch_okD(1) [OF assms(2)]
  have ab: "about env lib (map snd (wk_from_thread wk'))"
      "\<exists>more. wk_to_controller wk' = wk_to_controller ?wk @ more \<and> about env lib more"
      "waiting_thread ?wk = 0 \<or> (\<exists>k. wk_progress ?wk = Waiting_for_dll lib k)"
    by blast+
  have "about env lib (drop (sy_up s) (wk_to_controller ?wk)) \<and> replies e prov lib (drop (sy_down s) (mail w (ctrl (sy_server s))))"
    using ab(3) sent fetch_okD(2,3) [OF assms(2)] by (auto simp: no_request)
  then show ?thesis using ab(1,2) up later_messages(2) [OF assms(3)] by auto
qed

text \<open>The worker's part after one of its steps, \<open>down\<close> counting the controller's messages.\<close>

lemma worker_side_inv:
  assumes inv: "sys_inv e prov env w wk0 s" and may: "may_send prov env (given (take (sy_down s) (mail w (ctrl (sy_server s))))) (p_worker (sy_process s)) ev"
    and down: "sy_down s \<le> down" "down \<le> length (mail w (ctrl (sy_server s)))"
    and own: "given (take down (mail w (ctrl (sy_server s)))) = given (take (sy_down s) (mail w (ctrl (sy_server s)))) + allocations [ev]"
    and libs: "lent (drop (sy_down s) (mail w (ctrl (sy_server s)))) = lent (drop down (mail w (ctrl (sy_server s))))
      + (if \<exists>b. ev = Controller_msg DLL_BINARY b then 1 else 0)"
  shows "sys_inv e prov env w wk0 (s\<lparr>sy_process := process_step env ev (sy_process s), sy_down := down\<rparr>)"
proof -
  note i = inv [unfolded sys_inv_def Let_def]
  let ?wk = "p_worker (sy_process s)"
  obtain wk' where wk': "worker_step env ev ?wk = (Inr (), wk')"
      "worker_inv prov env (given (take down (mail w (ctrl (sy_server s))))) wk'"
    using worker_step_inv [OF _ may] i unfolding own by blast
  have talk: "talk_inv env wk0 wk'"
    using worker_step_talk [of env wk0 ?wk ev] i wk'(1) by simp
  have idle: "ev = Controller_msg ALLOCATE_WORK b \<Longrightarrow> waiting_thread ?wk = 0" for b
    using may i by (auto simp: worker_inv_def waiting_thread_def)
  have dll: "ev = Controller_msg DLL_BINARY b \<Longrightarrow> fetching ?wk < waiting_thread ?wk" for b
    using i libs by auto
  have le: "fetching ?wk \<le> waiting_thread ?wk" using i by simp
  note step = worker_step_fetch [OF wk'(1) le dll idle]
  obtain more where more: "wk_to_controller wk' = wk_to_controller ?wk @ more"
      "fetching wk' + requested more + waiting_thread ?wk = fetching ?wk + waiting_thread wk'
          + (if \<exists>b. ev = Controller_msg DLL_BINARY b then 1 else 0)"
      "list_all (\<lambda>m. fst m = DLL_BINARY) (wk_to_thread wk')"
    using step i by blast
  have "waiting_thread ?wk = 0 \<Longrightarrow> requested (map snd (wk_from_thread ?wk)) = 0" using i by (simp add: fetching_def)
  note wait = worker_fetch_ok [OF wk'(1) _ down(1) this, of e prov w]
  have "process_step env ev (sy_process s) = \<lparr>p_state = Client_running, p_worker = wk'\<rparr>"
    using i wk'(1) by (simp add: process_step_def)
  moreover from this wait i have "fetch_ok e prov env w (s\<lparr>sy_process := process_step env ev (sy_process s), sy_down := down\<rparr>)"
    by (simp add: fetch_ok_def)
  ultimately show ?thesis using i wk'(2) talk more libs down by (simp add: sys_inv_def)
qed

lemma controller_hears:
  assumes inv: "sys_inv e prov env w wk0 s" and lang: "same_language e env"
    and up: "sy_up s < length (wk_to_controller (p_worker (sy_process s)))"
    and m: "wk_to_controller (p_worker (sy_process s)) ! sy_up s = (t, b)"
  shows "expected e (Worker_msg ch w t b) (ctrl (sy_server s)) \<and> (t = WORK_RESULTS \<or> t = GET_DLL)"
    and "wk_progress (p_worker (sy_process s)) = Waiting_for_dll lib k \<Longrightarrow> t = GET_DLL
      \<Longrightarrow> b = vector_serialize (we_emit_request env) \<lparr>req_dll_name = lib\<rparr>"
proof -
  let ?c = "ctrl (sy_server s)" and ?wk = "p_worker (sy_process s)"
  note i = inv [unfolded sys_inv_def Let_def]
  have "good_talk env (t, b)" using i up m by (metis nth_mem talk_inv_def)
  then consider (results) x where "t = WORK_RESULTS" "b = vector_serialize (we_emit env) x"
    | (dll) q where "t = GET_DLL" "b = vector_serialize (we_emit_request env) q"
    by (auto simp: good_talk_def)
  then show "expected e (Worker_msg ch w t b) (ctrl (sy_server s)) \<and> (t = WORK_RESULTS \<or> t = GET_DLL)"
  proof cases
    case results
    have "answered (take (Suc (sy_up s)) (wk_to_controller ?wk)) \<le> results_sent ?wk"
      unfolding results_answered by (rule count_take_le)
    then have "answered (take (sy_up s) (wk_to_controller ?wk)) < results_sent ?wk"
      using count_Suc(2) [OF up] m results(1) by simp
    also have "results_sent ?wk \<le> given (take (sy_down s) (mail w ?c))"
      using i by (auto dest: worker_inv_count)
    also have "\<dots> \<le> given (mail w ?c)" by (rule count_take_le)
    finally have "w \<in> fst ` set (workAllocationMap ?c)"
      using i by (auto simp: busy_def split: if_splits)
    moreover have "readable_work e b"
      using lang results(2) by (simp add: same_language_def readable_work_def serialize_roundtrip)
    ultimately show ?thesis using results(1) by simp
  next
    case dll
    have "vector_deserialize (e_request e) b = Inr q"
      using lang dll(2) by (simp add: same_language_def serialize_roundtrip)
    moreover have "is_ok (fst (get_lib_as_file (e_host e) (req_dll_name q) (ct_registry ?c)))"
      using i local_lib [of "e_host e" "ct_registry ?c" "req_dll_name q"] by (auto simp: reg_ok_def is_ok_ex)
    ultimately show ?thesis using dll(1) by simp
  qed
  assume "wk_progress ?wk = Waiting_for_dll lib k" "t = GET_DLL"
  moreover have "(t, b) \<in> set (drop (sy_up s) (wk_to_controller ?wk))"
    using up m by (metis Cons_nth_drop_Suc list.set_intros(1))
  ultimately show "b = vector_serialize (we_emit_request env) \<lparr>req_dll_name = lib\<rparr>" using i fetch_okD(2) [of e prov env w s] by (auto simp: about_def)
qed

lemma worker_hears:
  assumes inv: "sys_inv e prov env w wk0 s" and lang: "same_language e env" and can: "can_do e prov env wk0"
    and down: "sy_down s < length (mail w (ctrl (sy_server s)))"
    and m: "mail w (ctrl (sy_server s)) ! sy_down s = (t, b)"
  shows "may_send prov env (given (take (sy_down s) (mail w (ctrl (sy_server s))))) (p_worker (sy_process s)) (Controller_msg t b)"
proof -
  let ?c = "ctrl (sy_server s)" and ?wk = "p_worker (sy_process s)"
  note i = inv [unfolded sys_inv_def Let_def]
  have "mail_ok e (w, t, b)" using i down m by (metis nth_mem)
  then consider (work) "t = ALLOCATE_WORK" "readable_work e b"
    | (dll) x where "t = DLL_BINARY" "b = vector_serialize (e_emit_dll e) x"
    by (auto simp: mail_ok_def)
  then show ?thesis
  proof cases
    case work
    have "given (take (Suc (sy_down s)) (mail w ?c)) \<le> given (mail w ?c)" by (rule count_take_le)
    then have "given (take (sy_down s) (mail w ?c)) + 1 \<le> given (mail w ?c)"
      using count_Suc(1) [OF down] m work(1) by simp
    also have "\<dots> \<le> results_sent ?wk + 1"
      using i busy_le [of w ?c] count_take_le(2) [of "sy_up s" "wk_to_controller ?wk"] unfolding results_answered by simp
    finally have "results_sent ?wk = given (take (sy_down s) (mail w ?c))"
      using i by (auto dest: worker_inv_count)
    moreover have "honest prov (wk_received ?wk)" using i by (simp add: worker_inv_def)
    then have "never_fails prov env ?wk (we_load env (wk_received ?wk) b)"
      using can work(2) i never_fails_frame [of ?wk wk0 prov env] by (simp add: can_do_def talk_inv_def)
    moreover have "b \<noteq> []" using work(2) by (auto simp: readable_work_def vector_deserialize_def)
    ultimately show ?thesis using work(1) by simp
  next
    case dll
    have "(t, b) \<in> set (drop (sy_down s) (mail w ?c))" using down m by (metis Cons_nth_drop_Suc list.set_intros(1))
    then have "right_answer prov env lib b" if "wk_progress ?wk = Waiting_for_dll lib k" for lib k
      using i fetch_okD(3) [of e prov env w s, OF _ that] lang dll(1) by (fastforce simp: replies_def right_answer_def same_language_def serialize_roundtrip)
    then show ?thesis using dll(1) by (simp split: progress.split)
  qed
qed

lemma closed_inv:
  assumes "sys_inv e prov env w wk0 s" and "v \<noteq> w" and "v \<notin> fst ` set (workAllocationMap (ctrl (sy_server s)))"
  shows "sys_inv e prov env w wk0 (s\<lparr>sy_server := close_connection v (sy_server s)\<rparr>)"
  using assms forget_inv [of e "ctrl (sy_server s)" v]
  by (simp add: sys_inv_def close_connection_def Let_def busy_def reg_ok_def fetch_ok_def)

text \<open>What a step can do to a pair, one case for each side that takes it.\<close>

lemma sys_step_cases:
  obtains (idle) "sys_step e env w ev s = s"
  | (others) x where "ev = Others x"
      "sys_step e env w ev s = s\<lparr>sy_server := poll e x (sy_server s), sy_up := sy_up s\<rparr>"
  | (closed) v where "ev = Closed v"
  | (hears) ch t b where "sy_up s < length (wk_to_controller (p_worker (sy_process s)))"
      "wk_to_controller (p_worker (sy_process s)) ! sy_up s = (t, b)"
      "sys_step e env w ev s = s\<lparr>sy_server := poll e (Worker_msg ch w t b) (sy_server s), sy_up := Suc (sy_up s)\<rparr>"
  | (told) t b where "sy_down s < length (mail w (ctrl (sy_server s)))" "mail w (ctrl (sy_server s)) ! sy_down s = (t, b)"
      "sys_step e env w ev s = s\<lparr>sy_process := process_step env (Controller_msg t b) (sy_process s), sy_down := Suc (sy_down s)\<rparr>"
  | (works) x where "x = Thread_socket_msg \<or> x = Thread_runs"
      "sys_step e env w ev s = s\<lparr>sy_process := process_step env x (sy_process s), sy_down := sy_down s\<rparr>"
proof (cases ev)
  case (To_controller ch)
  obtain t b where m: "wk_to_controller (p_worker (sy_process s)) ! sy_up s = (t, b)" by fastforce
  show thesis
    by (cases "sy_up s < length (wk_to_controller (p_worker (sy_process s)))")
      (use that(1) that(4) [OF _ m, of ch] m in \<open>simp_all add: To_controller\<close>)
next
  case To_worker
  obtain t b where m: "mail w (ctrl (sy_server s)) ! sy_down s = (t, b)" by fastforce
  show thesis
    by (cases "sy_down s < length (mail w (ctrl (sy_server s)))") (use that(1) that(5) [OF _ m] m in \<open>simp_all add: To_worker\<close>)
next
  case Worker_main
  then show thesis by (intro that(6) [of Thread_socket_msg]) simp_all
next
  case Worker_thread
  then show thesis by (intro that(6) [of Thread_runs]) simp_all
qed (use that(2,3) in simp_all)

lemma sys_step_inv:
  assumes inv: "sys_inv e prov env w wk0 s" and lang: "same_language e env" and can: "can_do e prov env wk0"
    and ok: "others_behave e w ev s"
  shows "sys_inv e prov env w wk0 (sys_step e env w ev s)"
proof (cases e env w ev s rule: sys_step_cases)
  case idle
  then show ?thesis using inv by simp
next
  case (others x)
  have none: "x \<noteq> Worker_msg ch w t b" for ch t b using ok others(1) by auto
  show ?thesis unfolding others(2)
    by (rule server_step_inv [OF inv]) (use ok others(1) none inv lang in \<open>simp_all add: sys_inv_def Let_def\<close>)
next
  case (closed v)
  then show ?thesis using closed_inv [OF inv] ok by simp
next
  case (hears ch t b)
  note said = controller_hears [OF inv lang hears(1,2)]
  show ?thesis unfolding hears(3)
    by (rule server_step_inv [OF inv])
      (use said(1) [of ch] said(2) lang hears(1,2) count_Suc(2) [OF hears(1)] count_drop(2) [OF hears(1)] in auto)
next
  case (told t b)
  have one: "allocations [Controller_msg t b] = (if t = ALLOCATE_WORK then 1 else 0)" by (cases t) simp_all
  show ?thesis unfolding told(3)
    by (rule worker_side_inv [OF inv worker_hears [OF inv lang can told(1,2)]])
      (use told(1,2) count_Suc(1) [OF told(1)] count_drop(1) [OF told(1)] one in simp_all)
next
  case (works x)
  show ?thesis unfolding works(2)
    by (rule worker_side_inv [OF inv]) (use works(1) inv in \<open>auto simp: sys_inv_def Let_def\<close>)
qed

lemma sys_start_inv:
  assumes inv: "ctl_inv e c" and reg: "reg_ok e prov c" and nb: "w \<notin> fst ` set (workAllocationMap c)"
    and mail: "mail w c = []" and wk: "idle wk" "wk_to_controller wk = []" "honest prov (wk_received wk)"
  shows "sys_inv e prov env w wk (sys_start e ch w c wk)"
proof -
  obtain c' where c': "poll e (Worker_msg ch w WORKER_JOIN []) \<lparr>serving = True, ctrl = c\<rparr> = \<lparr>serving = True, ctrl = c'\<rparr>"
      "ctl_inv e c'" "tracked e w 0 0 c c'"
    using poll_tracked [of "\<lparr>serving = True, ctrl = c\<rparr>" e prov "Worker_msg ch w WORKER_JOIN []" w] inv reg nb by auto
  obtain new where new: "mail w c' = new" "\<forall>m \<in> set new. mail_ok e (w, m)" "given new = busy w c'" "lent new = 0"
    using tracked_mail(1) [OF c'(3)] mail nb by (auto simp: busy_def)
  have "reg_ok e prov c'" using tracked_mail(2) [OF c'(3) reg] .
  then show ?thesis
    using c' new wk idle_inv [OF wk, of env]
    by (simp add: sys_inv_def sys_start_def Let_def talk_inv_def idle_def fetching_def waiting_thread_def fetch_ok_def)
qed

lemma sys_reach_inv:
  assumes "sys_reach e env w s0 s" and "sys_inv e prov env w wk s0" and "same_language e env" and "can_do e prov env wk"
  shows "sys_inv e prov env w wk s"
  using assms by (induction rule: sys_reach.induct) (simp_all add: sys_step_inv)

section \<open>Work can always be completed\<close>

fun sys_run :: "('a, 'p, 'q, 'u) env \<Rightarrow> ('a, 'prob, 'p, 'd::linorder) wenv \<Rightarrow> string \<Rightarrow> sys_event list
    \<Rightarrow> ('a, 'p) system \<Rightarrow> ('a, 'p) system" where
  "sys_run e env w [] s = s"
| "sys_run e env w (ev # evs) s = sys_run e env w evs (sys_step e env w ev s)"

text \<open>The answers of the worker that the controller has handled.\<close>

definition completed_work :: "('a, 'p) system \<Rightarrow> nat" where
  "completed_work s = answered (take (sy_up s) (wk_to_controller (p_worker (sy_process s))))"

fun silent :: "sys_event \<Rightarrow> bool" where
  "silent (Others ev) \<longleftrightarrow> False"
| "silent (Closed v) \<longleftrightarrow> False"
| "silent ev \<longleftrightarrow> True"

definition completes :: "('a, 'p, 'q, 'u) env \<Rightarrow> ('a, 'prob, 'p, 'd::linorder) wenv \<Rightarrow> string \<Rightarrow> ('a, 'p) system \<Rightarrow> bool" where
  "completes e env w s \<longleftrightarrow> (\<exists>evs. list_all silent evs \<and> completed_work (sys_run e env w evs s) = Suc (completed_work s))"

lemma completes_now:
  assumes "silent ev" and "completed_work (sys_step e env w ev s) = Suc (completed_work s)"
  shows "completes e env w s"
  unfolding completes_def using assms by (intro exI [of _ "[ev]"]) simp

lemma completes_later:
  assumes "completes e env w (sys_step e env w ev s)" and "silent ev"
    and "completed_work (sys_step e env w ev s) = completed_work s"
  shows "completes e env w s"
proof -
  obtain evs where "list_all silent evs"
      "completed_work (sys_run e env w evs (sys_step e env w ev s)) = Suc (completed_work (sys_step e env w ev s))"
    using assms(1) by (auto simp: completes_def)
  then show ?thesis unfolding completes_def using assms(2,3) by (intro exI [of _ "ev # evs"]) simp
qed

text \<open>Moves: the worker's main thread passes a message on.\<close>

lemma main_moves:
  assumes inv: "sys_inv e prov env w wk0 s" and m: "wk_from_thread (p_worker (sy_process s)) = (i, t, b) # rest"
  shows "\<exists>wk'. sys_step e env w Worker_main s = s\<lparr>sy_process := \<lparr>p_state = Client_running, p_worker = wk'\<rparr>\<rparr>
    \<and> wk_from_thread wk' = rest \<and> wk_to_thread wk' = wk_to_thread (p_worker (sy_process s))
    \<and> wk_to_controller wk' = wk_to_controller (p_worker (sy_process s)) @ [(t, b)]
    \<and> wk_progress wk' = wk_progress (p_worker (sy_process s))"
proof -
  let ?wk = "p_worker (sy_process s)"
  note i = inv [unfolded sys_inv_def Let_def]
  have "good_talk env (t, b)" using i m by (auto simp: talk_inv_def)
  then consider "t = WORK_RESULTS" | "t = GET_DLL" by (auto simp: good_talk_def)
  then show ?thesis
  proof cases
    case 1
    have "wk_joinable ?wk" using i m 1 by (auto simp: worker_inv_def results_queued_def split: if_splits)
    then show ?thesis using i m 1
      by (intro exI [of _ "snd (handle_Thread_Socket_Msg ?wk)"]) (simp add: process_step_def handle_Thread_Socket_Msg_def Let_def)
  next
    case 2
    then show ?thesis using i m
      by (intro exI [of _ "snd (handle_Thread_Socket_Msg ?wk)"]) (simp add: process_step_def handle_Thread_Socket_Msg_def Let_def)
  qed
qed

text \<open>
  The controller handles a message of the busy worker: either the answer to its work, or a
  request for a library, to which it replies.
\<close>

lemma controller_moves:
  fixes ch
  assumes inv: "sys_inv e prov env w wk0 s" and lang: "same_language e env" and busy: "busy w (ctrl (sy_server s)) = 1"
    and up: "sy_up s < length (wk_to_controller (p_worker (sy_process s)))"
  defines "s' \<equiv> sys_step e env w (To_controller ch) s"
  shows "completed_work s' = Suc (completed_work s)
    \<or> (completed_work s' = completed_work s \<and> 0 < requested (drop (sy_up s) (wk_to_controller (p_worker (sy_process s))))
       \<and> (\<exists>sv d. s' = s\<lparr>sy_server := sv, sy_up := Suc (sy_up s)\<rparr> \<and> busy w (ctrl sv) = 1
            \<and> mail w (ctrl sv) = mail w (ctrl (sy_server s)) @ [(DLL_BINARY, d)]))"
proof -
  let ?out = "wk_to_controller (p_worker (sy_process s))" and ?c = "ctrl (sy_server s)"
  note i = inv [unfolded sys_inv_def Let_def]
  obtain t b where m: "?out ! sy_up s = (t, b)" by fastforce
  note hears = controller_hears(1) [OF inv lang up m, of ch]
  have s': "s' = s\<lparr>sy_server := poll e (Worker_msg ch w t b) (sy_server s), sy_up := Suc (sy_up s)\<rparr>"
    using up m by (simp add: s'_def)
  show ?thesis
  proof (cases "t = WORK_RESULTS")
    case True
    then show ?thesis using count_Suc(2) [OF up] m by (simp add: s' completed_work_def)
  next
    case False
    then have t: "t = GET_DLL" using hears by blast
    obtain q where q: "vector_deserialize (e_request e) b = Inr q"
        "is_ok (fst (get_lib_as_file (e_host e) (req_dll_name q) (ct_registry ?c)))"
      using hears t by (auto split: sum.splits)
    obtain f r where "get_lib_as_file (e_host e) (req_dll_name q) (ct_registry ?c) = (Inr f, r)"
      using q(2) by (cases "get_lib_as_file (e_host e) (req_dll_name q) (ct_registry ?c)") (auto simp: is_ok_ex)
    then have "\<exists>sv d. poll e (Worker_msg ch w t b) (sy_server s) = sv \<and> busy w (ctrl sv) = 1
        \<and> mail w (ctrl sv) = mail w ?c @ [(DLL_BINARY, d)]"
      using i busy q(1) by (simp add: t poll_def handle_workers_msg_def handle_get_dll_def mail_def busy_def)
    then show ?thesis
      using count_Suc(2) [OF up] count_drop(2) [OF up] m t by (auto simp: s' completed_work_def)
  qed
qed

text \<open>The worker receives a message that is no new work: a library for its thread.\<close>

lemma worker_moves:
  assumes inv: "sys_inv e prov env w wk0 s" and got: "given (take (sy_down s) (mail w (ctrl (sy_server s)))) = given (mail w (ctrl (sy_server s)))"
    and down: "sy_down s < length (mail w (ctrl (sy_server s)))"
  shows "\<exists>wk'. sys_step e env w To_worker s
      = s\<lparr>sy_process := \<lparr>p_state = Client_running, p_worker = wk'\<rparr>, sy_down := Suc (sy_down s)\<rparr>
    \<and> wk_from_thread wk' = wk_from_thread (p_worker (sy_process s))
    \<and> wk_to_controller wk' = wk_to_controller (p_worker (sy_process s))
    \<and> wk_progress wk' = wk_progress (p_worker (sy_process s))
    \<and> given (take (Suc (sy_down s)) (mail w (ctrl (sy_server s)))) = given (mail w (ctrl (sy_server s)))"
proof -
  let ?mail = "mail w (ctrl (sy_server s))"
  note i = inv [unfolded sys_inv_def Let_def]
  obtain t b where m: "?mail ! sy_down s = (t, b)" by fastforce
  have "given (take (Suc (sy_down s)) ?mail) \<le> given ?mail" by (rule count_take_le)
  then have "t \<noteq> ALLOCATE_WORK" using count_Suc(1) [OF down] m got by auto
  moreover have "mail_ok e (w, t, b)" using i down m by (metis nth_mem)
  ultimately have t: "t = DLL_BINARY" by (auto simp: mail_ok_def)
  have "0 < lent (drop (sy_down s) ?mail)" using count_drop(1) [OF down] m t by simp
  then obtain lib k where "wk_progress (p_worker (sy_process s)) = Waiting_for_dll lib k"
    using i by (auto simp: waiting_thread_def split: progress.splits)
  then show ?thesis
    using i down m t count_Suc(1) [OF down] got
    by (intro exI [of _ "snd (handle_Worker_Socket_Msg env t b (p_worker (sy_process s)))"]) (simp add: process_step_def handle_Worker_Socket_Msg_def)
qed

text \<open>The stage of a piece of work that the worker has received; how many moves are left in it.\<close>

definition at_work :: "('a, 'p, 'q, 'u) env \<Rightarrow> (string \<Rightarrow> bytes option) \<Rightarrow> ('a, 'prob, 'p, 'd::linorder) wenv \<Rightarrow> string \<Rightarrow> ('a, 'p) worker
    \<Rightarrow> ('a, 'p) system \<Rightarrow> bool" where
  "at_work e prov env w wk0 s \<longleftrightarrow> sys_inv e prov env w wk0 s \<and> busy w (ctrl (sy_server s)) = 1
     \<and> given (take (sy_down s) (mail w (ctrl (sy_server s)))) = given (mail w (ctrl (sy_server s)))"

definition moves_left :: "string \<Rightarrow> ('a, 'p) system \<Rightarrow> nat" where
  "moves_left w s = 3 * length (wk_from_thread (p_worker (sy_process s)))
     + 2 * (length (wk_to_controller (p_worker (sy_process s))) - sy_up s)
     + (length (mail w (ctrl (sy_server s))) - sy_down s)"

text \<open>A step that moves a message and leaves the thread of the worker where it is.\<close>

definition moves_one :: "('a, 'p, 'q, 'u) env \<Rightarrow> (string \<Rightarrow> bytes option) \<Rightarrow> ('a, 'prob, 'p, 'd::linorder) wenv \<Rightarrow> string \<Rightarrow> ('a, 'p) worker \<Rightarrow> ('a, 'p) system
    \<Rightarrow> sys_event \<Rightarrow> bool" where
  "moves_one e prov env w wk0 s ev \<longleftrightarrow> silent ev \<and> completed_work (sys_step e env w ev s) = completed_work s
     \<and> at_work e prov env w wk0 (sys_step e env w ev s) \<and> moves_left w (sys_step e env w ev s) < moves_left w s
     \<and> wk_progress (p_worker (sy_process (sys_step e env w ev s))) = wk_progress (p_worker (sy_process s))"

lemma silent_step_inv:
  assumes "at_work e prov env w wk0 s" and "same_language e env" and "can_do e prov env wk0" and "silent ev"
  shows "sys_inv e prov env w wk0 (sys_step e env w ev s)"
proof -
  have "sys_inv e prov env w wk0 s" using assms(1) unfolding at_work_def by blast
  then show ?thesis by (rule sys_step_inv [OF _ assms(2,3)]) (use assms(4) in \<open>cases ev; simp\<close>)
qed

lemma at_work_counts:
  assumes "at_work e prov env w wk0 s"
  shows "sy_up s \<le> length (wk_to_controller (p_worker (sy_process s)))" "sy_down s \<le> length (mail w (ctrl (sy_server s)))"
  using assms unfolding at_work_def sys_inv_def Let_def by blast+

lemma move_from_thread:
  assumes at: "at_work e prov env w wk0 s" and lang: "same_language e env" and can: "can_do e prov env wk0"
    and some: "wk_from_thread (p_worker (sy_process s)) = m # rest"
  shows "moves_one e prov env w wk0 s Worker_main"
proof -
  note a = at [unfolded at_work_def]
  obtain si t b where "m = (si, t, b)" by (cases m)
  with main_moves [of e prov env w wk0 s] a some obtain wk' where wk':
      "sys_step e env w Worker_main s = s\<lparr>sy_process := \<lparr>p_state = Client_running, p_worker = wk'\<rparr>\<rparr>"
      "wk_from_thread wk' = rest" "wk_to_controller wk' = wk_to_controller (p_worker (sy_process s)) @ [(t, b)]"
      "wk_progress wk' = wk_progress (p_worker (sy_process s))"
    by blast
  have "moves_left w (sys_step e env w Worker_main s) < moves_left w s"
    unfolding wk'(1) moves_left_def using at_work_counts [OF at] wk'(2,3) some by simp
  moreover have "completed_work (sys_step e env w Worker_main s) = completed_work s"
    using at_work_counts [OF at] wk' by (simp add: completed_work_def)
  moreover have "at_work e prov env w wk0 (sys_step e env w Worker_main s)"
    using a silent_step_inv [OF at lang can, of Worker_main] wk'(1) by (simp add: at_work_def)
  ultimately show ?thesis using wk'(1,4) by (simp add: moves_one_def)
qed

lemma move_up:
  assumes at: "at_work e prov env w wk0 s" and lang: "same_language e env" and can: "can_do e prov env wk0"
    and up: "sy_up s < length (wk_to_controller (p_worker (sy_process s)))"
  shows "completes e env w s \<or> moves_one e prov env w wk0 s (To_controller undefined)"
proof -
  let ?ev = "To_controller undefined"
  note a = at [unfolded at_work_def]
  from controller_moves [of e prov env w wk0 s undefined] lang up a
  consider "completed_work (sys_step e env w ?ev s) = Suc (completed_work s)"
    | sv d where "completed_work (sys_step e env w ?ev s) = completed_work s"
        "sys_step e env w ?ev s = s\<lparr>sy_server := sv, sy_up := Suc (sy_up s)\<rparr>" "busy w (ctrl sv) = 1"
        "mail w (ctrl sv) = mail w (ctrl (sy_server s)) @ [(DLL_BINARY, d)]"
    by blast
  then show ?thesis
  proof cases
    case 1
    then have "completes e env w s" by (rule completes_now [rotated]) simp
    then show ?thesis by blast
  next
    case 2
    have "moves_left w (sys_step e env w ?ev s) < moves_left w s"
      unfolding 2(2) moves_left_def using up at_work_counts(2) [OF at] 2(4) by simp
    moreover have "at_work e prov env w wk0 (sys_step e env w ?ev s)"
      using silent_step_inv [OF at lang can, of ?ev] a 2(3,4) at_work_counts(2) [OF at] unfolding 2(2) by (simp add: at_work_def)
    ultimately show ?thesis using 2(1,2) by (simp add: moves_one_def)
  qed
qed

lemma move_down:
  assumes at: "at_work e prov env w wk0 s" and lang: "same_language e env" and can: "can_do e prov env wk0"
    and down: "sy_down s < length (mail w (ctrl (sy_server s)))"
  shows "moves_one e prov env w wk0 s To_worker"
proof -
  note a = at [unfolded at_work_def]
  obtain wk' where wk': "sys_step e env w To_worker s
      = s\<lparr>sy_process := \<lparr>p_state = Client_running, p_worker = wk'\<rparr>, sy_down := Suc (sy_down s)\<rparr>"
      "wk_from_thread wk' = wk_from_thread (p_worker (sy_process s))"
      "wk_to_controller wk' = wk_to_controller (p_worker (sy_process s))"
      "wk_progress wk' = wk_progress (p_worker (sy_process s))"
      "given (take (Suc (sy_down s)) (mail w (ctrl (sy_server s)))) = given (mail w (ctrl (sy_server s)))"
    using worker_moves [OF _ _ down, of e prov env wk0] a by blast
  have "moves_left w (sys_step e env w To_worker s) < moves_left w s"
    unfolding wk'(1) using down wk'(2,3) by (simp add: moves_left_def)
  moreover have "completed_work (sys_step e env w To_worker s) = completed_work s"
    unfolding wk'(1) using wk'(3) by (simp add: completed_work_def)
  moreover have "at_work e prov env w wk0 (sys_step e env w To_worker s)"
    using a silent_step_inv [OF at lang can, of To_worker] wk'(5) unfolding wk'(1) by (simp add: at_work_def)
  ultimately show ?thesis using wk'(1,4) by (simp add: moves_one_def)
qed

text \<open>As long as there is a message to move, one can be moved, and the thread stays where it is.\<close>

lemma move_message:
  assumes "at_work e prov env w wk0 s" and "same_language e env" and "can_do e prov env wk0"
    and "wk_from_thread (p_worker (sy_process s)) \<noteq> [] \<or> sy_up s < length (wk_to_controller (p_worker (sy_process s)))
      \<or> sy_down s < length (mail w (ctrl (sy_server s)))"
  shows "completes e env w s \<or> (\<exists>ev. moves_one e prov env w wk0 s ev)"
  using assms(4) move_from_thread [OF assms(1-3)] move_up [OF assms(1-3)] move_down [OF assms(1-3)] by (metis neq_Nil_conv)

definition drained :: "string \<Rightarrow> ('a, 'p) system \<Rightarrow> bool" where
  "drained w s \<longleftrightarrow> wk_from_thread (p_worker (sy_process s)) = []
     \<and> sy_up s = length (wk_to_controller (p_worker (sy_process s))) \<and> sy_down s = length (mail w (ctrl (sy_server s)))"

lemma drain:
  assumes "at_work e prov env w wk0 s" and lang: "same_language e env" and can: "can_do e prov env wk0"
    and rest: "\<And>s'. at_work e prov env w wk0 s' \<Longrightarrow> drained w s'
      \<Longrightarrow> wk_progress (p_worker (sy_process s')) = wk_progress (p_worker (sy_process s)) \<Longrightarrow> completes e env w s'"
  shows "completes e env w s"
  using assms(1) rest
proof (induction "moves_left w s" arbitrary: s rule: less_induct)
  case less
  show ?case
  proof (cases "drained w s")
    case True
    then show ?thesis using less.prems by blast
  next
    case False
    note i = less.prems(1) [unfolded at_work_def sys_inv_def Let_def]
    have some: "wk_from_thread (p_worker (sy_process s)) \<noteq> [] \<or> sy_up s < length (wk_to_controller (p_worker (sy_process s)))
      \<or> sy_down s < length (mail w (ctrl (sy_server s)))"
      using False i by (auto simp: drained_def)
    from move_message [OF less.prems(1) lang can some] show ?thesis
    proof (elim disjE exE)
      fix ev assume "moves_one e prov env w wk0 s ev"
      note ev = this [unfolded moves_one_def]
      have "completes e env w (sys_step e env w ev s)"
        by (rule less.hyps) (use ev less.prems(2) in simp_all)
      then show ?thesis using completes_later ev by blast
    qed
  qed
qed

text \<open>A worker with work that has nothing to say and hears nothing is not done.\<close>

lemma worker_inv_working:
  "worker_inv prov env n wk \<Longrightarrow> n = results_sent wk + 1
     \<Longrightarrow> wk_joinable wk \<and> results_queued wk = (if wk_progress wk = Thread_ended then 1 else 0)"
  by (cases "wk_joinable wk") (simp_all add: worker_inv_def)

lemma drained_working:
  assumes "at_work e prov env w wk0 s" and "drained w s"
  shows "wk_progress (p_worker (sy_process s)) \<noteq> Thread_ended"
    and "wk_progress (p_worker (sy_process s)) = Waiting_for_dll lib k
      \<Longrightarrow> \<exists>b. wk_to_thread (p_worker (sy_process s)) = [(DLL_BINARY, b)]"
proof -
  let ?wk = "p_worker (sy_process s)"
  note i = assms(1) [unfolded at_work_def sys_inv_def Let_def]
  have "given (take (sy_down s) (mail w (ctrl (sy_server s)))) = results_sent ?wk + 1"
    using i assms(2) by (simp add: drained_def results_answered)
  then have "wk_joinable ?wk \<and> results_queued ?wk = (if wk_progress ?wk = Thread_ended then 1 else 0)"
    by (rule worker_inv_working [rotated]) (use i in blast)
  then show "wk_progress ?wk \<noteq> Thread_ended" using assms(2) by (auto simp: drained_def results_queued_def)
  show "\<exists>b. wk_to_thread ?wk = [(DLL_BINARY, b)]" if "wk_progress ?wk = Waiting_for_dll lib k"
  proof -
    have "length (wk_to_thread ?wk) = 1" "list_all (\<lambda>m. fst m = DLL_BINARY) (wk_to_thread ?wk)"
      using i assms(2) that by (simp_all add: drained_def fetching_def waiting_thread_def)
    then show ?thesis by (cases "wk_to_thread ?wk") auto
  qed
qed

text \<open>A step of the worker thread keeps the stage.\<close>

lemma thread_moves:
  assumes at: "at_work e prov env w wk0 s" and lang: "same_language e env" and can: "can_do e prov env wk0"
    and step: "thread_step env (p_worker (sy_process s)) = (Inr (), wk')"
    and out: "wk_to_controller wk' = wk_to_controller (p_worker (sy_process s))"
  shows "at_work e prov env w wk0 (sys_step e env w Worker_thread s)"
    and "p_worker (sy_process (sys_step e env w Worker_thread s)) = wk'"
    and "completed_work (sys_step e env w Worker_thread s) = completed_work s"
proof -
  note a = at [unfolded at_work_def]
  have run: "p_state (sy_process s) = Client_running" using a by (simp add: sys_inv_def Let_def)
  have "sys_inv e prov env w wk0 (sys_step e env w Worker_thread s)"
    by (rule sys_step_inv [OF _ lang can]) (use a in simp_all)
  then show "at_work e prov env w wk0 (sys_step e env w Worker_thread s)"
    using a by (simp add: at_work_def)
  show "p_worker (sy_process (sys_step e env w Worker_thread s)) = wk'"
    "completed_work (sys_step e env w Worker_thread s) = completed_work s"
    using run step out by (simp_all add: process_step_def completed_work_def)
qed

lemma ended_completes:
  assumes "at_work e prov env w wk0 s" and "same_language e env" and "can_do e prov env wk0"
    and "wk_progress (p_worker (sy_process s)) = Thread_ended"
  shows "completes e env w s"
  using drain [OF assms(1-3)] drained_working(1) assms(4) by metis

lemma waiting_completes:
  assumes lang: "same_language e env" and can: "can_do e prov env wk0"
    and rest: "\<And>b s. at_work e prov env w wk0 s \<Longrightarrow> wk_progress (p_worker (sy_process s)) = Reading (k b) \<Longrightarrow> completes e env w s"
    and at: "at_work e prov env w wk0 s" and wait: "wk_progress (p_worker (sy_process s)) = Waiting_for_dll lib k"
  shows "completes e env w s"
proof (rule drain [OF at lang can])
  fix s' assume s': "at_work e prov env w wk0 s'" "drained w s'"
    "wk_progress (p_worker (sy_process s')) = wk_progress (p_worker (sy_process s))"
  have prog: "wk_progress (p_worker (sy_process s')) = Waiting_for_dll lib k" using s'(3) wait by simp
  obtain b where b: "wk_to_thread (p_worker (sy_process s')) = [(DLL_BINARY, b)]"
    using drained_working(2) [OF s'(1,2) prog] by blast
  obtain dbc where "vector_deserialize (we_parse_dll env) b = Inr dbc"
    using s'(1) b prog by (auto simp: at_work_def sys_inv_def Let_def worker_inv_def right_answer_def split: sum.splits)
  then have step': "thread_step env (p_worker (sy_process s'))
      = (Inr (), (p_worker (sy_process s'))\<lparr>wk_to_thread := [],
          wk_received := wk_received (p_worker (sy_process s')) @ [(lib, dll_file dbc)], wk_progress := Reading (k (dll_file dbc))\<rparr>)"
    using prog b by (simp add: thread_step_def receive_dll_def)
  note t' = thread_moves [OF s'(1) lang can step']
  have "completes e env w (sys_step e env w Worker_thread s')"
    by (rule rest [OF t'(1)]) (use t'(2) in simp_all)
  then show "completes e env w s'" by (rule completes_later) (use t'(3) in simp_all)
qed

lemma reading_completes:
  assumes lang: "same_language e env" and can: "can_do e prov env wk0"
  shows "at_work e prov env w wk0 s \<Longrightarrow> wk_progress (p_worker (sy_process s)) = Reading l \<Longrightarrow> completes e env w s"
proof (induction l arbitrary: s)
  case (Loaded wct)
  let ?wk = "p_worker (sy_process s)"
  have "never_fails prov env ?wk (Loaded wct)"
    using Loaded by (auto simp: at_work_def sys_inv_def Let_def worker_inv_def)
  then obtain res where "run_work env ?wk wct = Inr res" by (auto simp: is_ok_ex)
  then have step: "thread_step env ?wk = (Inr (), ?wk\<lparr>wk_from_thread := wk_from_thread ?wk @
      [(''worker_main'', WORK_RESULTS, vector_serialize (we_emit env) res)], wk_progress := Thread_ended\<rparr>)"
    using Loaded by (simp add: thread_step_def)
  note t = thread_moves [OF Loaded(1) lang can step]
  have "completes e env w (sys_step e env w Worker_thread s)"
    by (rule ended_completes [OF t(1) lang can]) (use t(2) in simp_all)
  then show ?case by (rule completes_later) (use t(3) in simp_all)
next
  case (Failed e')
  then show ?case by (auto simp: at_work_def sys_inv_def Let_def worker_inv_def)
next
  case (Fetch lib k)
  let ?wk = "p_worker (sy_process s)"
  have step: "thread_step env ?wk = (Inr (), request_dll env lib k ?wk)" using Fetch.prems by (simp add: thread_step_def)
  note t = thread_moves [OF Fetch.prems(1) lang can step]
  have "completes e env w (sys_step e env w Worker_thread s)"
    by (rule waiting_completes [OF lang can Fetch.IH t(1)]) (use t(2) in \<open>simp_all add: request_dll_def\<close>)
  then show ?case by (rule completes_later) (use t(3) in \<open>simp_all add: request_dll_def\<close>)
qed

lemma at_work_completes:
  assumes "at_work e prov env w wk0 s" and "same_language e env" and "can_do e prov env wk0"
  shows "completes e env w s"
proof (cases "wk_progress (p_worker (sy_process s))")
  case Thread_ended
  then show ?thesis by (rule ended_completes [OF assms])
next
  case (Reading l)
  then show ?thesis by (rule reading_completes [OF assms(2,3,1)])
next
  case (Waiting_for_dll lib k)
  show ?thesis
    by (rule waiting_completes [OF assms(2,3) _ assms(1) Waiting_for_dll]) (rule reading_completes [OF assms(2,3)])
qed

lemma busy_completes:
  assumes lang: "same_language e env" and can: "can_do e prov env wk0"
  shows "sys_inv e prov env w wk0 s \<Longrightarrow> busy w (ctrl (sy_server s)) = 1 \<Longrightarrow> completes e env w s"
proof (induction "length (mail w (ctrl (sy_server s))) - sy_down s" arbitrary: s)
  case 0
  then have "sy_down s = length (mail w (ctrl (sy_server s)))" by (simp add: sys_inv_def Let_def)
  then show ?case using 0 by (intro at_work_completes [OF _ lang can]) (simp add: at_work_def)
next
  case (Suc n)
  then have down: "sy_down s < length (mail w (ctrl (sy_server s)))" by simp
  obtain t b where m: "mail w (ctrl (sy_server s)) ! sy_down s = (t, b)" by fastforce
  let ?wk = "p_worker (sy_process s)"
  note i = Suc.prems(1) [unfolded sys_inv_def Let_def]
  have inv': "sys_inv e prov env w wk0 (sys_step e env w To_worker s)"
    by (rule sys_step_inv [OF Suc.prems(1) lang can]) simp
  have "wk_to_controller (p_worker (process_step env (Controller_msg t b) (sy_process s))) = wk_to_controller ?wk"
    by (cases t) (auto simp: process_step_def handle_Worker_Socket_Msg_def start_worker_thread_def split: progress.split)
  then have same: "completed_work (sys_step e env w To_worker s) = completed_work s"
    using down m by (simp add: completed_work_def)
  have "completes e env w (sys_step e env w To_worker s)"
    by (rule Suc.hyps(1) [OF _ inv']) (use Suc.hyps(2) Suc.prems(2) down m in simp_all)
  then show ?case by (rule completes_later) (use same in simp_all)
qed

section \<open>A concrete pair\<close>

text \<open>Algorithm and population are one bit each; evolution negates the population.\<close>

definition bit_pagmo :: "(unit, bool, int) pagmo" where
  "bit_pagmo = \<lparr>pg_new = (\<lambda>p n s. Inr False), pg_set_x = (\<lambda>i x p. Inr p), pg_x = (\<lambda>p. [[if p then 1 else 0]]),
     pg_f = (\<lambda>p. [[if p then 1 else 0]]), pg_problem = (\<lambda>p. ()), pg_seed = (\<lambda>p. 0), pg_nobj = (\<lambda>p. 1),
     pg_nc = (\<lambda>p. 0), pg_nec = (\<lambda>p. 0), pg_c_tol = (\<lambda>p. []),
     pg_sort_con = (\<lambda>fs nec tol. Inr [0]), pg_sort_mo = (\<lambda>fs. Inr [0])\<rparr>"

text \<open>Work needs the library \<open>p\<close>, which the worker asks for if it has not got it yet.\<close>

definition bit_load :: "(string \<times> bytes option) list \<Rightarrow> bytes \<Rightarrow> (bool, bool) load" where
  "bit_load received d =
    (case bit_parse d of
       Inl e \<Rightarrow> Failed e
     | Inr c \<Rightarrow>
         if list_ex (\<lambda>(lib, f). lib = ''p'' \<and> f \<noteq> None) received then Loaded c
         else Fetch ''p'' (\<lambda>f. if f = None then Failed (Runtime_error ''no library'') else Loaded c))"

definition bit_wenv :: "(bool, unit, bool, int) wenv" where
  "bit_wenv = \<lparr>we_pg = bit_pagmo, we_ties = (\<lambda>xs. xs), we_random = 0, we_cores = 1,
     we_evolve = (\<lambda>a p. Inr (\<not> p)), we_archi = (\<lambda>ias c. Inr ias),
     we_load = bit_load, we_emit = bit_emit,
     we_emit_request = demo_emit, we_parse_dll = demo_parse_dll, we_xml = demo_xml,
     we_bind = (\<lambda>a. Inr ()), we_connect = (\<lambda>a. Inr ())\<rparr>"

definition bit_env :: "(bool, bool, nat, nat) env" where
  "bit_env = \<lparr>e_xml = \<lparr>xml_write = (\<lambda>_. []), xml_read = (\<lambda>_ v. Inr v)\<rparr>, e_host = demo_host,
     e_work = bit_parse, e_request = demo_parse, e_emit_dll = demo_emit_dll,
     e_pop_size = (\<lambda>p. 1), e_algo_name = (\<lambda>_. ''sade''), e_bind = (\<lambda>_. Inr ())\<rparr>"

definition bit_worker :: "(bool, bool) worker" where
  "bit_worker = \<lparr>wk_heartbeat_interval = 2000, wk_heartbeat_timeout = 300000, wk_reconnect_ivl_max = 10000,
     wk_options = [], wk_settings = \<lparr>settingsPath = ''w'', st_value = \<lparr>ws_workerId = ''w''\<rparr>, autoSave = True\<rparr>,
     wk_disk = demo_disk, wk_id = ''w'', wk_mode = SINGLE_THREADED, wk_min_island_pop = 4, wk_controller = ''c'',
     wk_joinable = False, wk_progress = Thread_ended, wk_received = [], wk_from_thread = [], wk_to_thread = [],
     wk_to_controller = [], wk_client_thread = True\<rparr>"

lemma bit_same_language: "same_language bit_env bit_wenv"
  using bit_codec_ok demo_codec_ok demo_dll_codec_ok by (simp add: same_language_def bit_env_def bit_wenv_def)

definition bit_libs :: "string \<Rightarrow> bytes option" where
  "bit_libs lib = stored_lib demo_host lib (demo_registry [1])"

lemma bit_libs_p: "bit_libs ''p'' = Some [1]"
  by (simp add: bit_libs_def demo_stored)

lemma bit_can_do: "can_do bit_env bit_libs bit_wenv bit_worker"
  by (auto simp: can_do_def readable_work_def vector_deserialize_def is_ok_ex bit_env_def bit_wenv_def bit_load_def bit_libs_p
      run_work_def bit_worker_def single_threaded_worker_def split: if_splits)

lemma bit_ctl: "ctl_inv bit_env demo_ctl" "reg_ok bit_env bit_libs demo_ctl" "mail ''w'' demo_ctl = []"
proof -
  have "controller_new bit_env ''tcp://*:5555'' 1000 3000 1000 ''c.xml'' demo_disk (demo_registry [1]) = Inr demo_ctl"
    by (simp add: controller_new_def settings_new_def initialize_settings_def bit_env_def demo_ctl_def
        controller_settings_initialize_def demo_disk_def)
  from controller_new_inv [OF this] show "ctl_inv bit_env demo_ctl" by (simp add: demo_disk_def)
  show "reg_ok bit_env bit_libs demo_ctl"
    by (simp add: reg_ok_def demo_ctl_def bit_libs_def) (simp add: bit_env_def demo_registry_local)
  show "mail ''w'' demo_ctl = []" by (simp add: mail_def)
qed

definition bit_start :: "(bool, bool) system" where
  "bit_start = sys_start bit_env demo_choice ''w'' demo_ctl bit_worker"

definition bit_asked :: sys_event where
  "bit_asked = Others (Island_msg demo_choice ''isl'' ALLOCATE_WORK (vector_serialize bit_emit (work_container_new True False '''' 1)))"

lemma bit_start_ctl:
  "freeWorkersPool (ctrl (sy_server bit_start)) = [''w'']" "workAllocationMap (ctrl (sy_server bit_start)) = []"
  "islandsWaitingForAlloc (ctrl (sy_server bit_start)) = []" "serving (sy_server bit_start)"
  by (simp_all add: bit_start_def sys_start_def poll_def handle_workers_msg_def handle_join_def with_repo_eq demo_save
      add_free_worker_def set_emplace_def)

section \<open>Properties\<close>

text \<open>
  C5: controller and worker stay in service together. Take a controller whose library registry is
  local and has the libraries \<open>prov\<close>, a worker that has just joined it and can do every readable work
  with these libraries (it asks for those it has not got), any interleaving of their steps, of the delivery of
  their messages and of messages of other workers and islands that keep to the protocol. Then no
  handler of the controller throws, the worker's process does not end, the controller has given
  the worker one piece of work for each answer it has handled and at most one more, and the
  worker has answered nothing it was not given.
\<close>

theorem pair_stays_in_service:
  assumes "ctl_inv e c" and "reg_ok e prov c" and "w \<notin> fst ` set (workAllocationMap c)" and "mail w c = []"
    and "idle wk" and "wk_to_controller wk = []" and "honest prov (wk_received wk)" and "same_language e env" and "can_do e prov env wk"
    and "sys_reach e env w (sys_start e ch w c wk) s"
  shows "serving (sy_server s) \<and> p_state (sy_process s) = Client_running
    \<and> given (mail w (ctrl (sy_server s))) = completed_work s
        + (if w \<in> fst ` set (workAllocationMap (ctrl (sy_server s))) then 1 else 0)
    \<and> results_sent (p_worker (sy_process s)) \<le> given (mail w (ctrl (sy_server s)))"
proof -
  have "sys_inv e prov env w wk s"
    by (rule sys_reach_inv [OF assms(10) sys_start_inv [OF assms(1-7)] assms(8,9)])
  note i = this [unfolded sys_inv_def Let_def]
  have "results_sent (p_worker (sy_process s)) \<le> given (take (sy_down s) (mail w (ctrl (sy_server s))))"
    using i by (auto dest: worker_inv_count)
  also have "\<dots> \<le> given (mail w (ctrl (sy_server s)))" by (rule count_take_le)
  finally show ?thesis using i by (simp add: completed_work_def busy_def)
qed

text \<open>
  Work that was accepted can always be completed. In every such state in which the controller
  has recorded work for the worker, the two can bring it to an end by steps of their own: after
  some of them the controller has handled one more answer of the worker.
\<close>

theorem accepted_work_gets_done:
  assumes "ctl_inv e c" and "reg_ok e prov c" and "w \<notin> fst ` set (workAllocationMap c)" and "mail w c = []"
    and "idle wk" and "wk_to_controller wk = []" and "honest prov (wk_received wk)" and "same_language e env" and "can_do e prov env wk"
    and "sys_reach e env w (sys_start e ch w c wk) s" and "w \<in> fst ` set (workAllocationMap (ctrl (sy_server s)))"
  shows "\<exists>evs. list_all silent evs \<and> completed_work (sys_run e env w evs s) = Suc (completed_work s)"
proof -
  have "sys_inv e prov env w wk s"
    by (rule sys_reach_inv [OF assms(10) sys_start_inv [OF assms(1-7)] assms(8,9)])
  then show ?thesis
    using busy_completes [OF assms(8,9)] assms(11) by (simp add: busy_def completes_def)
qed

text \<open>
  C6: a connection that is lost and found again kills a busy worker. When a busy worker is taken
  for dead (\<open>WORKER_LEAVE\<close>), connects again and no worker is free, the controller sends it a
  piece of work at once. The worker still runs the first one: its process ends when the message
  arrives, whatever it did and does in between.
\<close>

theorem reconnect_kills_busy_worker:
  assumes "ctl_inv e c" and "w \<in> fst ` set (workAllocationMap c)" and "freeWorkersPool c = []"
    and "p_state p = Client_running" and "wk_joinable (p_worker p)"
  shows "\<exists>d. toWorkers (ctrl (run_server e [Worker_msg ch1 w WORKER_LEAVE b1, Worker_msg ch2 w WORKER_JOIN b2] \<lparr>serving = True, ctrl = c\<rparr>))
        = toWorkers c @ [(w, ALLOCATE_WORK, d)]
    \<and> p_state (run_client env (Controller_msg ALLOCATE_WORK d # evs) p) = Process_terminated"
proof -
  obtain r where r: "map_of (workAllocationMap c) w = Some r"
    using assms(2) by (auto simp: map_contains_def [symmetric] map_contains_iff)
  note l = leave_busy [OF assms(1) r]
  define c1 where "c1 = snd (handle_leave e ch1 w c)"
  have c1: "fst (handle_leave e ch1 w c) = Inr ()" "toWorkers c1 = toWorkers c" "freeWorkersPool c1 = []"
      "islandsWaitingForAlloc c1 \<noteq> []" "workAllocationMap c1 = map_erase w (workAllocationMap c)"
    using assms(3) unfolding c1_def l(1) by (simp_all add: allocate_island_work_def set_erase_def map_emplace_def map_contains_def) auto
  have inv1: "ctl_inv e c1"
    using leave_effect [OF assms(1), of ch1 w] by (simp add: runs_to_def effect_def c1_def)
  let ?c = "set_repo e (worker_joined w worker_info_new (repo c1)) c1"
  have ok: "ctl_ok e ?c" using inv1 by (intro ctl_ok_set_repo) (auto simp: ctl_inv_def joined_dom)
  obtain i d c2 where c2: "c2 = ?c\<lparr>freeWorkersPool := [w], islandsWaitingForAlloc := map_erase i (islandsWaitingForAlloc ?c)\<rparr>"
      "add_free_worker e ch2 w ?c = (Inr (), assigned e (ch_now ch2) w i d c2)"
    using add_free_waiting [OF ok, of w ch2] c1(3-5) by (auto simp: joined_dom)
  have "handle_join e ch2 w c1 = (Inr (), assigned e (ch_now ch2) w i d c2)"
    using c1(3) inv1 c2(2) by (simp add: handle_join_def with_repo_eq ctl_inv_def ctl_ok_def)
  then have "toWorkers (ctrl (run_server e [Worker_msg ch1 w WORKER_LEAVE b1, Worker_msg ch2 w WORKER_JOIN b2] \<lparr>serving = True, ctrl = c\<rparr>))
      = toWorkers c @ [(w, ALLOCATE_WORK, d)]"
    using c1(1,2) by (simp add: poll_def handle_workers_msg_def case_prod_beta c1_def [symmetric] c2(1))
  moreover have "process_step env (Controller_msg ALLOCATE_WORK d) p = \<lparr>p_state = Process_terminated, p_worker = p_worker p\<rparr>"
    using assms(4,5) by (simp add: process_step_def handle_Worker_Socket_Msg_def start_worker_thread_def)
  then have "p_state (run_client env (Controller_msg ALLOCATE_WORK d # evs) p) = Process_terminated"
    by (simp add: terminated_stays)
  ultimately show ?thesis by blast
qed

section \<open>Applying the properties\<close>

lemma bit_reach: "sys_reach bit_env bit_wenv ''w'' bit_start (sys_step bit_env bit_wenv ''w'' bit_asked bit_start)"
proof (rule sys_next [OF sys_begin])
  show "others_behave bit_env ''w'' bit_asked bit_start"
    using bit_codec_ok by (simp add: bit_asked_def islands_of_def bit_start_ctl readable_work_def bit_env_def serialize_roundtrip)
qed

lemma bit_busy: "''w'' \<in> fst ` set (workAllocationMap (ctrl (sy_server (sys_step bit_env bit_wenv ''w'' bit_asked bit_start))))"
proof -
  have inv: "sys_inv bit_env bit_libs bit_wenv ''w'' bit_worker bit_start"
    unfolding bit_start_def by (rule sys_start_inv) (use bit_ctl in \<open>simp_all add: idle_def bit_worker_def honest_def\<close>)
  let ?d = "vector_serialize bit_emit (work_container_new True False '''' 1)" and ?c = "ctrl (sy_server bit_start)"
  have "ctl_ok bit_env ?c" using inv by (simp add: sys_inv_def Let_def ctl_inv_def)
  moreover have "readable_work bit_env ?d"
    using bit_codec_ok by (simp add: readable_work_def bit_env_def serialize_roundtrip)
  ultimately have "allocate_worker_to_island bit_env demo_choice ''isl'' ?d ?c
      = (Inr (), assigned bit_env (ch_now demo_choice) ''w'' ''isl'' ?d ?c)"
    using allocate_worker_eq [of bit_env ?c ?d demo_choice "''isl''"] bit_start_ctl by simp
  then show ?thesis
    by (simp add: bit_asked_def poll_def handle_islands_msg_def allocate_island_work_def bit_start_ctl)
qed

theorem pair_stays_in_service_witness:
  "serving (sy_server (sys_step bit_env bit_wenv ''w'' bit_asked bit_start))"
  using pair_stays_in_service [OF bit_ctl(1,2) _ bit_ctl(3) _ _ _ bit_same_language bit_can_do bit_reach [unfolded bit_start_def]]
  by (simp add: idle_def bit_worker_def honest_def bit_start_def)

theorem accepted_work_gets_done_witness:
  "completes bit_env bit_wenv ''w'' (sys_step bit_env bit_wenv ''w'' bit_asked bit_start)"
  using accepted_work_gets_done [OF bit_ctl(1,2) _ bit_ctl(3) _ _ _ bit_same_language bit_can_do bit_reach [unfolded bit_start_def]]
    bit_busy
  by (simp add: idle_def bit_worker_def honest_def bit_start_def completes_def)

theorem reconnect_kills_busy_worker_witness:
  "\<exists>d. p_state (run_client demo_wenv [Controller_msg ALLOCATE_WORK d]
     \<lparr>p_state = Client_running, p_worker = demo_worker\<lparr>wk_joinable := True\<rparr>\<rparr>) = Process_terminated"
  using reconnect_kills_busy_worker [OF st2_inv, of "''B''"
      "\<lparr>p_state = Client_running, p_worker = demo_worker\<lparr>wk_joinable := True\<rparr>\<rparr>" demo_choice "[]" demo_choice "[]" demo_wenv "[]"]
  by (auto simp: st2_busy st2_free)

end
