(* ===== verification/Results.thy ===== *)
theory Results
  imports System Machine
begin

text \<open>
  What the answers of a worker are: each is the result of running the piece of work it was given,
  and the controller passes it to the island that asked for that piece. \<open>System\<close> counts messages;
  here their contents are followed, from the bytes an island sent to the bytes it gets back.
\<close>

section \<open>What a piece of work computes\<close>

text \<open>
  Reading the work with the libraries that the controller has, and running it. The bytes \<open>b\<close> answer
  the work \<open>d\<close>: they are the serialised result, for a worker that had received some libraries of the
  controller before.
\<close>

definition work_result :: "(string \<Rightarrow> bytes option) \<Rightarrow> ('a, 'prob, 'p, 'd::linorder) wenv \<Rightarrow> ('a, 'p) worker \<Rightarrow> ('a, 'p) load
    \<Rightarrow> ('a, 'p) work_container result" where
  "work_result prov env wk l = bind_result (loads_to prov l) (run_work env wk)"

lemma work_result_simps [simp]:
  "work_result prov env wk (Loaded wct) = run_work env wk wct"
  "work_result prov env wk (Failed err) = Inl err"
  "work_result prov env wk (Fetch lib k) = work_result prov env wk (k (prov lib))"
  by (simp_all add: work_result_def)

definition answer_to :: "(string \<Rightarrow> bytes option) \<Rightarrow> ('a, 'prob, 'p, 'd::linorder) wenv \<Rightarrow> ('a, 'p) worker \<Rightarrow> bytes
    \<Rightarrow> bytes \<Rightarrow> bool" where
  "answer_to prov env wk d b \<longleftrightarrow> (\<exists>received res. honest prov received
     \<and> work_result prov env wk (we_load env received d) = Inr res \<and> b = vector_serialize (we_emit env) res)"

section \<open>The worker answers what it was given\<close>

definition of_type :: "MsgType \<Rightarrow> (MsgType \<times> bytes) list \<Rightarrow> bytes list" where
  "of_type t ms = map snd (filter (\<lambda>m. fst m = t) ms)"

lemma of_type_simps [simp]:
  "of_type t [] = []" "of_type t (m # ms) = (if fst m = t then snd m # of_type t ms else of_type t ms)"
  "of_type t (xs @ ys) = of_type t xs @ of_type t ys"
  by (simp_all add: of_type_def)

lemma of_type_length:
  "length (of_type WORK_RESULTS ms) = answered ms" "length (of_type ALLOCATE_WORK ms) = given ms"
  by (simp_all add: of_type_def answered_def given_def)

text \<open>
  \<open>ds\<close> is the work the worker was given so far. What it has sent answers it in order, and what its
  thread is doing leads to an answer to the last piece.
\<close>

definition working_on :: "(string \<Rightarrow> bytes option) \<Rightarrow> ('a, 'prob, 'p, 'd::linorder) wenv \<Rightarrow> ('a, 'p) worker \<Rightarrow> bytes
    \<Rightarrow> ('a, 'p) worker \<Rightarrow> bool" where
  "working_on prov env wk0 d wk \<longleftrightarrow>
     (case wk_progress wk of
        Thread_ended \<Rightarrow> list_all (answer_to prov env wk0 d) (of_type WORK_RESULTS (map snd (wk_from_thread wk)))
      | Reading l \<Rightarrow> \<exists>received. honest prov received \<and> work_result prov env wk0 l = work_result prov env wk0 (we_load env received d)
      | Waiting_for_dll lib k \<Rightarrow> \<exists>received. honest prov received
          \<and> work_result prov env wk0 (k (prov lib)) = work_result prov env wk0 (we_load env received d))"

definition worker_answers :: "(string \<Rightarrow> bytes option) \<Rightarrow> ('a, 'prob, 'p, 'd::linorder) wenv \<Rightarrow> ('a, 'p) worker \<Rightarrow> bytes list \<Rightarrow> ('a, 'p) worker \<Rightarrow> bool" where
  "worker_answers prov env wk0 ds wk \<longleftrightarrow>
     list_all2 (answer_to prov env wk0) (take (results_sent wk) ds) (of_type WORK_RESULTS (wk_to_controller wk))
     \<and> (wk_joinable wk \<longrightarrow> working_on prov env wk0 (last ds) wk)"

fun work_in :: "worker_event \<Rightarrow> bytes list" where
  "work_in (Controller_msg t d) = (if t = ALLOCATE_WORK then [d] else [])"
| "work_in Thread_socket_msg = []"
| "work_in Thread_runs = []"

lemma sent_answered: "results_sent wk = length (of_type WORK_RESULTS (wk_to_controller wk))"
  by (simp add: results_sent_def of_type_def)

lemma queued_answered: "results_queued wk = length (of_type WORK_RESULTS (map snd (wk_from_thread wk)))"
  by (simp add: results_queued_def of_type_def filter_map comp_def)

lemma reading_answers:
  assumes inv: "worker_inv prov env (length ds) wk" and talk: "talk_inv env wk0 wk" and ans: "worker_answers prov env wk0 ds wk"
    and Reading: "wk_progress wk = Reading l"
  shows "worker_answers prov env wk0 ds (snd (thread_step env wk))"
proof -
  have busy: "wk_joinable wk" and none: "of_type WORK_RESULTS (map snd (wk_from_thread wk)) = []"
    using inv Reading unfolding worker_inv_def queued_answered by auto
  obtain received where work: "honest prov received" "work_result prov env wk0 l = work_result prov env wk0 (we_load env received (last ds))"
    using ans busy Reading by (auto simp: worker_answers_def working_on_def)
  show ?thesis
  proof (cases l)
    case (Loaded wct)
    have same: "run_work env wk wct = work_result prov env wk0 (we_load env received (last ds))"
      using talk unfolding work(2) [symmetric] Loaded work_result_simps by (intro run_work_frame) (simp_all add: talk_inv_def)
    show ?thesis
    proof (cases "run_work env wk wct")
      case (Inl err)
      then show ?thesis using ans Reading Loaded by (simp add: thread_step_def)
    next
      case (Inr res)
      then have "answer_to prov env wk0 (last ds) (vector_serialize (we_emit env) res)"
        using work(1) same by (auto simp: answer_to_def)
      then show ?thesis using ans none busy Reading Loaded Inr
        by (simp add: thread_step_def worker_answers_def working_on_def sent_answered)
    qed
  next
    case (Failed e)
    then show ?thesis using ans by (simp add: thread_step_def Reading)
  next
    case (Fetch lib k)
    then show ?thesis
      using ans work busy by (auto simp: thread_step_def Reading request_dll_def worker_answers_def working_on_def sent_answered)
  qed
qed

lemma waiting_answers:
  assumes inv: "worker_inv prov env (length ds) wk" and ans: "worker_answers prov env wk0 ds wk"
    and Waiting_for_dll: "wk_progress wk = Waiting_for_dll lib k"
  shows "worker_answers prov env wk0 ds (snd (thread_step env wk))"
proof -
  have busy: "wk_joinable wk" and right: "\<forall>(t, b) \<in> set (wk_to_thread wk). right_answer prov env lib b"
    using inv Waiting_for_dll by (auto simp: worker_inv_def)
  show ?thesis
  proof (cases "wk_to_thread wk")
    case Nil
    then show ?thesis using ans Waiting_for_dll by (simp add: thread_step_def receive_dll_def)
  next
    case (Cons m rest)
    then obtain t b dbc where "m = (t, b)" "vector_deserialize (we_parse_dll env) b = Inr dbc" "dll_file dbc = prov lib"
      using right by (cases m) (auto simp: right_answer_def split: sum.splits)
    then show ?thesis using ans busy Waiting_for_dll Cons
      by (auto simp: thread_step_def receive_dll_def worker_answers_def working_on_def sent_answered)
  qed
qed

lemma thread_answers:
  assumes "worker_inv prov env (length ds) wk" and "talk_inv env wk0 wk" and "worker_answers prov env wk0 ds wk"
  shows "worker_answers prov env wk0 ds (snd (thread_step env wk))"
  using reading_answers [OF assms] waiting_answers [OF assms(1,3)] assms(3)
  by (cases "wk_progress wk") (simp_all add: thread_step_def)

lemma socket_answers:
  assumes inv: "worker_inv prov env (length ds) wk" and ans: "worker_answers prov env wk0 ds wk"
  shows "worker_answers prov env wk0 ds (snd (handle_Thread_Socket_Msg wk))"
proof (cases "wk_from_thread wk")
  case Nil
  then show ?thesis using ans by (simp add: handle_Thread_Socket_Msg_def)
next
  case (Cons m rest)
  obtain i t b where m: "m = (i, t, b)" by (cases m)
  show ?thesis
  proof (cases "t = WORK_RESULTS")
    case True
    then have "0 < results_queued wk" by (simp add: queued_answered Cons m)
    then have busy: "wk_joinable wk" and ended: "wk_progress wk = Thread_ended"
      using inv by (auto simp: worker_inv_def split: if_splits)
    then have len: "length ds = Suc (results_sent wk)" using inv by (simp add: worker_inv_def)
    then obtain ds' d where ds: "ds = ds' @ [d]" by (cases ds rule: rev_cases) auto
    have "answer_to prov env wk0 d b"
      using ans busy ended True by (simp add: worker_answers_def working_on_def Cons m ds)
    then show ?thesis
      using ans len busy True
      by (simp add: handle_Thread_Socket_Msg_def Cons m worker_answers_def sent_answered ds list_all2_appendI)
  next
    case False
    then have same: "working_on prov env wk0 d (wk\<lparr>wk_from_thread := rest, wk_to_controller := c\<rparr>) = working_on prov env wk0 d wk" for d c
      by (simp add: working_on_def Cons m split: progress.split)
    have same': "working_on prov env wk0 d (wk\<lparr>wk_from_thread := rest\<rparr>) = working_on prov env wk0 d wk" for d
      using False by (simp add: working_on_def Cons m split: progress.split)
    show ?thesis using ans False
      by (cases t) (simp_all add: handle_Thread_Socket_Msg_def Cons m worker_answers_def sent_answered same same')
  qed
qed

lemma worker_step_answers:
  assumes inv: "worker_inv prov env (length ds) wk" and talk: "talk_inv env wk0 wk" and ans: "worker_answers prov env wk0 ds wk"
    and may: "may_send prov env (length ds) wk ev"
  shows "worker_answers prov env wk0 (ds @ work_in ev) (snd (worker_step env ev wk))"
proof (cases ev)
  case (Controller_msg t d)
  show ?thesis
  proof (cases "t = ALLOCATE_WORK")
    case True
    then have "results_sent wk = length ds" "d \<noteq> []" using may Controller_msg by auto
    moreover from this have "\<not> wk_joinable wk" "honest prov (wk_received wk)" using inv by (auto simp: worker_inv_def)
    ultimately show ?thesis
      using ans Controller_msg True
      by (auto simp: handle_Worker_Socket_Msg_def start_worker_thread_def worker_answers_def working_on_def sent_answered)
  next
    case False
    then show ?thesis using ans Controller_msg
      by (cases t) (auto simp: handle_Worker_Socket_Msg_def worker_answers_def working_on_def sent_answered split: progress.split)
  qed
next
  case Thread_socket_msg
  then show ?thesis using socket_answers [OF inv ans] by simp
next
  case Thread_runs
  then show ?thesis using thread_answers [OF inv talk ans] by simp
qed

section \<open>What every handler of the controller keeps\<close>

text \<open>
  A property of the scheduler that is kept when work is handed to a free worker, when an allocation
  is erased, when a library is sent and when a worker that may speak becomes free is kept by every
  handler.
\<close>

locale handler_law =
  fixes P :: "controller \<Rightarrow> bool"
    and who :: "string set"
  assumes frame: "P c \<Longrightarrow> set (freeWorkersPool c') \<subseteq> set (freeWorkersPool c) \<union> who
      \<Longrightarrow> workAllocationMap c' = workAllocationMap c \<Longrightarrow> toWorkers c' = toWorkers c \<Longrightarrow> P c'"
    and erase: "P c \<Longrightarrow> set (freeWorkersPool c') \<subseteq> set (freeWorkersPool c)
      \<Longrightarrow> workAllocationMap c' = map_erase v (workAllocationMap c) \<Longrightarrow> toWorkers c' = toWorkers c \<Longrightarrow> P c'"
    and assign: "P c \<Longrightarrow> v \<in> set (freeWorkersPool c) \<Longrightarrow> set (freeWorkersPool c') \<subseteq> set (freeWorkersPool c)
      \<Longrightarrow> workAllocationMap c' = (v, r) # workAllocationMap c
      \<Longrightarrow> toWorkers c' = toWorkers c @ [(v, ALLOCATE_WORK, workData r)] \<Longrightarrow> P c'"
    and lend: "P c \<Longrightarrow> v \<in> who \<Longrightarrow> freeWorkersPool c' = freeWorkersPool c \<Longrightarrow> workAllocationMap c' = workAllocationMap c
      \<Longrightarrow> toWorkers c' = toWorkers c @ [(v, DLL_BINARY, b)] \<Longrightarrow> P c'"
begin

lemma assigned_kept: "P c \<Longrightarrow> v \<in> set (freeWorkersPool c) \<Longrightarrow> P (assigned e t v i d c)"
  by (rule assign [of _ v _ "\<lparr>islandId = i, workData = d\<rparr>"]) (auto simp: set_erase_def)

lemma allocate_kept:
  assumes "ctl_ok e c" and "readable_work e d" and "P c"
  shows "P (snd (allocate_island_work e ch i d c))"
proof (cases "freeWorkersPool c = []")
  case True
  then show ?thesis using frame [OF assms(3)] by (simp add: allocate_island_work_def)
next
  case False
  then obtain v where "v \<in> set (freeWorkersPool c)"
      "allocate_worker_to_island e ch i d c = (Inr (), assigned e (ch_now ch) v i d c)"
    using allocate_worker_eq [OF assms(1) _ assms(2)] by blast
  then show ?thesis using False assigned_kept [OF assms(3)] by (simp add: allocate_island_work_def)
qed

lemma add_free_kept:
  assumes "ctl_ok e c" and "no_idle c" and "v \<in> known c" and "v \<notin> fst ` set (workAllocationMap c)" and "P c" and "v \<in> who"
  shows "P (snd (add_free_worker e ch v c))"
proof (cases "islandsWaitingForAlloc c = []")
  case True
  then show ?thesis using frame [OF assms(5)] assms(6) by (simp add: add_free_worker_def)
next
  case False
  obtain i d c2 where c2: "c2 = c\<lparr>freeWorkersPool := [v], islandsWaitingForAlloc := map_erase i (islandsWaitingForAlloc c)\<rparr>"
      "add_free_worker e ch v c = (Inr (), assigned e (ch_now ch) v i d c2)"
    using add_free_waiting [OF assms(1-4) False] by blast
  have "P c2" by (rule frame [OF assms(5)]) (simp_all add: c2(1) assms(6))
  then show ?thesis using assigned_kept [of c2 v] c2 by simp
qed

lemma join_kept:
  assumes "ctl_inv e c" and "v \<notin> fst ` set (workAllocationMap c)" and "P c" and "v \<in> who"
  shows "P (snd (handle_join e ch v c))"
proof (cases "v \<in> set (freeWorkersPool c)")
  case True
  then show ?thesis using assms(3) by (simp add: handle_join_def)
next
  case False
  let ?c = "set_repo e (worker_joined v worker_info_new (repo c)) c"
  have ok: "ctl_ok e ?c" using assms(1) by (intro ctl_ok_set_repo) (auto simp: ctl_inv_def joined_dom)
  have "P ?c" by (rule frame [OF assms(3)]) auto
  then have "P (snd (add_free_worker e ch v ?c))"
    by (intro add_free_kept [OF ok]) (use assms in \<open>simp_all add: ctl_inv_def joined_dom\<close>)
  then show ?thesis using False assms(1) by (simp add: handle_join_def with_repo_eq ctl_inv_def ctl_ok_def)
qed

lemma leave_kept:
  assumes "ctl_inv e c" and "P c"
  shows "P (snd (handle_leave e ch v c))"
proof (cases "map_of (workAllocationMap c) v")
  case None
  let ?c = "set_repo e (worker_left v (repo c)) (c\<lparr>freeWorkersPool := set_erase v (freeWorkersPool c)\<rparr>)"
  have "P ?c" by (rule frame [OF assms(2)]) (auto simp: set_erase_def)
  then show ?thesis using None assms(1) by (simp add: handle_leave_def with_repo_eq ctl_inv_def ctl_ok_def)
next
  case (Some r)
  note l = leave_busy [OF assms(1) Some]
  have "P (departed e v c)" by (rule erase [OF assms(2), of _ v]) (auto simp: set_erase_def)
  then show ?thesis using allocate_kept [OF l(2,3)] unfolding l(1) by blast
qed

lemma results_kept:
  assumes "ctl_inv e c" and "map_of (workAllocationMap c) v = Some r" and "readable_work e b" and "P c" and "v \<in> who"
  shows "P (snd (handle_results e ch v b c))"
proof -
  obtain c2 where c2: "handle_results e ch v b c = add_free_worker e ch v c2" "ctl_ok e c2" "no_idle c2" "v \<in> known c2"
      "workAllocationMap c2 = map_erase v (workAllocationMap c)" "toWorkers c2 = toWorkers c"
      "freeWorkersPool c2 = freeWorkersPool c"
    using results_run [OF assms(1-3), of ch] by blast
  have "P c2" by (rule erase [OF assms(4) _ c2(5,6)]) (simp add: c2(7))
  then show ?thesis
    unfolding c2(1) by (intro add_free_kept [OF c2(2-4)]) (simp_all add: c2(5) assms(5))
qed

lemma event_kept:
  assumes inv: "ctl_inv e c" and ex: "expected e ev c" and P: "P c" and who: "\<And>v. sender_worker ev = Some v \<Longrightarrow> v \<in> who"
  shows "P (snd (handle_event e ev c))"
proof (cases ev)
  case (Worker_msg ch v t b)
  then have v: "v \<in> who" using who by simp
  show ?thesis
  proof (cases t)
    case WORKER_JOIN
    then show ?thesis using join_kept [OF inv _ P v] ex Worker_msg by (simp add: handle_workers_msg_def)
  next
    case WORKER_LEAVE
    then show ?thesis using leave_kept [OF inv P] Worker_msg by (simp add: handle_workers_msg_def)
  next
    case WORK_RESULTS
    then obtain r where "map_of (workAllocationMap c) v = Some r" "readable_work e b"
      using ex Worker_msg by (auto simp: map_contains_def [symmetric] map_contains_iff)
    then show ?thesis using results_kept [OF inv _ _ P v] WORK_RESULTS Worker_msg by (simp add: handle_workers_msg_def)
  next
    case GET_DLL
    have "P (snd (handle_get_dll e v b c))"
      using frame [OF P] lend [OF P v] P by (auto simp: handle_get_dll_def split: sum.split prod.split)
    then show ?thesis using GET_DLL Worker_msg by (simp add: handle_workers_msg_def)
  qed (use P Worker_msg in \<open>simp_all add: handle_workers_msg_def\<close>)
next
  case (Island_msg ch i t b)
  show ?thesis
  proof (cases "t = ALLOCATE_WORK")
    case True
    then show ?thesis using allocate_kept [of e c b ch i] inv ex P Island_msg
      by (simp add: handle_islands_msg_def ctl_inv_def)
  next
    case False
    then show ?thesis using P Island_msg by (cases t) (simp_all add: handle_islands_msg_def)
  qed
qed

lemma poll_kept:
  assumes "ctl_inv e (ctrl sv)" and "expected e ev (ctrl sv)" and "P (ctrl sv)"
    and "\<And>v. sender_worker ev = Some v \<Longrightarrow> v \<in> who"
  shows "P (ctrl (poll e ev sv))"
  using event_kept [OF assms] assms(3) by (simp add: poll_def case_prod_beta)

end

text \<open>The last piece of work a worker was sent is the one recorded for it.\<close>

definition ledger :: "string \<Rightarrow> controller \<Rightarrow> bool" where
  "ledger w c \<longleftrightarrow> (\<forall>r. map_of (workAllocationMap c) w = Some r \<longrightarrow>
     (\<exists>ds. of_type ALLOCATE_WORK (mail w c) = ds @ [workData r]))"

interpretation ledger: handler_law "ledger w" UNIV for w
proof unfold_locales
  fix c c' :: controller and v r
  assume "ledger w c" "workAllocationMap c' = (v, r) # workAllocationMap c"
    "toWorkers c' = toWorkers c @ [(v, ALLOCATE_WORK, workData r)]"
  then show "ledger w c'" by (auto simp: ledger_def mail_def)
qed (auto simp: ledger_def mail_def map_of_erase split: if_splits)

text \<open>Only workers of the set \<open>ws\<close> are free or busy or sent to, if only they speak.\<close>

definition confined :: "string set \<Rightarrow> controller \<Rightarrow> bool" where
  "confined ws c \<longleftrightarrow> set (freeWorkersPool c) \<union> fst ` set (workAllocationMap c) \<union> fst ` set (toWorkers c) \<subseteq> ws"

interpretation confined: handler_law "confined ws" ws for ws
  by unfold_locales (auto simp: confined_def)

section \<open>The pair\<close>

definition data_inv :: "('a, 'p, 'q, 'u) env \<Rightarrow> (string \<Rightarrow> bytes option) \<Rightarrow> ('a, 'prob, 'p, 'd::linorder) wenv \<Rightarrow> string \<Rightarrow> ('a, 'p) worker
    \<Rightarrow> ('a, 'p) system \<Rightarrow> bool" where
  "data_inv e prov env w wk0 s \<longleftrightarrow> sys_inv e prov env w wk0 s \<and> ledger w (ctrl (sy_server s))
     \<and> worker_answers prov env wk0 (of_type ALLOCATE_WORK (take (sy_down s) (mail w (ctrl (sy_server s)))))
         (p_worker (sy_process s))"

lemma heard_data:
  assumes inv: "data_inv e prov env w wk0 s" and ex: "expected e ev (ctrl (sy_server s))"
    and stay: "\<And>ch b. ev \<noteq> Worker_msg ch w WORKER_LEAVE b"
    and "sys_inv e prov env w wk0 (s\<lparr>sy_server := poll e ev (sy_server s), sy_up := up\<rparr>)"
  shows "data_inv e prov env w wk0 (s\<lparr>sy_server := poll e ev (sy_server s), sy_up := up\<rparr>)"
proof -
  note i = inv [unfolded data_inv_def sys_inv_def Let_def]
  obtain c' where c': "poll e ev (sy_server s) = \<lparr>serving = True, ctrl = c'\<rparr>"
      "tracked e w (if \<exists>ch b. ev = Worker_msg ch w WORK_RESULTS b then 1 else 0)
        (if \<exists>ch b. ev = Worker_msg ch w GET_DLL b then 1 else 0) (ctrl (sy_server s)) c'"
    using poll_tracked [OF _ _ _ ex stay] i by blast
  obtain new where "mail w c' = mail w (ctrl (sy_server s)) @ new" using tracked_mail(1) [OF c'(2)] by blast
  moreover have "ledger w (ctrl (poll e ev (sy_server s)))"
    by (rule ledger.poll_kept [OF _ ex]) (use i in simp_all)
  ultimately show ?thesis using assms(4) i c'(1) by (simp add: data_inv_def)
qed

lemma worked_data:
  assumes inv: "data_inv e prov env w wk0 s"
    and may: "may_send prov env (given (take (sy_down s) (mail w (ctrl (sy_server s))))) (p_worker (sy_process s)) ev"
    and down: "of_type ALLOCATE_WORK (take down (mail w (ctrl (sy_server s))))
      = of_type ALLOCATE_WORK (take (sy_down s) (mail w (ctrl (sy_server s)))) @ work_in ev"
    and "sys_inv e prov env w wk0 (s\<lparr>sy_process := process_step env ev (sy_process s), sy_down := down\<rparr>)"
  shows "data_inv e prov env w wk0 (s\<lparr>sy_process := process_step env ev (sy_process s), sy_down := down\<rparr>)"
proof -
  note i = inv [unfolded data_inv_def sys_inv_def Let_def]
  let ?ds = "of_type ALLOCATE_WORK (take (sy_down s) (mail w (ctrl (sy_server s))))"
  have "worker_answers prov env wk0 (?ds @ work_in ev) (snd (worker_step env ev (p_worker (sy_process s))))"
    by (rule worker_step_answers) (use i may in \<open>simp_all add: of_type_length\<close>)
  moreover have "p_worker (process_step env ev (sy_process s)) = snd (worker_step env ev (p_worker (sy_process s)))"
    using i by (simp add: process_step_def case_prod_beta)
  ultimately show ?thesis using assms(4) i down by (simp add: data_inv_def)
qed

lemma data_step:
  assumes inv: "data_inv e prov env w wk0 s" and lang: "same_language e env" and can: "can_do e prov env wk0"
    and ok: "others_behave e w ev s"
  shows "data_inv e prov env w wk0 (sys_step e env w ev s)"
proof -
  have sys: "sys_inv e prov env w wk0 s" using inv by (simp add: data_inv_def)
  note next_inv = sys_step_inv [OF sys lang can ok]
  show ?thesis
  proof (cases e env w ev s rule: sys_step_cases)
    case idle
    then show ?thesis using inv by simp
  next
    case (others x)
    show ?thesis unfolding others(2) by (rule heard_data [OF inv]) (use ok next_inv others in auto)
  next
    case (closed v)
    then show ?thesis using inv next_inv ok by (simp add: data_inv_def close_connection_def ledger_def)
  next
    case (hears ch t b)
    note said = controller_hears(1) [OF sys lang hears(1,2), of ch]
    show ?thesis unfolding hears(3) by (rule heard_data [OF inv]) (use said next_inv hears(3) in auto)
  next
    case (told t b)
    show ?thesis unfolding told(3)
      by (rule worked_data [OF inv worker_hears [OF sys lang can told(1,2)]])
        (use told next_inv in \<open>simp_all add: take_Suc_conv_app_nth\<close>)
  next
    case (works x)
    show ?thesis unfolding works(2) by (rule worked_data [OF inv]) (use works next_inv in auto)
  qed
qed

text \<open>What holds of a pair at every moment, with what it needs from its surroundings.\<close>

definition pair_ok :: "('a, 'p, 'q, 'u) env \<Rightarrow> (string \<Rightarrow> bytes option) \<Rightarrow> ('a, 'prob, 'p, 'd::linorder) wenv \<Rightarrow> string \<Rightarrow> ('a, 'p) worker
    \<Rightarrow> ('a, 'p) system \<Rightarrow> bool" where
  "pair_ok e prov env w wk0 s \<longleftrightarrow> same_language e env \<and> can_do e prov env wk0 \<and> data_inv e prov env w wk0 s"

interpretation pair: machine "sys_step e env w" "others_behave e w" "pair_ok e prov env w wk0" for e prov env w wk0
  by unfold_locales (simp add: pair_ok_def data_step)

text \<open>The answer that is heard next answers the work that is recorded for the worker.\<close>

lemma of_type_nth:
  assumes "i < length ms" and "ms ! i = (t, b)"
  shows "length (of_type t (take i ms)) < length (of_type t ms)"
    and "of_type t ms ! length (of_type t (take i ms)) = b"
proof -
  have "ms = take i ms @ (t, b) # drop (Suc i) ms" using assms by (metis id_take_nth_drop)
  then have "of_type t ms = of_type t (take i ms) @ b # of_type t (drop (Suc i) ms)"
    by (metis fst_conv of_type_simps(2,3) snd_conv)
  then show "length (of_type t (take i ms)) < length (of_type t ms)"
      "of_type t ms ! length (of_type t (take i ms)) = b"
    by (simp_all add: nth_append)
qed

lemma next_answer:
  assumes ok: "pair_ok e prov env w wk0 s" and up: "sy_up s < length (wk_to_controller (p_worker (sy_process s)))"
    and m: "wk_to_controller (p_worker (sy_process s)) ! sy_up s = (WORK_RESULTS, b)"
  shows "\<exists>r. map_of (workAllocationMap (ctrl (sy_server s))) w = Some r \<and> answer_to prov env wk0 (workData r) b"
proof -
  let ?c = "ctrl (sy_server s)" and ?wk = "p_worker (sy_process s)"
  let ?all = "of_type ALLOCATE_WORK (mail w ?c)" and ?ds = "of_type ALLOCATE_WORK (take (sy_down s) (mail w ?c))"
  have inv: "data_inv e prov env w wk0 s" and lang: "same_language e env" using ok by (simp_all add: pair_ok_def)
  then have sys: "sys_inv e prov env w wk0 s" by (simp add: data_inv_def)
  note i = inv [unfolded data_inv_def sys_inv_def Let_def]
  have busy: "w \<in> fst ` set (workAllocationMap ?c)" using controller_hears(1) [OF sys lang up m, of undefined] by simp
  then obtain r where r: "map_of (workAllocationMap ?c) w = Some r"
    by (auto simp: map_contains_def [symmetric] map_contains_iff)
  obtain ds where all: "?all = ds @ [workData r]" using i r by (auto simp: ledger_def)
  let ?n = "length (of_type WORK_RESULTS (take (sy_up s) (wk_to_controller ?wk)))"
  have n: "?n < length (of_type WORK_RESULTS (wk_to_controller ?wk))" "of_type WORK_RESULTS (wk_to_controller ?wk) ! ?n = b"
    using of_type_nth [OF up m] by blast+
  have "length ?all = Suc ?n" using i busy by (simp add: of_type_length busy_def)
  moreover have "Suc ?n \<le> length ?ds" using i n(1) by (auto dest: worker_inv_count simp: of_type_length sent_answered)
  moreover have split: "?all = ?ds @ of_type ALLOCATE_WORK (drop (sy_down s) (mail w ?c))"
    by (metis append_take_drop_id of_type_simps(3))
  ultimately have "?ds = ?all" by (metis append_Nil2 le_antisym length_append le_add1 length_0_conv add_cancel_left_right)
  then have "list_all2 (answer_to prov env wk0) (take (results_sent ?wk) ?all) (of_type WORK_RESULTS (wk_to_controller ?wk))"
    using i by (simp add: worker_answers_def)
  then have "answer_to prov env wk0 (take (results_sent ?wk) ?all ! ?n) b"
    using n list_all2_nthD2 by metis
  moreover have "take (results_sent ?wk) ?all ! ?n = workData r"
    using n(1) \<open>length ?all = Suc ?n\<close> all by (simp add: sent_answered nth_append)
  ultimately show ?thesis using r by auto
qed


end
