(* ===== verification/Cluster.thy ===== *)
theory Cluster
  imports Results
begin

text \<open>
  A controller with all its workers. Worker processes, each with both its threads, join and are lost at
  any time, islands ask at any time; messages between the controller and each worker travel in order as
  long as they are connected, everything else interleaves freely. Each pair of the controller and one
  worker is a \<open>system\<close> of theory \<open>System\<close>, for which the other workers are the environment: what the
  environment is assumed to do there is proved here, by the interpretation \<open>cluster\<close> of \<open>composed\<close>.
\<close>

section \<open>A worker that has joined is free or busy\<close>

definition present :: "string \<Rightarrow> controller \<Rightarrow> bool" where
  "present w c \<longleftrightarrow> w \<in> set (freeWorkersPool c) \<or> w \<in> fst ` set (workAllocationMap c)"

lemma assigned_present: "present w c \<Longrightarrow> present w (assigned e t v i d c)"
  by (auto simp: present_def set_erase_def)

lemma allocate_present:
  assumes "ctl_ok e c" and "readable_work e d" and "present w c"
  shows "present w (snd (allocate_island_work e ch i d c))"
proof (cases "freeWorkersPool c = []")
  case True
  then show ?thesis using assms(3) by (simp add: allocate_island_work_def present_def)
next
  case False
  then obtain v where "allocate_worker_to_island e ch i d c = (Inr (), assigned e (ch_now ch) v i d c)"
    using allocate_worker_eq [OF assms(1) False assms(2)] by blast
  then show ?thesis using False assigned_present [OF assms(3)] by (simp add: allocate_island_work_def)
qed

lemma add_free_present:
  assumes "ctl_ok e c" and "no_idle c" and "v \<in> known c" and "v \<notin> fst ` set (workAllocationMap c)"
    and "present w c \<or> w = v"
  shows "present w (snd (add_free_worker e ch v c))"
proof (cases "islandsWaitingForAlloc c = []")
  case True
  then show ?thesis using assms(5) by (auto simp: add_free_worker_def present_def set_emplace_def)
next
  case False
  obtain i d c2 where c2: "c2 = c\<lparr>freeWorkersPool := [v], islandsWaitingForAlloc := map_erase i (islandsWaitingForAlloc c)\<rparr>"
      "add_free_worker e ch v c = (Inr (), assigned e (ch_now ch) v i d c2)"
    using add_free_waiting [OF assms(1-4) False] by blast
  have "present w c2" using assms(2,5) False by (auto simp: c2(1) present_def)
  then show ?thesis using c2(2) by (simp add: assigned_present)
qed

lemma join_present:
  assumes "ctl_inv e c" and "v \<notin> fst ` set (workAllocationMap c)" and "present w c \<or> w = v"
  shows "present w (snd (handle_join e ch v c))"
proof (cases "v \<in> set (freeWorkersPool c)")
  case True
  then show ?thesis using assms(3) by (auto simp: handle_join_def present_def)
next
  case False
  let ?c = "set_repo e (worker_joined v worker_info_new (repo c)) c"
  have ok: "ctl_ok e ?c" using assms(1) by (intro ctl_ok_set_repo) (auto simp: ctl_inv_def joined_dom)
  have "present w (snd (add_free_worker e ch v ?c))"
    by (rule add_free_present [OF ok]) (use assms in \<open>simp_all add: ctl_inv_def joined_dom present_def\<close>)
  then show ?thesis using False assms(1) by (simp add: handle_join_def with_repo_eq ctl_inv_def ctl_ok_def)
qed

lemma leave_present:
  assumes "ctl_inv e c"
  shows "present w c \<Longrightarrow> w \<noteq> v \<Longrightarrow> present w (snd (handle_leave e ch v c))" and "\<not> present v (snd (handle_leave e ch v c))"
proof -
  have "(present w c \<and> w \<noteq> v \<longrightarrow> present w (snd (handle_leave e ch v c))) \<and> \<not> present v (snd (handle_leave e ch v c))"
  proof (cases "map_of (workAllocationMap c) v")
    case None
    then have "v \<notin> fst ` set (workAllocationMap c)" by (simp add: map_of_eq_None_iff)
    then show ?thesis using None assms
      by (auto simp: handle_leave_def with_repo_eq ctl_inv_def ctl_ok_def present_def set_erase_def)
  next
    case (Some r)
    note l = leave_busy [OF assms Some]
    have gone: "\<not> present v (departed e v c)" by (auto simp: present_def set_erase_def)
    have "\<not> present v (snd (allocate_island_work e ch (islandId r) (workData r) (departed e v c)))"
    proof (cases "freeWorkersPool (departed e v c) = []")
      case True
      then show ?thesis using gone by (simp add: allocate_island_work_def present_def)
    next
      case False
      then obtain u where "u \<in> set (freeWorkersPool (departed e v c))" "allocate_worker_to_island e ch (islandId r) (workData r)
          (departed e v c) = (Inr (), assigned e (ch_now ch) u (islandId r) (workData r) (departed e v c))"
        using allocate_worker_eq [OF l(2) False l(3)] by blast
      then show ?thesis using False gone by (auto simp: allocate_island_work_def present_def set_erase_def)
    qed
    moreover have "present w c \<Longrightarrow> w \<noteq> v \<Longrightarrow> present w (departed e v c)" by (auto simp: present_def set_erase_def)
    ultimately show ?thesis using allocate_present [OF l(2,3)] unfolding l(1) by blast
  qed
  then show "present w c \<Longrightarrow> w \<noteq> v \<Longrightarrow> present w (snd (handle_leave e ch v c))" "\<not> present v (snd (handle_leave e ch v c))"
    by blast+
qed

lemma results_present:
  assumes "ctl_inv e c" and "map_of (workAllocationMap c) v = Some r" and "readable_work e b" and "present w c"
  shows "present w (snd (handle_results e ch v b c))"
proof -
  obtain c2 where c2: "handle_results e ch v b c = add_free_worker e ch v c2" "ctl_ok e c2" "no_idle c2" "v \<in> known c2"
      "workAllocationMap c2 = map_erase v (workAllocationMap c)" "freeWorkersPool c2 = freeWorkersPool c"
    using results_run [OF assms(1-3), of ch] by blast
  show ?thesis unfolding c2(1)
    by (rule add_free_present [OF c2(2-4)]) (use assms(4) c2(5,6) in \<open>auto simp: present_def\<close>)
qed

lemma event_present:
  assumes inv: "ctl_inv e c" and ex: "expected e ev c"
    and here: "present w c \<or> (\<exists>ch b. ev = Worker_msg ch w WORKER_JOIN b)" and stay: "\<And>ch b. ev \<noteq> Worker_msg ch w WORKER_LEAVE b"
  shows "present w (snd (handle_event e ev c))"
proof (cases ev)
  case (Worker_msg ch v t b)
  show ?thesis
  proof (cases t)
    case WORKER_JOIN
    then show ?thesis using join_present [OF inv, of v w ch] ex here Worker_msg by (auto simp: handle_workers_msg_def)
  next
    case WORKER_LEAVE
    then show ?thesis using leave_present(1) [OF inv, of w v ch] here stay [of ch b] Worker_msg by (auto simp: handle_workers_msg_def)
  next
    case WORK_RESULTS
    then obtain r where "map_of (workAllocationMap c) v = Some r" "readable_work e b"
      using ex Worker_msg by (auto simp: map_contains_def [symmetric] map_contains_iff)
    then show ?thesis using results_present [OF inv] here WORK_RESULTS Worker_msg by (simp add: handle_workers_msg_def)
  next
    case GET_DLL
    have "present w (snd (handle_get_dll e v b c))"
      using here GET_DLL Worker_msg by (auto simp: handle_get_dll_def present_def split: sum.split prod.split)
    then show ?thesis using GET_DLL Worker_msg by (simp add: handle_workers_msg_def)
  qed (use here Worker_msg in \<open>simp_all add: handle_workers_msg_def\<close>)
next
  case (Island_msg ch i t b)
  then show ?thesis using allocate_present [of e c b w ch i] inv ex here
    by (cases t) (simp_all add: handle_islands_msg_def ctl_inv_def)
qed

section \<open>The cluster\<close>

record ('a, 'pop) cluster =
  cl_server :: server
  cl_alive :: "string set"
  cl_process :: "string \<Rightarrow> ('a, 'pop) process"
  cl_down :: "string \<Rightarrow> nat"
  cl_up :: "string \<Rightarrow> nat"

text \<open>The controller and the worker \<open>w\<close>.\<close>

definition part :: "string \<Rightarrow> ('a, 'pop) cluster \<Rightarrow> ('a, 'pop) system" where
  "part w cl = \<lparr>sy_server = cl_server cl, sy_process = cl_process cl w, sy_down = cl_down cl w, sy_up = cl_up cl w\<rparr>"

definition put_part :: "string \<Rightarrow> ('a, 'pop) system \<Rightarrow> ('a, 'pop) cluster \<Rightarrow> ('a, 'pop) cluster" where
  "put_part w s cl = cl\<lparr>cl_server := sy_server s, cl_process := (cl_process cl)(w := sy_process s),
     cl_down := (cl_down cl)(w := sy_down s), cl_up := (cl_up cl)(w := sy_up s)\<rparr>"

text \<open>
  An island asks for work to be done; the process of a worker starts and connects (the greeting of its
  socket is \<open>WORKER_JOIN\<close>); a worker is lost, with what it was sent (the socket of the controller then
  reports \<open>WORKER_LEAVE\<close>); or a step of the pair of the controller and a worker.
\<close>

datatype cl_event =
    Island_asks choice string bytes
  | Joins choice string
  | Is_lost choice string
  | Part string sys_event

fun cl_step :: "('a, 'p, 'q, 'u) env \<Rightarrow> (string \<Rightarrow> ('a, 'prob, 'p, 'd::linorder) wenv) \<Rightarrow> (string \<Rightarrow> ('a, 'p) worker)
    \<Rightarrow> cl_event \<Rightarrow> ('a, 'p) cluster \<Rightarrow> ('a, 'p) cluster" where
  "cl_step e envs wks (Island_asks ch i d) cl = cl\<lparr>cl_server := poll e (Island_msg ch i ALLOCATE_WORK d) (cl_server cl)\<rparr>"
| "cl_step e envs wks (Joins ch v) cl =
    put_part v (sys_step e (envs v) v (Others (Worker_msg ch v WORKER_JOIN []))
       \<lparr>sy_server = cl_server cl, sy_process = \<lparr>p_state = Client_running, p_worker = wks v\<rparr>, sy_down = 0, sy_up = 0\<rparr>)
      (cl\<lparr>cl_alive := insert v (cl_alive cl)\<rparr>)"
| "cl_step e envs wks (Is_lost ch v) cl =
    cl\<lparr>cl_server := close_connection v (poll e (Worker_msg ch v WORKER_LEAVE []) (cl_server cl)), cl_alive := cl_alive cl - {v}\<rparr>"
| "cl_step e envs wks (Part v ev) cl = put_part v (sys_step e (envs v) v ev (part v cl)) cl"

text \<open>
  An island asks only after it was answered, with work that can be read; a worker of the crew \<open>ws\<close> joins
  when it is not there; every other event is a step of a worker that is there or the arrival of one of
  its messages.
\<close>

fun cl_ok :: "('a, 'p, 'q, 'u) env \<Rightarrow> string set \<Rightarrow> cl_event \<Rightarrow> ('a, 'p) cluster \<Rightarrow> bool" where
  "cl_ok e ws (Island_asks ch i d) cl \<longleftrightarrow> expected e (Island_msg ch i ALLOCATE_WORK d) (ctrl (cl_server cl))"
| "cl_ok e ws (Joins ch v) cl \<longleftrightarrow> v \<in> ws - cl_alive cl"
| "cl_ok e ws (Is_lost ch v) cl \<longleftrightarrow> v \<in> cl_alive cl"
| "cl_ok e ws (Part v ev) cl \<longleftrightarrow> v \<in> cl_alive cl \<and> silent ev"

fun requests :: "cl_event \<Rightarrow> (string \<times> bytes) multiset" where
  "requests (Island_asks ch i d) = {#(i, d)#}"
| "requests ev = {#}"

section \<open>What one worker sees of the others\<close>

text \<open>The message that reaches the controller in an event, and the connection that is closed.\<close>

fun heard :: "cl_event \<Rightarrow> ('a, 'p) cluster \<Rightarrow> event list" where
  "heard (Island_asks ch i d) cl = [Island_msg ch i ALLOCATE_WORK d]"
| "heard (Joins ch v) cl = [Worker_msg ch v WORKER_JOIN []]"
| "heard (Is_lost ch v) cl = [Worker_msg ch v WORKER_LEAVE []]"
| "heard (Part v (To_controller ch)) cl =
     (if cl_up cl v < length (wk_to_controller (p_worker (cl_process cl v)))
      then (let (t, b) = wk_to_controller (p_worker (cl_process cl v)) ! cl_up cl v in [Worker_msg ch v t b])
      else [])"
| "heard (Part v ev) cl = []"

fun closed :: "cl_event \<Rightarrow> string list" where
  "closed (Is_lost ch v) = [v]"
| "closed ev = []"

definition seen :: "string \<Rightarrow> cl_event \<Rightarrow> ('a, 'p) cluster \<Rightarrow> sys_event list" where
  "seen w ev cl = (case ev of
      Part v x \<Rightarrow> if v = w then [x] else map Others (heard ev cl)
    | _ \<Rightarrow> map Others (heard ev cl) @ map Closed (closed ev))"

lemma part_put [simp]: "part w (put_part w s cl) = s"
  by (simp add: part_def put_part_def)

lemma part_simps [simp]:
  "sy_server (part w cl) = cl_server cl" "sy_process (part w cl) = cl_process cl w"
  "sy_down (part w cl) = cl_down cl w" "sy_up (part w cl) = cl_up cl w"
  by (simp_all add: part_def)

lemma put_simps [simp]:
  "cl_alive (put_part w s cl) = cl_alive cl" "cl_server (put_part w s cl) = sy_server s"
  "v \<noteq> w \<Longrightarrow> part v (put_part w s cl) = (part v cl)\<lparr>sy_server := sy_server s\<rparr>"
  by (simp_all add: part_def put_part_def)

lemma server_step:
  assumes "cl_ok e ws ev cl"
  shows "cl_server (cl_step e envs wks ev cl) = fold close_connection (closed ev) (run_server e (heard ev cl) (cl_server cl))"
proof (cases ev)
  case (Part v x)
  then show ?thesis using assms by (cases x) (auto simp: case_prod_beta split: prod.split)
qed simp_all

lemma part_step:
  assumes "cl_ok e ws ev cl" and "w \<in> cl_alive cl" and "w \<in> cl_alive (cl_step e envs wks ev cl)"
  shows "part w (cl_step e envs wks ev cl) = runs (sys_step e (envs w) w) (seen w ev cl) (part w cl)"
proof (cases ev)
  case (Part v x)
  then have x: "silent x" using assms(1) by simp
  show ?thesis
  proof (cases "v = w")
    case True
    then show ?thesis by (simp add: Part seen_def)
  next
    case False
    have same: "(part w cl)\<lparr>sy_server := cl_server cl\<rparr> = part w cl" by (simp add: part_def)
    show ?thesis using x False False [symmetric] same unfolding Part
      by (cases x) (simp_all add: seen_def case_prod_beta)
  qed
qed (use assms in \<open>auto simp: seen_def part_def put_part_def\<close>)

lemma heard_one: "heard ev cl = [] \<or> (\<exists>x. heard ev cl = [x])"
proof (cases ev)
  case (Part v y)
  then show ?thesis by (cases y) (auto split: prod.split)
qed simp_all

section \<open>What the controller and the crew have in common\<close>

text \<open>
  The workers of the crew start idle, speak the language of the controller and can do what it may be
  asked with the libraries that it has. The controller serves exactly the workers that are there.
\<close>

definition crew_ok :: "('a, 'p, 'q, 'u) env \<Rightarrow> (string \<Rightarrow> bytes option) \<Rightarrow> (string \<Rightarrow> ('a, 'prob, 'p, 'd::linorder) wenv)
    \<Rightarrow> (string \<Rightarrow> ('a, 'p) worker) \<Rightarrow> string set \<Rightarrow> bool" where
  "crew_ok e prov envs wks ws \<longleftrightarrow> (\<forall>w \<in> ws. idle (wks w) \<and> wk_to_controller (wks w) = [] \<and> honest prov (wk_received (wks w))
     \<and> same_language e (envs w) \<and> can_do e prov (envs w) (wks w))"

definition cl_common :: "('a, 'p, 'q, 'u) env \<Rightarrow> (string \<Rightarrow> bytes option) \<Rightarrow> (string \<Rightarrow> ('a, 'prob, 'p, 'd::linorder) wenv)
    \<Rightarrow> (string \<Rightarrow> ('a, 'p) worker) \<Rightarrow> string set \<Rightarrow> ('a, 'p) cluster \<Rightarrow> bool" where
  "cl_common e prov envs wks ws cl \<longleftrightarrow> crew_ok e prov envs wks ws \<and> cl_alive cl \<subseteq> ws
     \<and> serving (cl_server cl) \<and> ctl_inv e (ctrl (cl_server cl)) \<and> reg_ok e prov (ctrl (cl_server cl))
     \<and> confined (cl_alive cl) (ctrl (cl_server cl)) \<and> (\<forall>w \<in> cl_alive cl. present w (ctrl (cl_server cl)))"

lemma heard_expected:
  assumes ok: "cl_ok e ws ev cl" and com: "cl_common e prov envs wks ws cl"
    and parts: "\<forall>v \<in> cl_alive cl. pair_ok e prov (envs v) v (wks v) (part v cl)" and x: "x \<in> set (heard ev cl)"
  shows "expected e x (ctrl (cl_server cl))"
    and "sender_worker x = (case ev of Island_asks ch i d \<Rightarrow> None | Joins ch v \<Rightarrow> Some v | Is_lost ch v \<Rightarrow> Some v | Part v y \<Rightarrow> Some v)"
    and "(\<exists>ch v. ev = Is_lost ch v) \<or> (\<forall>ch v b. x \<noteq> Worker_msg ch v WORKER_LEAVE b)"
proof -
  have *: "expected e x (ctrl (cl_server cl))
      \<and> sender_worker x = (case ev of Island_asks ch i d \<Rightarrow> None | Joins ch v \<Rightarrow> Some v | Is_lost ch v \<Rightarrow> Some v | Part v y \<Rightarrow> Some v)
      \<and> ((\<exists>ch v. ev = Is_lost ch v) \<or> (\<forall>ch v b. x \<noteq> Worker_msg ch v WORKER_LEAVE b))"
  proof (cases ev)
    case (Joins ch v)
    then show ?thesis using x ok com by (auto simp: cl_common_def confined_def)
  next
    case (Part v y)
    then obtain ch where y: "y = To_controller ch" using x by (cases y) auto
    then have up: "cl_up cl v < length (wk_to_controller (p_worker (cl_process cl v)))"
      using x Part by (auto split: if_splits)
    obtain t b where m: "wk_to_controller (p_worker (cl_process cl v)) ! cl_up cl v = (t, b)" by fastforce
    have "pair_ok e prov (envs v) v (wks v) (part v cl)" using ok parts Part by simp
    then have "sys_inv e prov (envs v) v (wks v) (part v cl)" "same_language e (envs v)"
      by (simp_all add: pair_ok_def data_inv_def)
    from controller_hears(1) [OF this, of t b ch] show ?thesis
      using up m x Part y by auto
  qed (use x ok in auto)
  then show "expected e x (ctrl (cl_server cl))"
    "sender_worker x = (case ev of Island_asks ch i d \<Rightarrow> None | Joins ch v \<Rightarrow> Some v | Is_lost ch v \<Rightarrow> Some v | Part v y \<Rightarrow> Some v)"
    "(\<exists>ch v. ev = Is_lost ch v) \<or> (\<forall>ch v b. x \<noteq> Worker_msg ch v WORKER_LEAVE b)" by blast+
qed

lemma poll_common:
  assumes "serving sv" and "ctl_inv e (ctrl sv)" and "reg_ok e prov (ctrl sv)" and "expected e x (ctrl sv)"
  shows "ctrl (poll e x sv) = snd (handle_event e x (ctrl sv))" "serving (poll e x sv)" "ctl_inv e (ctrl (poll e x sv))"
    "reg_ok e prov (ctrl (poll e x sv))"
proof -
  note good = event_good [OF assms(2,4), unfolded runs_to_def good_step_def]
  show eq: "ctrl (poll e x sv) = snd (handle_event e x (ctrl sv))" and "serving (poll e x sv)"
    using assms(1) good by (simp_all add: poll_def case_prod_beta)
  show "ctl_inv e (ctrl (poll e x sv))" unfolding eq using good by blast
  obtain w :: string where "Some w \<noteq> sender_worker x"
    by (metis list.distinct(1) option.inject)
  then have "x \<noteq> Worker_msg ch w WORKER_LEAVE b" for ch b by auto
  from event_tracked [OF assms(2,3,4) this] show "reg_ok e prov (ctrl (poll e x sv))"
    unfolding eq using assms(3) by (auto simp: tracked_def)
qed

lemma closed_common:
  assumes "serving sv" and "ctl_inv e (ctrl sv)" and "reg_ok e prov (ctrl sv)" and "confined A (ctrl sv)" and "\<not> present v (ctrl sv)"
  shows "serving (close_connection v sv)" "ctl_inv e (ctrl (close_connection v sv))" "reg_ok e prov (ctrl (close_connection v sv))"
    "confined (A - {v}) (ctrl (close_connection v sv))"
    "present w (ctrl (close_connection v sv)) = present w (ctrl sv)"
  using assms forget_inv [of e "ctrl sv" v]
  by (auto simp: close_connection_def reg_ok_def confined_def present_def)

lemma lost_is_gone:
  assumes "ctl_inv e (ctrl sv)" and "serving sv"
  shows "\<not> present v (ctrl (poll e (Worker_msg ch v WORKER_LEAVE b) sv))"
  using leave_present(2) [OF assms(1), of v ch] assms(2) by (simp add: poll_def handle_workers_msg_def case_prod_beta)

lemma common_step:
  assumes ok: "cl_ok e ws ev cl" and com: "cl_common e prov envs wks ws cl"
    and parts: "\<forall>v \<in> cl_alive cl. pair_ok e prov (envs v) v (wks v) (part v cl)"
  shows "cl_common e prov envs wks ws (cl_step e envs wks ev cl)"
proof -
  let ?sv = "cl_server cl" and ?cl = "cl_step e envs wks ev cl"
  note c = com [unfolded cl_common_def]
  from heard_one [of ev cl] show ?thesis
  proof (elim disjE exE)
    assume "heard ev cl = []"
    then have "cl_server ?cl = ?sv" "cl_alive ?cl = cl_alive cl"
      using server_step [OF ok, of envs wks] by (cases ev; simp)+
    then show ?thesis using c by (simp add: cl_common_def)
  next
    fix x assume x: "heard ev cl = [x]"
    note ex = heard_expected [OF ok com parts, of x, unfolded x, simplified]
    have "serving ?sv" "ctl_inv e (ctrl ?sv)" "reg_ok e prov (ctrl ?sv)" using c by blast+
    note p = poll_common [OF this ex(1)]
    let ?A = "cl_alive cl \<union> set_option (sender_worker x)"
    have "?A \<subseteq> ws" using ok c ex(2) by (cases ev) auto
    have "confined ?A (ctrl (poll e x ?sv))"
      by (rule confined.poll_kept [OF _ ex(1)]) (use c in \<open>auto simp: confined_def\<close>)
    show ?thesis
    proof (cases "\<exists>ch v. ev = Is_lost ch v")
      case True
      then obtain ch v where ev: "ev = Is_lost ch v" by blast
      then have xv: "x = Worker_msg ch v WORKER_LEAVE []" and A: "?A = cl_alive cl" using x ok by auto
      have "\<not> present v (ctrl (poll e x ?sv))" unfolding xv by (rule lost_is_gone) (use c in blast)+
      note q = closed_common [OF p(2,3,4) \<open>confined ?A (ctrl (poll e x ?sv))\<close> this]
      have "present w (ctrl (poll e x ?sv))" if "w \<in> cl_alive cl" "w \<noteq> v" for w
        unfolding p(1) by (rule event_present [OF _ ex(1)]) (use c that xv in auto)
      then show ?thesis using c q xv A by (auto simp: cl_common_def ev)
    next
      case False
      then have "cl_server ?cl = poll e x ?sv" "cl_alive ?cl = ?A"
        using server_step [OF ok, of envs wks] x ex(2) ok by (cases ev; auto)+
      moreover have "present w (ctrl (poll e x ?sv))" if "w \<in> ?A" for w
        unfolding p(1)
      proof (rule event_present [OF _ ex(1)])
        show "ctl_inv e (ctrl ?sv)" using c by blast
        show "present w (ctrl ?sv) \<or> (\<exists>ch b. x = Worker_msg ch w WORKER_JOIN b)"
          using that c x ex(2) ok by (cases ev) auto
        show "x \<noteq> Worker_msg ch w WORKER_LEAVE b" for ch b using ex(3) False by blast
      qed
      ultimately show ?thesis using c p \<open>?A \<subseteq> ws\<close> \<open>confined ?A (ctrl (poll e x ?sv))\<close> by (auto simp: cl_common_def)
    qed
  qed
qed

text \<open>A worker that joins, with the controller, is a pair as in \<open>System\<close>.\<close>

lemma joining_pair:
  assumes com: "cl_common e prov envs wks ws cl" and v: "v \<in> ws - cl_alive cl"
  shows "pair_ok e prov (envs v) v (wks v) (part v (cl_step e envs wks (Joins ch v) cl))"
proof -
  note c = com [unfolded cl_common_def]
  let ?c = "ctrl (cl_server cl)"
  have none: "v \<notin> fst ` set (workAllocationMap ?c)" "mail v ?c = []" using c v by (auto simp: confined_def mail_def filter_empty_conv)
  have wk: "idle (wks v)" "wk_to_controller (wks v) = []" "honest prov (wk_received (wks v))"
    using c v by (auto simp: crew_ok_def)
  have start: "part v (cl_step e envs wks (Joins ch v) cl) = sys_start e ch v ?c (wks v)"
    using c by (cases "cl_server cl") (simp add: sys_start_def)
  have "sys_inv e prov (envs v) v (wks v) (sys_start e ch v ?c (wks v))"
    by (rule sys_start_inv [OF _ _ none wk]) (use c in blast)+
  moreover have "ledger v ?c" using none(1) by (auto simp: ledger_def map_of_eq_None_iff [symmetric])
  then have "ledger v (ctrl (poll e (Worker_msg ch v WORKER_JOIN []) \<lparr>serving = True, ctrl = ?c\<rparr>))"
    by (intro ledger.poll_kept) (use c none in simp_all)
  ultimately have "data_inv e prov (envs v) v (wks v) (sys_start e ch v ?c (wks v))"
    using wk by (simp add: data_inv_def sys_start_def worker_answers_def results_sent_def idle_def)
  then show ?thesis using c v unfolding start by (auto simp: pair_ok_def crew_ok_def)
qed

interpretation cluster: composed "\<lambda>w. sys_step e (envs w) w" "\<lambda>w. others_behave e w" "\<lambda>w. pair_ok e prov (envs w) w (wks w)"
    "cl_step e envs wks" "cl_ok e ws" cl_alive part seen "cl_common e prov envs wks ws" for e prov envs wks ws
proof unfold_locales
  fix w ev and cl :: "('a, 'b) cluster"
  assume ok: "cl_ok e ws ev cl" and com: "cl_common e prov envs wks ws cl"
  show "pair_ok e prov (envs w) w (wks w) (part w (cl_step e envs wks ev cl))"
    if "w \<notin> cl_alive cl" "w \<in> cl_alive (cl_step e envs wks ev cl)"
  proof (cases ev)
    case (Joins ch v)
    then have "v = w" using that by auto
    then show ?thesis using joining_pair [OF com] ok Joins by auto
  qed (use that in auto)
  assume parts: "\<forall>v \<in> cl_alive cl. pair_ok e prov (envs v) v (wks v) (part v cl)"
  note h = heard_expected(1,2) [OF ok com parts]
  show "orderly (sys_step e (envs w) w) (others_behave e w) (seen w ev cl) (part w cl)"
    if "w \<in> cl_alive cl" "w \<in> cl_alive (cl_step e envs wks ev cl)"
  proof (cases ev)
    case (Is_lost ch v)
    then have "v \<noteq> w" using that(2) by auto
    moreover have "v \<notin> fst ` set (workAllocationMap (ctrl (poll e (Worker_msg ch v WORKER_LEAVE []) (cl_server cl))))"
      using lost_is_gone [of e "cl_server cl" v ch "[]"] com by (auto simp: present_def cl_common_def)
    ultimately show ?thesis using Is_lost by (simp add: seen_def)
  next
    case (Part v y)
    show ?thesis
    proof (cases "v = w")
      case True
      then show ?thesis using ok Part by (cases y) (simp_all add: seen_def)
    next
      case False
      from heard_one [of ev cl] show ?thesis using h False Part by (auto simp: seen_def)
    qed
  next
    case (Joins ch v)
    then show ?thesis using h ok that(1) by (auto simp: seen_def)
  qed (use ok in \<open>simp add: seen_def\<close>)
qed (simp_all add: part_step common_step pair.step_inv)

section \<open>Requests and answers\<close>

text \<open>
  The requests \<open>D\<close> were answered, in this order: each to the island that made it, with the result
  that one of the workers computed for it.
\<close>

definition served :: "(string \<Rightarrow> bytes option) \<Rightarrow> (string \<Rightarrow> ('a, 'prob, 'p, 'd::linorder) wenv) \<Rightarrow> (string \<Rightarrow> ('a, 'p) worker) \<Rightarrow> string set
    \<Rightarrow> (string \<times> bytes) list \<Rightarrow> controller \<Rightarrow> bool" where
  "served prov envs wks ws D c \<longleftrightarrow>
     list_all2 (\<lambda>(i, d) (j, t, b). j = i \<and> t = WORK_RESULTS \<and> (\<exists>w \<in> ws. answer_to prov (envs w) (wks w) d b)) D (toIslands c)"

definition cl_inv :: "('a, 'p, 'q, 'u) env \<Rightarrow> (string \<Rightarrow> bytes option) \<Rightarrow> (string \<Rightarrow> ('a, 'prob, 'p, 'd::linorder) wenv) \<Rightarrow> (string \<Rightarrow> ('a, 'p) worker)
    \<Rightarrow> string set \<Rightarrow> (string \<times> bytes) multiset \<Rightarrow> ('a, 'p) cluster \<Rightarrow> bool" where
  "cl_inv e prov envs wks ws A cl \<longleftrightarrow> cl_common e prov envs wks ws cl
     \<and> (\<forall>w \<in> cl_alive cl. pair_ok e prov (envs w) w (wks w) (part w cl))
     \<and> (\<exists>D. A = mset D + outstanding (ctrl (cl_server cl)) \<and> served prov envs wks ws D (ctrl (cl_server cl)))"

lemma closed_same [simp]:
  "outstanding (ctrl (fold close_connection vs sv)) = outstanding (ctrl sv)"
  "toIslands (ctrl (fold close_connection vs sv)) = toIslands (ctrl sv)"
  by (induction vs arbitrary: sv) (simp_all add: close_connection_def outstanding_def)

lemma heard_answer:
  assumes ok: "cl_ok e ws ev cl" and "cl_alive cl \<subseteq> ws"
    and parts: "\<forall>w \<in> cl_alive cl. pair_ok e prov (envs w) w (wks w) (part w cl)" and x: "heard ev cl = [x]"
  shows "\<exists>D'. asked x = requests ev \<and> completed x (ctrl (cl_server cl)) = mset D'
    \<and> list_all2 (\<lambda>(i, d) (j, t, b). j = i \<and> t = WORK_RESULTS \<and> (\<exists>w \<in> ws. answer_to prov (envs w) (wks w) d b))
        D' (answers x (ctrl (cl_server cl)))"
proof (cases ev)
  case (Part v y)
  then obtain ch where y: "y = To_controller ch" using x by (cases y) auto
  obtain t b where m: "wk_to_controller (p_worker (cl_process cl v)) ! cl_up cl v = (t, b)" by fastforce
  have up: "cl_up cl v < length (wk_to_controller (p_worker (cl_process cl v)))" and x': "x = Worker_msg ch v t b"
    using x m Part y by (auto split: if_splits)
  have v: "v \<in> cl_alive cl" using ok Part by simp
  show ?thesis
  proof (cases "t = WORK_RESULTS")
    case True
    then obtain r where "map_of (workAllocationMap (ctrl (cl_server cl))) v = Some r" "answer_to prov (envs v) (wks v) (workData r) b"
      using next_answer [of e prov "envs v" v "wks v" "part v cl" b] parts v up m by auto
    then show ?thesis using v assms(2) True Part unfolding x' by (intro exI [of _ "[(islandId r, workData r)]"]) auto
  next
    case False
    then show ?thesis using Part unfolding x' by (intro exI [of _ "[]"]) simp
  qed
qed (use x in \<open>auto intro: exI [of _ "[]"]\<close>)

lemma cl_step_inv:
  assumes inv: "cl_inv e prov envs wks ws A cl" and ok: "cl_ok e ws ev cl"
  shows "cl_inv e prov envs wks ws (A + requests ev) (cl_step e envs wks ev cl)"
proof -
  let ?c = "ctrl (cl_server cl)" and ?cl = "cl_step e envs wks ev cl"
  have com: "cl_common e prov envs wks ws cl" and parts: "\<forall>w \<in> cl_alive cl. pair_ok e prov (envs w) w (wks w) (part w cl)"
    using inv by (simp_all add: cl_inv_def)
  have next_ok: "cl_common e prov envs wks ws ?cl \<and> (\<forall>w \<in> cl_alive ?cl. pair_ok e prov (envs w) w (wks w) (part w ?cl))"
    using cluster.whole.step_inv [of e prov envs wks ws cl ev] com parts ok by blast
  obtain D where D: "A = mset D + outstanding ?c" "served prov envs wks ws D ?c" using inv by (auto simp: cl_inv_def)
  have "\<exists>D'. A + requests ev = mset D' + outstanding (ctrl (cl_server ?cl)) \<and> served prov envs wks ws D' (ctrl (cl_server ?cl))"
    using heard_one [of ev cl]
  proof (elim disjE exE)
    assume none: "heard ev cl = []"
    then have "requests ev = {#}" by (cases ev) simp_all
    then show ?thesis using D none server_step [OF ok, of envs wks] by (auto simp: served_def)
  next
    fix x assume x: "heard ev cl = [x]"
    note ex = heard_expected(1) [OF ok com parts, of x, unfolded x, simplified]
    have c: "serving (cl_server cl)" "ctl_inv e ?c" "reg_ok e prov ?c" "cl_alive cl \<subseteq> ws" using com by (simp_all add: cl_common_def)
    note good = event_good [OF c(2) ex, unfolded runs_to_def good_step_def]
    obtain D' where D': "asked x = requests ev" "completed x ?c = mset D'"
        "list_all2 (\<lambda>(i, d) (j, t, b). j = i \<and> t = WORK_RESULTS \<and> (\<exists>w \<in> ws. answer_to prov (envs w) (wks w) d b)) D' (answers x ?c)"
      using heard_answer [OF ok c(4) parts x] by blast
    have sv: "outstanding (ctrl (cl_server ?cl)) = outstanding (snd (handle_event e x ?c))"
        "toIslands (ctrl (cl_server ?cl)) = toIslands (snd (handle_event e x ?c))"
      using server_step [OF ok, of envs wks] x poll_common(1) [OF c(1-3) ex] by simp_all
    have "A + requests ev = mset (D @ D') + outstanding (ctrl (cl_server ?cl))"
      using good D(1) D'(1,2) sv(1) by (simp add: ac_simps)
    moreover have "served prov envs wks ws (D @ D') (ctrl (cl_server ?cl))"
      using D(2) D'(3) good sv(2) by (simp add: served_def list_all2_appendI)
    ultimately show ?thesis by blast
  qed
  with next_ok show ?thesis by (simp add: cl_inv_def)
qed

lemma cl_runs_inv:
  "cl_inv e prov envs wks ws A cl \<Longrightarrow> orderly (cl_step e envs wks) (cl_ok e ws) evs cl
   \<Longrightarrow> cl_inv e prov envs wks ws (A + sum_list (map requests evs)) (runs (cl_step e envs wks) evs cl)"
proof (induction evs arbitrary: A cl)
  case (Cons ev evs)
  have "cl_inv e prov envs wks ws (A + requests ev) (cl_step e envs wks ev cl)" by (rule cl_step_inv) (use Cons.prems in simp_all)
  then show ?case using Cons.IH [of "A + requests ev"] Cons.prems by (simp add: ac_simps)
qed simp

text \<open>At the beginning there is a controller that has not heard of anybody yet.\<close>

definition cl_start :: "controller \<Rightarrow> (string \<Rightarrow> ('a, 'p) worker) \<Rightarrow> ('a, 'p) cluster" where
  "cl_start c wks = \<lparr>cl_server = \<lparr>serving = True, ctrl = c\<rparr>, cl_alive = {},
     cl_process = (\<lambda>w. \<lparr>p_state = Client_running, p_worker = wks w\<rparr>), cl_down = (\<lambda>w. 0), cl_up = (\<lambda>w. 0)\<rparr>"

definition fresh_cluster :: "('a, 'p, 'q, 'u) env \<Rightarrow> (string \<Rightarrow> bytes option) \<Rightarrow> (string \<Rightarrow> ('a, 'prob, 'p, 'd::linorder) wenv)
    \<Rightarrow> (string \<Rightarrow> ('a, 'p) worker) \<Rightarrow> string set \<Rightarrow> controller \<Rightarrow> bool" where
  "fresh_cluster e prov envs wks ws c \<longleftrightarrow> ctl_inv e c \<and> reg_ok e prov c \<and> freeWorkersPool c = [] \<and> workAllocationMap c = []
     \<and> islandsWaitingForAlloc c = [] \<and> toWorkers c = [] \<and> toIslands c = [] \<and> crew_ok e prov envs wks ws"

lemma cl_start_inv:
  "fresh_cluster e prov envs wks ws c \<Longrightarrow> cl_inv e prov envs wks ws {#} (cl_start c wks)"
  by (simp add: fresh_cluster_def cl_inv_def cl_common_def cl_start_def confined_def outstanding_def jobs_def served_def)

section \<open>Everything is answered in the end\<close>

text \<open>Steps of one pair on its own are steps of the cluster.\<close>

lemma pair_alone:
  assumes "w \<in> cl_alive cl" and "list_all silent evs"
  shows "orderly (cl_step e envs wks) (cl_ok e ws) (map (Part w) evs) cl
    \<and> part w (runs (cl_step e envs wks) (map (Part w) evs) cl) = sys_run e (envs w) w evs (part w cl)
    \<and> sum_list (map requests (map (Part w) evs)) = {#}
    \<and> cl_alive (runs (cl_step e envs wks) (map (Part w) evs) cl) = cl_alive cl"
  using assms
proof (induction evs arbitrary: cl)
  case (Cons ev evs)
  then show ?case by simp
qed simp

lemma worker_step_grows: "\<exists>more. wk_to_controller (snd (worker_step env ev wk)) = wk_to_controller wk @ more"
  by (cases ev) (auto simp: handle_Worker_Socket_Msg_def start_worker_thread_def handle_Thread_Socket_Msg_def Let_def
      thread_step_def receive_dll_def request_dll_def
      split: MsgType.split progress.split list.split load.split sum.split)

text \<open>Each answer the controller takes from the worker is passed to an island.\<close>

lemma silent_step_answers:
  assumes inv: "pair_ok e prov env w wk0 s" and "silent ev"
  shows "length (toIslands (ctrl (sy_server (sys_step e env w ev s)))) + completed_work s
    = length (toIslands (ctrl (sy_server s))) + completed_work (sys_step e env w ev s)"
proof -
  have sys: "sys_inv e prov env w wk0 s" and lang: "same_language e env" using inv by (simp_all add: pair_ok_def data_inv_def)
  note i = sys [unfolded sys_inv_def Let_def]
  have keep: "completed_work (s\<lparr>sy_process := process_step env x (sy_process s), sy_down := n\<rparr>) = completed_work s" for x n
  proof -
    obtain more where "wk_to_controller (p_worker (process_step env x (sy_process s))) = wk_to_controller (p_worker (sy_process s)) @ more"
      using i worker_step_grows [of env x "p_worker (sy_process s)"] by (auto simp: process_step_def case_prod_beta)
    then show ?thesis using i by (simp add: completed_work_def)
  qed
  show ?thesis
  proof (cases ev)
    case (To_controller ch)
    show ?thesis
    proof (cases "sy_up s < length (wk_to_controller (p_worker (sy_process s)))")
      case True
      obtain t b where m: "wk_to_controller (p_worker (sy_process s)) ! sy_up s = (t, b)" by fastforce
      have ex: "expected e (Worker_msg ch w t b) (ctrl (sy_server s))" using controller_hears(1) [OF sys lang True m] by blast
      have "ctl_inv e (ctrl (sy_server s))" using i by blast
      note good = event_good [OF this ex, unfolded runs_to_def good_step_def]
      have "length (answers (Worker_msg ch w t b) (ctrl (sy_server s))) = (if t = WORK_RESULTS then 1 else 0)"
        using ex by (auto simp: map_contains_def [symmetric] map_contains_iff)
      then show ?thesis
        using True m good i count_Suc(2) [OF True]
        by (simp add: To_controller poll_def case_prod_beta completed_work_def)
    qed (simp add: To_controller)
  next
    case To_worker
    then show ?thesis using keep [where n = "Suc (sy_down s)"] by (simp add: case_prod_beta)
  next
    case Worker_main
    then show ?thesis using keep [where n = "sy_down s"] by simp
  next
    case Worker_thread
    then show ?thesis using keep [where n = "sy_down s"] by simp
  qed (use assms(2) in simp_all)
qed

lemma silent_run_answers:
  "pair_ok e prov env w wk0 s \<Longrightarrow> list_all silent evs \<Longrightarrow>
   length (toIslands (ctrl (sy_server (sys_run e env w evs s)))) + completed_work s
     = length (toIslands (ctrl (sy_server s))) + completed_work (sys_run e env w evs s)"
proof (induction evs arbitrary: s)
  case (Cons ev evs)
  have "others_behave e w ev s" using Cons.prems(2) by (cases ev) simp_all
  then have "pair_ok e prov env w wk0 (sys_step e env w ev s)" using pair.step_inv Cons.prems(1) by blast
  from Cons.IH [OF this] silent_step_answers [OF Cons.prems(1), of ev] show ?case using Cons.prems(2) by simp
qed simp

text \<open>Some worker can finish its work, and then one request less is open.\<close>

lemma somebody_busy:
  assumes "cl_inv e prov envs wks ws A cl" and "cl_alive cl \<noteq> {}" and "outstanding (ctrl (cl_server cl)) \<noteq> {#}"
  obtains w where "w \<in> cl_alive cl" and "busy w (ctrl (cl_server cl)) = 1"
proof -
  let ?c = "ctrl (cl_server cl)"
  have com: "cl_common e prov envs wks ws cl" using assms(1) by (simp add: cl_inv_def)
  have "workAllocationMap ?c \<noteq> []"
    using com assms(2,3) by (auto simp: cl_common_def ctl_inv_def present_def outstanding_def jobs_def)
  then obtain w r rest where "workAllocationMap ?c = (w, r) # rest" by (cases "workAllocationMap ?c") auto
  then have "busy w ?c = 1" "w \<in> cl_alive cl" using com by (auto simp: busy_def cl_common_def confined_def)
  then show thesis using that by blast
qed

lemma one_less:
  assumes inv: "cl_inv e prov envs wks ws A cl" and alive: "cl_alive cl \<noteq> {}"
    and some: "outstanding (ctrl (cl_server cl)) \<noteq> {#}"
  shows "\<exists>evs. orderly (cl_step e envs wks) (cl_ok e ws) evs cl \<and> sum_list (map requests evs) = {#}
    \<and> cl_alive (runs (cl_step e envs wks) evs cl) = cl_alive cl
    \<and> size (outstanding (ctrl (cl_server (runs (cl_step e envs wks) evs cl)))) < size (outstanding (ctrl (cl_server cl)))"
proof -
  let ?c = "ctrl (cl_server cl)"
  obtain w where w: "w \<in> cl_alive cl" and busy: "busy w ?c = 1" using somebody_busy [OF assms] .
  have pair: "pair_ok e prov (envs w) w (wks w) (part w cl)" using inv w by (simp add: cl_inv_def)
  then obtain evs where evs: "list_all silent evs"
      "completed_work (sys_run e (envs w) w evs (part w cl)) = Suc (completed_work (part w cl))"
    using busy_completes [of e "envs w" prov "wks w" w "part w cl"] busy
    by (auto simp: pair_ok_def data_inv_def completes_def)
  let ?cl = "runs (cl_step e envs wks) (map (Part w) evs) cl"
  note alone = pair_alone [OF w evs(1), of e envs wks ws]
  have "part w ?cl = sys_run e (envs w) w evs (part w cl)" using alone by blast
  then have more: "length (toIslands (ctrl (cl_server ?cl))) = Suc (length (toIslands ?c))"
    using silent_run_answers [OF pair evs(1)] evs(2) part_simps(1) [of w ?cl] by simp
  obtain D where D: "A = mset D + outstanding ?c" "served prov envs wks ws D ?c" using inv by (auto simp: cl_inv_def)
  have "cl_inv e prov envs wks ws A ?cl"
    using cl_runs_inv [OF inv, of "map (Part w) evs"] alone by simp
  then obtain D' where D': "A = mset D' + outstanding (ctrl (cl_server ?cl))" "served prov envs wks ws D' (ctrl (cl_server ?cl))"
    by (auto simp: cl_inv_def)
  have "length D = length (toIslands ?c)" "length D' = length (toIslands (ctrl (cl_server ?cl)))"
      "size (mset D + outstanding ?c) = size (mset D' + outstanding (ctrl (cl_server ?cl)))"
    using D D' by (auto simp: served_def dest: list_all2_lengthD)
  then have "size (outstanding (ctrl (cl_server ?cl))) < size (outstanding ?c)" using more by simp
  then show ?thesis using alone by blast
qed

lemma all_answered:
  assumes "cl_inv e prov envs wks ws A cl" and "cl_alive cl \<noteq> {}"
  shows "\<exists>evs. orderly (cl_step e envs wks) (cl_ok e ws) evs cl \<and> sum_list (map requests evs) = {#}
    \<and> outstanding (ctrl (cl_server (runs (cl_step e envs wks) evs cl))) = {#}"
  using assms
proof (induction "size (outstanding (ctrl (cl_server cl)))" arbitrary: cl rule: less_induct)
  case less
  show ?case
  proof (cases "outstanding (ctrl (cl_server cl)) = {#}")
    case True
    then show ?thesis by (intro exI [of _ "[]"]) simp
  next
    case False
    obtain xs where xs: "orderly (cl_step e envs wks) (cl_ok e ws) xs cl" "sum_list (map requests xs) = {#}"
        "cl_alive (runs (cl_step e envs wks) xs cl) = cl_alive cl"
        "size (outstanding (ctrl (cl_server (runs (cl_step e envs wks) xs cl)))) < size (outstanding (ctrl (cl_server cl)))"
      using one_less [OF less.prems False] by blast
    have "cl_inv e prov envs wks ws A (runs (cl_step e envs wks) xs cl)"
      using cl_runs_inv [OF less.prems(1) xs(1)] xs(2) by simp
    from less.hyps [OF xs(4) this] xs(3) less.prems(2)
    obtain ys where "orderly (cl_step e envs wks) (cl_ok e ws) ys (runs (cl_step e envs wks) xs cl)" "sum_list (map requests ys) = {#}"
        "outstanding (ctrl (cl_server (runs (cl_step e envs wks) ys (runs (cl_step e envs wks) xs cl)))) = {#}"
      by auto
    then show ?thesis using xs by (intro exI [of _ "xs @ ys"]) simp
  qed
qed

section \<open>Properties\<close>

text \<open>
  C1: islands get the results of their own work, whatever happens to the workers. Take a controller,
  workers that join it and are lost at any time and as often as they like, any islands, and any
  interleaving of their steps and of the delivery of their messages. Then the controller serves and
  every worker that is there runs, and the requests made so far are those that are still open and those
  that were answered; the latter were answered one by one, each to the island that made it, with the
  serialised result of running exactly the work it sent, read with the libraries \<open>prov\<close> that the
  controller has, however often and in whatever order they were asked for. What is assumed of the
  workers is that they start idle and can do every readable work with these libraries.
\<close>

theorem islands_get_their_results:
  assumes "fresh_cluster e prov envs wks ws c" and "orderly (cl_step e envs wks) (cl_ok e ws) evs (cl_start c wks)"
    and "runs (cl_step e envs wks) evs (cl_start c wks) = cl"
  shows "serving (cl_server cl) \<and> (\<forall>w \<in> cl_alive cl. p_state (cl_process cl w) = Client_running)
    \<and> (\<exists>D. sum_list (map requests evs) = mset D + outstanding (ctrl (cl_server cl))
        \<and> served prov envs wks ws D (ctrl (cl_server cl)))"
  using cl_runs_inv [OF cl_start_inv [OF assms(1)] assms(2)] unfolding assms(3)
  by (auto simp: cl_inv_def cl_common_def pair_ok_def data_inv_def sys_inv_def Let_def)

text \<open>
  C2: no request is forgotten, whoever is lost. From every state that the cluster can get into, with
  workers joining and being lost on the way, and in which at least one worker is left, it can go on,
  without any further request, to a state in which no request is open: each was answered exactly
  once, with its own result.
\<close>

theorem every_request_is_answered:
  assumes "fresh_cluster e prov envs wks ws c" and "orderly (cl_step e envs wks) (cl_ok e ws) evs (cl_start c wks)"
    and "cl_alive (runs (cl_step e envs wks) evs (cl_start c wks)) \<noteq> {}"
  shows "\<exists>more D. orderly (cl_step e envs wks) (cl_ok e ws) (evs @ more) (cl_start c wks) \<and> sum_list (map requests more) = {#}
    \<and> mset D = sum_list (map requests evs)
    \<and> served prov envs wks ws D (ctrl (cl_server (runs (cl_step e envs wks) (evs @ more) (cl_start c wks))))"
proof -
  let ?cl = "runs (cl_step e envs wks) evs (cl_start c wks)" and ?A = "sum_list (map requests evs)"
  have inv: "cl_inv e prov envs wks ws ?A ?cl" using cl_runs_inv [OF cl_start_inv [OF assms(1)] assms(2)] by simp
  obtain more where more: "orderly (cl_step e envs wks) (cl_ok e ws) more ?cl" "sum_list (map requests more) = {#}"
      "outstanding (ctrl (cl_server (runs (cl_step e envs wks) more ?cl))) = {#}"
    using all_answered [OF inv assms(3)] by blast
  have "cl_inv e prov envs wks ws ?A (runs (cl_step e envs wks) more ?cl)" using cl_runs_inv [OF inv more(1)] more(2) by simp
  then obtain D where "?A = mset D" "served prov envs wks ws D (ctrl (cl_server (runs (cl_step e envs wks) more ?cl)))"
    using more(3) by (auto simp: cl_inv_def)
  then show ?thesis using assms(2) more by (intro exI [of _ more] exI [of _ D]) simp
qed

section \<open>Applying the properties\<close>

text \<open>Two workers join, an island asks, and the worker that may be busy with its request is lost.\<close>

definition bit_request :: "string \<times> bytes" where
  "bit_request = (''isl'', vector_serialize bit_emit (work_container_new True False '''' 1))"

abbreviation bit_step :: "cl_event \<Rightarrow> (bool, bool) cluster \<Rightarrow> (bool, bool) cluster" where
  "bit_step \<equiv> cl_step bit_env (\<lambda>_. bit_wenv) (\<lambda>_. bit_worker)"

abbreviation bit_cluster :: "(bool, bool) cluster" where
  "bit_cluster \<equiv> cl_start demo_ctl (\<lambda>_. bit_worker)"

definition bit_events :: "cl_event list" where
  "bit_events = [Joins demo_choice ''v'', Joins demo_choice ''w'',
     Island_asks demo_choice (fst bit_request) (snd bit_request), Is_lost demo_choice ''v'']"

lemma bit_fresh: "fresh_cluster bit_env bit_libs (\<lambda>_. bit_wenv) (\<lambda>_. bit_worker) {''v'', ''w''} demo_ctl"
  using bit_ctl(1,2) bit_same_language bit_can_do
  by (simp add: fresh_cluster_def crew_ok_def) (simp add: demo_ctl_def idle_def bit_worker_def honest_def)

lemma bit_orderly: "orderly bit_step (cl_ok bit_env {''v'', ''w''}) bit_events bit_cluster"
proof -
  let ?joins = "[Joins demo_choice ''v'', Joins demo_choice ''w'']"
  have joins: "orderly bit_step (cl_ok bit_env {''v'', ''w''}) ?joins bit_cluster" by (simp add: cl_start_def)
  have "cl_inv bit_env bit_libs (\<lambda>_. bit_wenv) (\<lambda>_. bit_worker) {''v'', ''w''} {#} (runs bit_step ?joins bit_cluster)"
    using cl_runs_inv [OF cl_start_inv [OF bit_fresh] joins] by simp
  then have "outstanding (ctrl (cl_server (runs bit_step ?joins bit_cluster))) = {#}" by (auto simp: cl_inv_def)
  then have "islands_of (islandsWaitingForAlloc (ctrl (cl_server (runs bit_step ?joins bit_cluster))))
      (workAllocationMap (ctrl (cl_server (runs bit_step ?joins bit_cluster)))) = []"
    by (simp add: outstanding_def jobs_def islands_of_def)
  moreover have "readable_work bit_env (snd bit_request)"
    using bit_codec_ok by (simp add: readable_work_def bit_env_def bit_request_def serialize_roundtrip)
  moreover have "cl_alive (runs bit_step ?joins bit_cluster) = {''v'', ''w''}" by (auto simp: cl_start_def)
  ultimately have rest: "orderly bit_step (cl_ok bit_env {''v'', ''w''})
      [Island_asks demo_choice (fst bit_request) (snd bit_request), Is_lost demo_choice ''v''] (runs bit_step ?joins bit_cluster)"
    by (simp del: runs.simps)
  have split: "bit_events = ?joins @ [Island_asks demo_choice (fst bit_request) (snd bit_request), Is_lost demo_choice ''v'']"
    by (simp add: bit_events_def)
  show ?thesis unfolding split orderly_append by (rule conjI [OF joins rest])
qed

lemma bit_left: "cl_alive (runs bit_step bit_events bit_cluster) = {''w''}"
  by (auto simp: bit_events_def cl_start_def)

lemma bit_asked_once: "sum_list (map requests bit_events) = {#bit_request#}"
  by (simp add: bit_events_def)

theorem islands_get_their_results_witness:
  "serving (cl_server (runs bit_step bit_events bit_cluster))"
  using islands_get_their_results [OF bit_fresh bit_orderly refl] by blast

theorem every_request_is_answered_witness:
  "\<exists>more. served bit_libs (\<lambda>_. bit_wenv) (\<lambda>_. bit_worker) {''v'', ''w''} [bit_request]
     (ctrl (cl_server (runs bit_step (bit_events @ more) bit_cluster)))"
proof -
  have one: "D = [bit_request]" if "mset D = {#bit_request#}" for D using that by simp
  show ?thesis
    using every_request_is_answered [OF bit_fresh bit_orderly] bit_left bit_asked_once one by fastforce
qed

end
