(* ===== verification/Solver.thy ===== *)
theory Solver
  imports Population_Tools Island Controller
begin

text \<open>
  \<^verbatim>\<open>src/distributed/logic/include/distributed_solver.h\<close> and \<^verbatim>\<open>distributed_solver.cpp\<close>: the front end.
  It owns a controller, makes a plan of how much work each island gets and which worker it
  prefers, builds the archipelago and hands out the best individuals.

  Quotients of counters are rounded rationals (\<open>se_round\<close>), the order in which the hash set of
  connected workers is iterated is \<open>se_order\<close>. The archipelago is pagmo's and evolves in the
  background: \<open>sv_status\<close> is the status it has when a member function asks for it (an archipelago
  without islands is idle whatever is done with it), and its islands after the evolution are an
  argument of \<open>wait_until_completion\<close>. The controller's state is read as it is when a member
  function starts.
\<close>

section \<open>State\<close>

datatype load_balancing_strategy = ALL_ISLANDS_EQUAL | BY_PERFORMANCE

datatype evolve_status = Idle | Busy | Idle_error | Busy_error

record ('a, 'prob, 'pop, 'd) senv =
  se_pg :: "('prob, 'pop, 'd) pagmo"
  se_ties :: "nat list \<Rightarrow> nat list"
  se_round :: "rat \<Rightarrow> rat"
  se_order :: "string list \<Rightarrow> string list"
  se_algorithm_name :: "'a \<Rightarrow> string"

record ('a, 'pop) archi_island =
  ai_udi :: distributed_island
  ai_island :: "('a, 'pop) pagmo_island"

record ('a, 'pop, 'd) solver =
  sv_strategy :: load_balancing_strategy
  sv_controller :: controller
  sv_expectedWorkerCount :: nat
  sv_archipelago :: "('a, 'pop) archi_island list"
  sv_status :: evolve_status
  sv_cycles :: nat
  sv_initialHints :: "'d list list"

type_synonym 'a plan_entry = "u64 \<times> u64 \<times> string \<times> 'a"

section \<open>The work plan\<close>

text \<open>The round-robin chooser; \<open>p\<close> is the iterator.\<close>

definition get_algorithm :: "'a list \<Rightarrow> nat \<Rightarrow> ('a \<times> nat) result" where
  "get_algorithm algorithms p =
    (let p = (if p = length algorithms then 0 else p)
     in bind_result (vec_index algorithms p) (\<lambda>alg. Inr (alg, Suc p)))"

fun equal_plan :: "'a list \<Rightarrow> u64 \<Rightarrow> nat \<Rightarrow> nat \<Rightarrow> 'a plan_entry list \<Rightarrow> 'a plan_entry list result" where
  "equal_plan algorithms islandPop 0 p output = Inr output"
| "equal_plan algorithms islandPop (Suc i) p output =
     bind_result (get_algorithm algorithms p)
       (\<lambda>(alg, p). equal_plan algorithms islandPop i p (output @ [(islandPop, 1, '''', alg)]))"

definition total_avg :: "(rat \<Rightarrow> rat) \<Rightarrow> worker_info \<Rightarrow> rat" where
  "total_avg rnd i = safe_divide rnd (processedPopulation (totalStats i)) (workTime (totalStats i)) 0"

definition algo_avg :: "(rat \<Rightarrow> rat) \<Rightarrow> string \<Rightarrow> worker_info \<Rightarrow> rat" where
  "algo_avg rnd algoName i =
    (case map_of (statsByAlgorithm i) algoName of
       None \<Rightarrow> 0
     | Some s \<Rightarrow> safe_divide rnd (processedPopulation s) (workTime s) 0)"

text \<open>The loop that finds the best worker in total and the best for the algorithm.\<close>

fun best_workers ::
  "(rat \<Rightarrow> rat) \<Rightarrow> worker_repo \<Rightarrow> string \<Rightarrow> string list \<Rightarrow> rat \<times> string \<Rightarrow> rat \<times> string
     \<Rightarrow> ((rat \<times> string) \<times> (rat \<times> string)) result" where
  "best_workers rnd r algoName [] bestTotal bestAlgo = Inr (bestTotal, bestAlgo)"
| "best_workers rnd r algoName (w # ws) bestTotal bestAlgo =
    (case get_worker_info w r of
       None \<Rightarrow> Inl (Undefined_behaviour ''empty optional'')
     | Some i \<Rightarrow>
         best_workers rnd r algoName ws
           (if fst bestTotal \<le> total_avg rnd i then (total_avg rnd i, w) else bestTotal)
           (if fst bestAlgo \<le> algo_avg rnd algoName i then (algo_avg rnd algoName i, w) else bestAlgo))"

definition choose_worker :: "(rat \<Rightarrow> rat) \<Rightarrow> (rat \<times> string) \<times> (rat \<times> string) \<Rightarrow> string \<times> rat" where
  "choose_worker rnd best =
    (let ((bestTotalAvg, bestTotalWorkerId), (bestAlgoAvg, bestAlgoWorkerId)) = best
     in if rnd (2 * bestAlgoAvg) < bestTotalAvg then (bestTotalWorkerId, bestTotalAvg)
        else (bestAlgoWorkerId, bestAlgoAvg))"

fun assign_workers ::
  "('a, 'prob, 'pop, 'd) senv \<Rightarrow> worker_repo \<Rightarrow> 'a list \<Rightarrow> nat \<Rightarrow> nat \<Rightarrow> string list
     \<Rightarrow> (string \<times> 'a \<times> rat) list \<Rightarrow> (string \<times> 'a \<times> rat) list result" where
  "assign_workers env r algorithms 0 p conn out = Inr out"
| "assign_workers env r algorithms (Suc i) p conn out =
     bind_result (get_algorithm algorithms p)
       (\<lambda>(alg, p). bind_result (best_workers (se_round env) r (se_algorithm_name env alg) conn (0, '''') (0, ''''))
         (\<lambda>best. let (chosen, avg) = choose_worker (se_round env) best
                 in assign_workers env r algorithms i p (set_erase chosen conn) (out @ [(chosen, alg, avg)])))"

definition total_performance :: "(rat \<Rightarrow> rat) \<Rightarrow> (string \<times> 'a \<times> rat) list \<Rightarrow> rat" where
  "total_performance rnd ws = fold (\<lambda>(w, alg, perfMetric) totalPerf. rnd (totalPerf + perfMetric)) ws 0"

text \<open>\<open>static_cast<size_t>\<close> of a double.\<close>

definition to_size :: "rat \<Rightarrow> u64 result" where
  "to_size x = (if -1 < x \<and> x < 2 ^ 64 then Inr (of_nat (nat \<lfloor>x\<rfloor>)) else Inl (Undefined_behaviour ''double to size_t''))"

definition worker_share :: "(rat \<Rightarrow> rat) \<Rightarrow> rat \<Rightarrow> nat \<Rightarrow> rat \<Rightarrow> rat" where
  "worker_share rnd totalPerf n perfMetric =
    (if 0 < totalPerf then rnd (perfMetric / totalPerf) else rnd (1 / rnd (of_nat n)))"

definition worker_entry ::
  "(rat \<Rightarrow> rat) \<Rightarrow> u64 \<Rightarrow> u64 \<Rightarrow> rat \<Rightarrow> nat \<Rightarrow> string \<times> 'a \<times> rat \<Rightarrow> 'a plan_entry result" where
  "worker_entry rnd populationSize minIslandPopSize totalPerf n entry =
    (case entry of (workerId, alg, perfMetric) \<Rightarrow>
       bind_result (to_size (rnd (rnd (of_nat (unat populationSize)) * worker_share rnd totalPerf n perfMetric)))
         (\<lambda>workerPopSize. bind_result (ceil_to_multiple (max minIslandPopSize workerPopSize) 4)
           (\<lambda>finalWorkerPopSize. Inr (finalWorkerPopSize, 1, workerId, alg))))"

definition generate_work_plan ::
  "('a, 'prob, 'pop, 'd) senv \<Rightarrow> load_balancing_strategy \<Rightarrow> worker_repo \<Rightarrow> nat \<Rightarrow> u64 \<Rightarrow> 'a list \<Rightarrow> u64 \<Rightarrow> 'a plan_entry list result" where
  "generate_work_plan env strategy r islandCount populationSize algorithms minIslandPopSize =
    (let conn = se_order env (get_connected_workers r); workerCount = length conn
     in if workerCount < islandCount \<or> strategy = ALL_ISLANDS_EQUAL
        then if islandCount = 0 then Inl (Undefined_behaviour ''division by zero'')
             else bind_result (ceil_to_multiple (max minIslandPopSize (of_nat (unat populationSize div islandCount))) 4)
                    (\<lambda>islandPop. equal_plan algorithms islandPop islandCount 0 [])
        else bind_result (assign_workers env r algorithms islandCount 0 conn [])
               (\<lambda>ws. map_result (worker_entry (se_round env) populationSize minIslandPopSize
                        (total_performance (se_round env) ws) (length ws)) ws))"

section \<open>Evolution\<close>

fun hint_loop :: "('prob, 'pop, 'd) pagmo \<Rightarrow> 'd list list \<Rightarrow> nat \<Rightarrow> 'pop \<Rightarrow> 'pop result" where
  "hint_loop pg [] i population = Inr population"
| "hint_loop pg (h # hints) i population =
    (if i < length (pg_x pg population)
     then bind_result (pg_set_x pg i h population) (hint_loop pg hints (Suc i))
     else Inr population)"

definition set_island_hints :: "('prob, 'pop, 'd) pagmo \<Rightarrow> 'd list list \<Rightarrow> ('a, 'pop) pagmo_island \<Rightarrow> ('a, 'pop) pagmo_island result" where
  "set_island_hints pg hints isle =
    (if hints \<noteq> [] then map_sum id (\<lambda>p. isle\<lparr>il_population := p\<rparr>) (hint_loop pg hints 0 (il_population isle))
     else Inr isle)"

text \<open>One island of the plan; \<open>seed\<close> and \<open>draws\<close> are the random numbers it is made with.\<close>

definition make_island ::
  "('a, 'prob, 'pop, 'd) senv \<Rightarrow> 'prob \<Rightarrow> 'd list list \<Rightarrow> (u32 \<times> nat list) \<times> 'a plan_entry \<Rightarrow> ('a, 'pop) archi_island result" where
  "make_island env problem hints entry =
    (case entry of ((seed, draws), (islandPopSize, islandCycleCount, preferredWorker, alg)) \<Rightarrow>
       bind_result (pg_new (se_pg env) problem (unat islandPopSize) seed)
         (\<lambda>population. map_sum id (\<lambda>isle. \<lparr>ai_udi = distributed_island_with preferredWorker islandCycleCount draws, ai_island = isle\<rparr>)
           (set_island_hints (se_pg env) hints \<lparr>il_algorithm = alg, il_population = population\<rparr>)))"

text \<open>The loop of \<open>evolve\<close>: an exception leaves the islands that are already in the archipelago.\<close>

fun build_islands ::
  "('a, 'prob, 'pop, 'd) senv \<Rightarrow> 'prob \<Rightarrow> 'd list list \<Rightarrow> ((u32 \<times> nat list) \<times> 'a plan_entry) list
     \<Rightarrow> ('a, 'pop) archi_island list \<Rightarrow> unit result \<times> ('a, 'pop) archi_island list" where
  "build_islands env problem hints [] archi = (Inr (), archi)"
| "build_islands env problem hints (entry # rest) archi =
    (case make_island env problem hints entry of
       Inl e \<Rightarrow> (Inl e, archi)
     | Inr isle \<Rightarrow> build_islands env problem hints rest (archi @ [isle]))"

definition solver_evolve ::
  "('a, 'prob, 'pop, 'd) senv \<Rightarrow> ('b, 'p, 'q, 'u) env \<Rightarrow> (nat \<Rightarrow> u32 \<times> nat list) \<Rightarrow> 'prob \<Rightarrow> 'a list \<Rightarrow> u64 \<Rightarrow> nat \<Rightarrow> u64
     \<Rightarrow> ('a, 'pop, 'd) solver \<Rightarrow> unit result \<times> ('a, 'pop, 'd) solver" where
  "solver_evolve env cenv random problem algorithms populationSize cycles minIslandPopSize s =
    (if sv_status s = Busy \<or> sv_status s = Busy_error
     then (Inl (Runtime_error ''Cannot start a new evolution while the previous one is still running.''), s)
     else
       let s = s\<lparr>sv_archipelago := [], sv_status := Idle\<rparr> in
       (case get_worker_info_repository cenv (sv_controller s) of
          (Inl e, c) \<Rightarrow> (Inl e, s\<lparr>sv_controller := c\<rparr>)
        | (Inr r, c) \<Rightarrow>
            (let optimalIslandCount = max (get_worker_count r) (sv_expectedWorkerCount s) in
             case get_worker_info_repository cenv c of
               (Inl e, c) \<Rightarrow> (Inl e, s\<lparr>sv_controller := c\<rparr>)
             | (Inr r, c) \<Rightarrow>
                 (let s = s\<lparr>sv_controller := c\<rparr> in
                  case generate_work_plan env (sv_strategy s) r optimalIslandCount populationSize algorithms minIslandPopSize of
                    Inl e \<Rightarrow> (Inl e, s)
                  | Inr plan \<Rightarrow>
                      (case build_islands env problem (sv_initialHints s) (map (\<lambda>i. (random i, plan ! i)) [0..<optimalIslandCount]) [] of
                         (Inl e, archi) \<Rightarrow> (Inl e, s\<lparr>sv_archipelago := archi\<rparr>)
                       | (Inr _, archi) \<Rightarrow>
                           (Inr (), s\<lparr>sv_archipelago := archi, sv_cycles := cycles, sv_status := (if archi = [] then Idle else Busy), sv_initialHints := []\<rparr>))))))"

text \<open>
  The end of a background evolution: the islands as they then are, and whether one of them has
  thrown an exception that is still to be rethrown.
\<close>

type_synonym ('a, 'pop) evolution_end = "('a, 'pop) archi_island list \<times> unit result"

section \<open>Results\<close>

definition solver_best_N :: "('a, 'prob, 'pop, 'd::linorder) senv \<Rightarrow> nat \<Rightarrow> ('a, 'pop, 'd) solver \<Rightarrow> 'd list list result" where
  "solver_best_N env N s =
    (case sv_archipelago s of
       [] \<Rightarrow> Inr []
     | isle # _ \<Rightarrow>
         (let pg = se_pg env;
              (allPopulations, allFitnesses) =
                merge_populations pg (map (\<lambda>i. il_population (ai_island i)) (sv_archipelago s))
          in select_best_N_individuals pg (se_ties env) (pg_problem pg (il_population (ai_island isle)))
               allPopulations allFitnesses N))"

definition solver_best :: "('a, 'prob, 'pop, 'd::linorder) senv \<Rightarrow> ('a, 'pop, 'd) solver \<Rightarrow> 'd list result" where
  "solver_best env s =
     bind_result (solver_best_N env 1 s) (\<lambda>best. if best \<noteq> [] then vec_at best 0 else Inr [])"

text \<open>\<open>wait_check\<close> waits for the end of the background evolution, \<open>outcome\<close>, and rethrows its exception.\<close>

definition wait_until_completion ::
  "('a, 'prob, 'pop, 'd::linorder) senv \<Rightarrow> ('a, 'pop) evolution_end \<Rightarrow> ('a, 'pop, 'd) solver
     \<Rightarrow> 'd list result \<times> ('a, 'pop, 'd) solver" where
  "wait_until_completion env outcome s =
    (if sv_status s = Idle \<or> sv_status s = Idle_error
     then (Inl (Runtime_error ''Cannot wait until completion, no evolution is running at the moment.''), s)
     else (let s = s\<lparr>sv_archipelago := fst outcome, sv_status := Idle\<rparr>
           in case snd outcome of Inl e \<Rightarrow> (Inl e, s) | Inr _ \<Rightarrow> (solver_best env s, s)))"

definition get_status :: "('a, 'pop, 'd) solver \<Rightarrow> evolve_status" where
  "get_status s = sv_status s"

definition set_initial_hints :: "'d list list \<Rightarrow> ('a, 'pop, 'd) solver \<Rightarrow> ('a, 'pop, 'd) solver" where
  "set_initial_hints hints s = s\<lparr>sv_initialHints := hints\<rparr>"

definition workers_connected :: "('b, 'p, 'q, 'u) env \<Rightarrow> nat \<Rightarrow> ('a, 'pop, 'd) solver \<Rightarrow> bool result \<times> ('a, 'pop, 'd) solver" where
  "workers_connected cenv workerCount s =
    (case get_worker_info_repository cenv (sv_controller s) of
       (Inl e, c) \<Rightarrow> (Inl e, s\<lparr>sv_controller := c\<rparr>)
     | (Inr r, c) \<Rightarrow> (Inr (worker_count_reached workerCount r), s\<lparr>sv_controller := c\<rparr>))"

definition expected_workers_connected :: "('b, 'p, 'q, 'u) env \<Rightarrow> ('a, 'pop, 'd) solver \<Rightarrow> bool result \<times> ('a, 'pop, 'd) solver" where
  "expected_workers_connected cenv s = workers_connected cenv (sv_expectedWorkerCount s) s"

definition get_current_worker_count :: "('b, 'p, 'q, 'u) env \<Rightarrow> ('a, 'pop, 'd) solver \<Rightarrow> nat result \<times> ('a, 'pop, 'd) solver" where
  "get_current_worker_count cenv s =
    (case get_worker_info_repository cenv (sv_controller s) of
       (Inl e, c) \<Rightarrow> (Inl e, s\<lparr>sv_controller := c\<rparr>)
     | (Inr r, c) \<Rightarrow> (Inr (get_worker_count r), s\<lparr>sv_controller := c\<rparr>))"

definition get_expected_worker_count :: "('a, 'pop, 'd) solver \<Rightarrow> nat" where
  "get_expected_worker_count s = sv_expectedWorkerCount s"

definition solver_new ::
  "('b, 'p, 'q, 'u) env \<Rightarrow> string \<Rightarrow> nat \<Rightarrow> load_balancing_strategy \<Rightarrow> disk \<Rightarrow> registry \<Rightarrow> ('a, 'pop, 'd) solver result" where
  "solver_new cenv controllerAddress expectedWorkerCount strategy d reg =
     map_sum id (\<lambda>c. \<lparr>sv_strategy = strategy, sv_controller = c, sv_expectedWorkerCount = expectedWorkerCount,
                      sv_archipelago = [], sv_status = Idle, sv_cycles = 0, sv_initialHints = []\<rparr>)
       (controller_new cenv controllerAddress 1000 3000 1000 ''./controller_settings.xml'' d reg)"

end
