(* ===== verification/Solver_Correct.thy ===== *)
theory Solver_Correct
  imports Solver Controller_Correct
begin

text \<open>
  What the solver guarantees: the shape of its work plan (one entry per island, sizes that every
  algorithm accepts, algorithms in turn, a different worker for every island, each the best of
  those that are left), that \<open>evolve\<close> builds the archipelago of this plan, and that waiting for its
  end gives the best individual of all islands.

  \<open>round_ok\<close> states what IEEE rounding guarantees and the plan relies on: it is monotone, changes
  nothing that is representable, and integers up to 2^53 are.
\<close>

definition round_ok :: "(rat \<Rightarrow> rat) \<Rightarrow> bool" where
  "round_ok rnd \<longleftrightarrow> mono rnd \<and> (\<forall>x. rnd (rnd x) = rnd x) \<and> (\<forall>n \<le> 2 ^ 53. rnd (of_nat n) = of_nat n)"

lemma round_mono: "round_ok rnd \<Longrightarrow> x \<le> y \<Longrightarrow> rnd x \<le> rnd y"
  by (simp add: round_ok_def mono_def)

lemma round_idem: "round_ok rnd \<Longrightarrow> rnd (rnd x) = rnd x"
  by (simp add: round_ok_def)

lemma round_nat: "round_ok rnd \<Longrightarrow> n \<le> 2 ^ 53 \<Longrightarrow> rnd (of_nat n) = of_nat n"
  by (simp add: round_ok_def)

lemma round_01: "round_ok rnd \<Longrightarrow> rnd 0 = 0" "round_ok rnd \<Longrightarrow> rnd 1 = 1"
  using round_nat [of rnd 0] round_nat [of rnd 1] by simp_all

lemma round_nonneg: "round_ok rnd \<Longrightarrow> 0 \<le> x \<Longrightarrow> 0 \<le> rnd x"
  using round_mono [of rnd 0 x] round_01 [of rnd] by simp

section \<open>Multiples of four\<close>

lemma ceil_to_four:
  fixes x :: u64
  assumes "unat x \<le> 2 ^ 64 - 4"
  shows "\<exists>y. ceil_to_multiple x 4 = Inr y \<and> 4 dvd unat y \<and> x \<le> y \<and> unat y \<le> unat x + 3"
proof (cases "unat x mod 4 = 0")
  case True
  then have "x mod 4 = 0" by (simp add: unat_mod_distrib flip: unat_eq_0)
  then show ?thesis using True by (auto simp: ceil_to_multiple_def)
next
  case False
  then have "x mod 4 \<noteq> 0" by (auto simp: unat_mod_distrib simp flip: unat_eq_0)
  moreover have "unat (4 - x mod 4) = 4 - unat x mod 4"
    by (simp add: unat_sub word_le_nat_alt unat_mod_distrib)
  then have "unat (x + (4 - x mod 4)) = unat x + (4 - unat x mod 4)"
    using False assms by (simp add: unat_word_ariths)
  moreover have "4 dvd unat x + (4 - unat x mod 4)" by presburger
  ultimately show ?thesis
    using False by (auto simp: ceil_to_multiple_def word_le_nat_alt)
qed

section \<open>The order of algorithms\<close>

lemma get_algorithm_eq:
  assumes "algorithms \<noteq> []" and "p \<le> length algorithms"
  shows "get_algorithm algorithms p = Inr (algorithms ! (p mod length algorithms), Suc (p mod length algorithms))"
  using assms by (cases "p = length algorithms") (simp_all add: get_algorithm_def vec_index_def)

definition turns :: "'a list \<Rightarrow> nat \<Rightarrow> nat \<Rightarrow> 'a list" where
  "turns algorithms p n = map (\<lambda>i. algorithms ! ((p + i) mod length algorithms)) [0..<n]"

lemma turns_Suc:
  "turns algorithms p (Suc n) = algorithms ! (p mod length algorithms) # turns algorithms (Suc (p mod length algorithms)) n"
proof -
  have "(p + Suc i) mod length algorithms = (Suc (p mod length algorithms) + i) mod length algorithms" for i
    by (metis (no_types, lifting) add_Suc add_Suc_right mod_Suc_eq mod_add_left_eq)
  then show ?thesis
    by (simp add: turns_def upt_conv_Cons comp_def del: upt_Suc flip: map_Suc_upt)
qed

lemma turn_le: "algorithms \<noteq> [] \<Longrightarrow> Suc (p mod length algorithms) \<le> length algorithms"
  by (simp add: Suc_le_eq)

lemma equal_plan_eq:
  assumes "algorithms \<noteq> []"
  shows "p \<le> length algorithms \<Longrightarrow> equal_plan algorithms islandPop n p out
    = Inr (out @ map (\<lambda>alg. (islandPop, 1, '''', alg)) (turns algorithms p n))"
proof (induction n arbitrary: p out)
  case 0
  then show ?case by (simp add: turns_def)
next
  case (Suc n)
  then show ?case
    using turn_le [OF assms, of p] by (simp add: get_algorithm_eq [OF assms] turns_Suc)
qed

section \<open>The choice of workers\<close>

definition recorded :: "worker_repo \<Rightarrow> string list \<Rightarrow> bool" where
  "recorded r ws \<longleftrightarrow> (\<forall>w \<in> set ws. \<exists>i. get_worker_info w r = Some i)"

definition total_of :: "(rat \<Rightarrow> rat) \<Rightarrow> worker_repo \<Rightarrow> string \<Rightarrow> rat" where
  "total_of rnd r w = total_avg rnd (the (get_worker_info w r))"

definition algo_of :: "(rat \<Rightarrow> rat) \<Rightarrow> worker_repo \<Rightarrow> string \<Rightarrow> string \<Rightarrow> rat" where
  "algo_of rnd r name w = algo_avg rnd name (the (get_worker_info w r))"

lemma safe_divide_round:
  assumes "round_ok rnd"
  shows "0 \<le> safe_divide rnd a b 0" and "rnd (safe_divide rnd a b 0) = safe_divide rnd a b 0"
proof -
  have "0 \<le> rnd (rnd (of_nat (unat a)) / rnd (of_nat (unat b)))"
    by (intro round_nonneg [OF assms] divide_nonneg_nonneg of_nat_0_le_iff)
  then show "0 \<le> safe_divide rnd a b 0" "rnd (safe_divide rnd a b 0) = safe_divide rnd a b 0"
    using round_idem [OF assms] round_01 [OF assms] by (auto simp: safe_divide_def)
qed

lemma averages_nonneg:
  assumes "round_ok rnd"
  shows "0 \<le> total_of rnd r w" and "0 \<le> algo_of rnd r name w"
    and "rnd (total_of rnd r w) = total_of rnd r w" and "rnd (algo_of rnd r name w) = algo_of rnd r name w"
  using safe_divide_round [OF assms] round_01 [OF assms]
  by (auto simp: total_of_def algo_of_def total_avg_def algo_avg_def split: option.split)

text \<open>Running maxima: the last of the best.\<close>

fun running_best :: "(string \<Rightarrow> rat) \<Rightarrow> string list \<Rightarrow> rat \<times> string \<Rightarrow> rat \<times> string" where
  "running_best f [] b = b"
| "running_best f (w # ws) b = running_best f ws (if fst b \<le> f w then (f w, w) else b)"

lemma best_workers_eq:
  "recorded r ws \<Longrightarrow> best_workers rnd r name ws bt ba
    = Inr (running_best (total_of rnd r) ws bt, running_best (algo_of rnd r name) ws ba)"
  by (induction ws arbitrary: bt ba) (auto simp: recorded_def total_of_def algo_of_def)

lemma running_best_ge: "fst b \<le> fst (running_best f ws b) \<and> (\<forall>w \<in> set ws. f w \<le> fst (running_best f ws b))"
proof (induction ws arbitrary: b)
  case (Cons w ws)
  show ?case using Cons.IH [of "if fst b \<le> f w then (f w, w) else b"] by (auto split: if_splits)
qed simp

lemma running_best_member:
  "running_best f ws b = b \<or> (snd (running_best f ws b) \<in> set ws \<and> f (snd (running_best f ws b)) = fst (running_best f ws b))"
proof (induction ws arbitrary: b)
  case (Cons w ws)
  show ?case using Cons.IH [of "if fst b \<le> f w then (f w, w) else b"] by (auto split: if_splits)
qed simp

lemma running_best_is_best:
  assumes "ws \<noteq> []" and "\<forall>w. 0 \<le> f w"
  shows "snd (running_best f ws (0, '''')) \<in> set ws"
    and "fst (running_best f ws (0, '''')) = f (snd (running_best f ws (0, '''')))"
    and "w \<in> set ws \<Longrightarrow> f w \<le> f (snd (running_best f ws (0, '''')))"
proof -
  obtain w0 rest where ws: "ws = w0 # rest" using assms(1) by (cases ws) auto
  then have "running_best f ws (0, '''') = running_best f rest (f w0, w0)" using assms(2) by simp
  then show member: "snd (running_best f ws (0, '''')) \<in> set ws"
      and val: "fst (running_best f ws (0, '''')) = f (snd (running_best f ws (0, '''')))"
    using running_best_member [of f rest "(f w0, w0)"] ws by auto
  show "w \<in> set ws \<Longrightarrow> f w \<le> f (snd (running_best f ws (0, '''')))"
    using running_best_ge [of "(0, '''')" f ws] val by auto
qed

text \<open>
  The rule of the source: the best worker for the algorithm, unless the best in total has more
  than twice its average. \<open>greedy\<close>: each entry is chosen by the rule among the workers that no
  earlier entry has taken.
\<close>

definition best_choice :: "(rat \<Rightarrow> rat) \<Rightarrow> worker_repo \<Rightarrow> string \<Rightarrow> string list \<Rightarrow> string \<Rightarrow> rat \<Rightarrow> bool" where
  "best_choice rnd r name ws w avg \<longleftrightarrow>
     (\<exists>a \<in> set ws. \<exists>t \<in> set ws.
        (\<forall>v \<in> set ws. algo_of rnd r name v \<le> algo_of rnd r name a)
      \<and> (\<forall>v \<in> set ws. total_of rnd r v \<le> total_of rnd r t)
      \<and> (w, avg) = (if rnd (2 * algo_of rnd r name a) < total_of rnd r t then (t, total_of rnd r t)
                    else (a, algo_of rnd r name a)))"

fun greedy :: "(rat \<Rightarrow> rat) \<Rightarrow> ('a \<Rightarrow> string) \<Rightarrow> worker_repo \<Rightarrow> string list \<Rightarrow> (string \<times> 'a \<times> rat) list \<Rightarrow> bool" where
  "greedy rnd name r ws [] \<longleftrightarrow> True"
| "greedy rnd name r ws ((w, alg, avg) # out) \<longleftrightarrow>
     best_choice rnd r (name alg) ws w avg \<and> greedy rnd name r (set_erase w ws) out"

lemma best_choice_member: "best_choice rnd r name ws w avg \<Longrightarrow> w \<in> set ws"
  by (auto simp: best_choice_def split: if_splits)

lemma best_choice_avg:
  "round_ok rnd \<Longrightarrow> best_choice rnd r name ws w avg \<Longrightarrow> 0 \<le> avg \<and> rnd avg = avg"
  using averages_nonneg [of rnd] by (auto simp: best_choice_def split: if_splits)

lemma greedy_workers:
  "greedy rnd name r ws out \<Longrightarrow> distinct (map fst out) \<and> set (map fst out) \<subseteq> set ws"
proof (induction rnd name r ws out rule: greedy.induct)
  case (2 rnd name r ws w alg avg out)
  then show ?case using best_choice_member [of rnd r "name alg" ws w avg] by (auto simp: set_set_erase)
qed simp

lemma greedy_avgs:
  "round_ok rnd \<Longrightarrow> greedy rnd name r ws out \<Longrightarrow> \<forall>e \<in> set out. 0 \<le> snd (snd e) \<and> rnd (snd (snd e)) = snd (snd e)"
  by (induction rnd name r ws out rule: greedy.induct) (auto dest: best_choice_avg)

lemma chosen_is_best:
  assumes "round_ok rnd" and "ws \<noteq> []"
    and "choose_worker rnd (running_best (total_of rnd r) ws (0, ''''), running_best (algo_of rnd r name) ws (0, '''')) = (w, avg)"
  shows "best_choice rnd r name ws w avg"
proof -
  have nonneg: "\<forall>v. 0 \<le> total_of rnd r v" "\<forall>v. 0 \<le> algo_of rnd r name v"
    using averages_nonneg [OF assms(1)] by blast+
  note t = running_best_is_best [OF assms(2) nonneg(1)] and a = running_best_is_best [OF assms(2) nonneg(2)]
  obtain T t' where T: "running_best (total_of rnd r) ws (0, '''') = (T, t')" by force
  obtain A a' where A: "running_best (algo_of rnd r name) ws (0, '''') = (A, a')" by force
  have "t' \<in> set ws" "T = total_of rnd r t'" "\<forall>v \<in> set ws. total_of rnd r v \<le> total_of rnd r t'"
      "a' \<in> set ws" "A = algo_of rnd r name a'" "\<forall>v \<in> set ws. algo_of rnd r name v \<le> algo_of rnd r name a'"
    using t a unfolding T A by simp_all
  then show ?thesis
    using assms(3) unfolding best_choice_def T A choose_worker_def by (auto split: if_splits)
qed

lemma assign_workers_greedy:
  assumes "round_ok (se_round env)" and "algorithms \<noteq> []"
  shows "recorded r ws \<Longrightarrow> distinct ws \<Longrightarrow> n \<le> length ws \<Longrightarrow> p \<le> length algorithms \<Longrightarrow>
    \<exists>picked. assign_workers env r algorithms n p ws out = Inr (out @ picked)
      \<and> map (fst \<circ> snd) picked = turns algorithms p n
      \<and> greedy (se_round env) (se_algorithm_name env) r ws picked"
proof (induction n arbitrary: ws p out)
  case 0
  then show ?case by (auto simp: turns_def)
next
  case (Suc n)
  let ?alg = "algorithms ! (p mod length algorithms)"
  let ?name = "se_algorithm_name env ?alg"
  let ?best = "(running_best (total_of (se_round env) r) ws (0, ''''), running_best (algo_of (se_round env) r ?name) ws (0, ''''))"
  obtain w avg where w: "choose_worker (se_round env) ?best = (w, avg)" by force
  have "ws \<noteq> []" using Suc.prems(3) by auto
  then have choice: "best_choice (se_round env) r ?name ws w avg"
    using chosen_is_best [OF assms(1) _ w] by blast
  then have rest: "length ws = Suc (length (set_erase w ws))"
    using length_set_erase [OF Suc.prems(2) best_choice_member [OF choice]] Suc.prems(3) by simp
  have "recorded r (set_erase w ws)" "distinct (set_erase w ws)" "n \<le> length (set_erase w ws)"
    using Suc.prems rest by (auto simp: recorded_def set_set_erase)
  from Suc.IH [OF this turn_le [OF assms(2), of p], of "out @ [(w, ?alg, avg)]"] obtain picked where picked:
      "assign_workers env r algorithms n (Suc (p mod length algorithms)) (set_erase w ws) (out @ [(w, ?alg, avg)])
        = Inr (out @ (w, ?alg, avg) # picked)"
      "map (fst \<circ> snd) picked = turns algorithms (Suc (p mod length algorithms)) n"
      "greedy (se_round env) (se_algorithm_name env) r (set_erase w ws) picked"
    unfolding append_assoc append_Cons append_Nil by blast
  have "assign_workers env r algorithms (Suc n) p ws out = Inr (out @ (w, ?alg, avg) # picked)"
    using Suc.prems picked(1) w by (simp add: get_algorithm_eq [OF assms(2)] best_workers_eq)
  then show ?case
    using picked(2,3) choice by (intro exI [of _ "(w, ?alg, avg) # picked"]) (simp add: turns_Suc comp_def)
qed

section \<open>The sizes of the populations\<close>

lemma total_performance_bounds:
  assumes "round_ok rnd" and "\<forall>e \<in> set ws. 0 \<le> snd (snd e) \<and> rnd (snd (snd e)) = snd (snd e)"
  shows "\<forall>e \<in> set ws. snd (snd e) \<le> total_performance rnd ws"
proof -
  let ?step = "\<lambda>(w, alg, perfMetric) totalPerf. rnd (totalPerf + perfMetric)"
  have "0 \<le> t \<Longrightarrow> rnd t = t \<Longrightarrow> \<forall>e \<in> set ws. 0 \<le> snd (snd e) \<and> rnd (snd (snd e)) = snd (snd e)
      \<Longrightarrow> t \<le> fold ?step ws t \<and> (\<forall>e \<in> set ws. snd (snd e) \<le> fold ?step ws t)" for t
  proof (induction ws arbitrary: t)
    case (Cons e ws)
    obtain w a p where e: "e = (w, a, p)" by (cases e)
    with Cons.prems(3) have p: "0 \<le> p" "rnd p = p" by auto
    have step: "t \<le> rnd (t + p)" "p \<le> rnd (t + p)" "0 \<le> rnd (t + p)" "rnd (rnd (t + p)) = rnd (t + p)"
      using round_mono [OF assms(1), of t "t + p"] round_mono [OF assms(1), of p "t + p"] p Cons.prems(1,2)
        round_nonneg [OF assms(1), of "t + p"] round_idem [OF assms(1)] by auto
    have "rnd (t + p) \<le> fold ?step ws (rnd (t + p))
        \<and> (\<forall>e \<in> set ws. snd (snd e) \<le> fold ?step ws (rnd (t + p)))"
      by (rule Cons.IH) (use step Cons.prems(3) in auto)
    then show ?case using e step by auto
  qed simp
  from this [of 0] show ?thesis
    using assms round_01 [OF assms(1)] by (simp add: total_performance_def)
qed

lemma worker_share_bounds:
  assumes "round_ok rnd" and "0 \<le> p" and "p \<le> t" and "0 < n"
  shows "0 \<le> worker_share rnd t n p \<and> worker_share rnd t n p \<le> 1"
proof (cases "0 < t")
  case True
  then have "0 \<le> p / t" "p / t \<le> 1" using assms(2,3) by (simp_all add: divide_le_eq)
  then show ?thesis
    using True round_nonneg [OF assms(1)] round_mono [OF assms(1), of "p / t" 1] round_01 [OF assms(1)]
    by (simp add: worker_share_def)
next
  case False
  have "1 \<le> rnd (of_nat n)"
    using round_mono [OF assms(1), of 1 "of_nat n"] round_01 [OF assms(1)] assms(4) by simp
  then have "0 \<le> 1 / rnd (of_nat n)" "1 / rnd (of_nat n) \<le> 1" by (simp_all add: divide_le_eq)
  then show ?thesis
    using False round_nonneg [OF assms(1)] round_mono [OF assms(1), of "1 / rnd (of_nat n)" 1] round_01 [OF assms(1)]
    by (simp add: worker_share_def)
qed

definition good_size :: "u64 \<Rightarrow> u64 \<Rightarrow> u64 \<Rightarrow> bool" where
  "good_size minPop population s \<longleftrightarrow> 4 dvd unat s \<and> minPop \<le> s \<and> unat s \<le> max (unat minPop) (unat population) + 3"

lemma good_size_ceil:
  assumes "unat minPop \<le> 2 ^ 53" and "unat population \<le> 2 ^ 53" and "unat x \<le> unat population"
  shows "\<exists>y. ceil_to_multiple (max minPop x) 4 = Inr y \<and> good_size minPop population y"
proof -
  have max: "unat (max minPop x) = max (unat minPop) (unat x)" by (simp add: max_def word_le_nat_alt)
  then have "unat (max minPop x) \<le> 2 ^ 64 - 4" using assms by simp
  from ceil_to_four [OF this] obtain y where y: "ceil_to_multiple (max minPop x) 4 = Inr y" "4 dvd unat y"
      "max minPop x \<le> y" "unat y \<le> unat (max minPop x) + 3" by blast
  have "minPop \<le> y" using y(3) by (rule order_trans [OF max.cobounded1])
  then show ?thesis using y max assms(3) by (auto simp: good_size_def)
qed

lemma to_size_le:
  assumes "0 \<le> x" and "x \<le> of_nat n" and "n \<le> 2 ^ 53"
  shows "\<exists>s. to_size x = Inr s \<and> unat s \<le> n"
proof -
  have "x < 2 ^ 64" using assms(2,3) by (rule_tac le_less_trans [of _ "of_nat (2 ^ 53)"]) (metis of_nat_le_iff order_trans, simp)
  moreover have "nat \<lfloor>x\<rfloor> \<le> n" using assms(1,2) by (simp add: nat_le_iff floor_le_iff)
  then have "unat (of_nat (nat \<lfloor>x\<rfloor>) :: u64) \<le> n" using assms(3) by (simp add: unat_of_nat)
  ultimately show ?thesis using assms(1) by (auto simp: to_size_def)
qed

lemma worker_entry_ok:
  assumes "round_ok rnd" and "0 \<le> p" and "p \<le> t" and "0 < n"
    and "unat minPop \<le> 2 ^ 53" and "unat population \<le> 2 ^ 53"
  shows "\<exists>s. worker_entry rnd population minPop t n (w, alg, p) = Inr (s, 1, w, alg) \<and> good_size minPop population s"
proof -
  let ?share = "worker_share rnd t n p"
  have pop: "rnd (of_nat (unat population)) = of_nat (unat population)" by (rule round_nat [OF assms(1,6)])
  have share: "0 \<le> ?share" "?share \<le> 1" using worker_share_bounds [OF assms(1-4)] by auto
  have "0 \<le> of_nat (unat population) * ?share" "of_nat (unat population) * ?share \<le> of_nat (unat population)"
    by (rule mult_nonneg_nonneg [OF of_nat_0_le_iff share(1)], rule mult_left_le [OF share(2) of_nat_0_le_iff])
  then have "0 \<le> rnd (of_nat (unat population) * ?share)" "rnd (of_nat (unat population) * ?share) \<le> of_nat (unat population)"
    using round_nonneg [OF assms(1)] round_mono [OF assms(1)] pop by metis+
  from to_size_le [OF this assms(6)] obtain x where x:
      "to_size (rnd (of_nat (unat population) * ?share)) = Inr x" "unat x \<le> unat population" by blast
  obtain y where "ceil_to_multiple (max minPop x) 4 = Inr y" "good_size minPop population y"
    using good_size_ceil [OF assms(5,6) x(2)] by blast
  then show ?thesis unfolding worker_entry_def prod.case pop using x(1) by simp
qed

lemma worker_entries_ok:
  assumes "round_ok rnd" and "\<forall>e \<in> set ws. 0 \<le> snd (snd e) \<and> snd (snd e) \<le> t" and "0 < n"
    and "unat minPop \<le> 2 ^ 53" and "unat population \<le> 2 ^ 53"
  shows "\<exists>plan. map_result (worker_entry rnd population minPop t n) ws = Inr plan
    \<and> map (\<lambda>(s, c, w, alg). (c, w, alg)) plan = map (\<lambda>(w, alg, p). (1, w, alg)) ws
    \<and> (\<forall>(s, c, w, alg) \<in> set plan. good_size minPop population s)"
  using assms(2)
proof (induction ws)
  case (Cons e ws)
  obtain w a p where e: "e = (w, a, p)" by (cases e)
  obtain s where "worker_entry rnd population minPop t n (w, a, p) = Inr (s, 1, w, a)" "good_size minPop population s"
    using worker_entry_ok [OF assms(1) _ _ assms(3-5), of p t w a] Cons.prems e by auto
  then show ?case using Cons e by auto
qed simp

lemma plan_fields:
  "map (\<lambda>(s, c, w, alg). (c, w, alg)) plan = map (\<lambda>(w, alg, p). (1, w, alg)) ws \<Longrightarrow>
     map (\<lambda>(s, c, w, alg). alg) plan = map (fst \<circ> snd) ws \<and> map (\<lambda>(s, c, w, alg). w) plan = map fst ws
     \<and> (\<forall>(s, c, w, alg) \<in> set plan. c = 1) \<and> length plan = length ws"
proof (induction plan arbitrary: ws)
  case (Cons e plan)
  obtain s c w a where e: "e = (s, c, w, a)" by (cases e)
  obtain f rest where ws: "ws = f # rest" using Cons.prems by (cases ws) auto
  obtain w' a' p' where f: "f = (w', a', p')" by (cases f)
  show ?case using Cons.IH [of rest] Cons.prems unfolding e ws f by simp
qed simp

section \<open>The two kinds of work plan\<close>

lemma equal_work_plan:
  assumes "algorithms \<noteq> []" and "0 < n" and "unat minPop \<le> 2 ^ 53" and "unat population \<le> 2 ^ 53"
    and "strategy = ALL_ISLANDS_EQUAL \<or> length (se_order env (connectedWorkers r)) < n"
  shows "\<exists>s. good_size minPop population s
    \<and> generate_work_plan env strategy r n population algorithms minPop = Inr (map (\<lambda>alg. (s, 1, '''', alg)) (turns algorithms 0 n))"
proof -
  have "unat (of_nat (unat population div n) :: u64) \<le> unat population"
    by (simp add: unat_of_nat) (meson div_le_dividend mod_less_eq_dividend order_trans)
  from good_size_ceil [OF assms(3,4) this] obtain s where s:
      "ceil_to_multiple (max minPop (of_nat (unat population div n))) 4 = Inr s" "good_size minPop population s" by blast
  then have "generate_work_plan env strategy r n population algorithms minPop
      = Inr (map (\<lambda>alg. (s, 1, '''', alg)) (turns algorithms 0 n))"
    using assms(2,5) equal_plan_eq [OF assms(1), of 0 s n "[]"]
    by (auto simp: generate_work_plan_def get_connected_workers_def Let_def)
  with s(2) show ?thesis by blast
qed

lemma worker_work_plan:
  fixes env :: "('a, 'prob, 'pop, 'd) senv"
  defines "order r \<equiv> se_order env (connectedWorkers r)"
  assumes "round_ok (se_round env)" and "distinct (order r)" and "recorded r (order r)" and "n \<le> length (order r)"
    and "algorithms \<noteq> []" and "0 < n" and "unat minPop \<le> 2 ^ 53" and "unat population \<le> 2 ^ 53"
    and "strategy \<noteq> ALL_ISLANDS_EQUAL"
  shows "\<exists>plan picked. generate_work_plan env strategy r n population algorithms minPop = Inr plan
    \<and> length plan = n \<and> greedy (se_round env) (se_algorithm_name env) r (order r) picked
    \<and> map (\<lambda>(s, c, w, alg). w) plan = map fst picked \<and> map (\<lambda>(s, c, w, alg). alg) plan = turns algorithms 0 n
    \<and> (\<forall>(s, c, w, alg) \<in> set plan. good_size minPop population s \<and> c = 1)"
proof -
  obtain picked where picked: "assign_workers env r algorithms n 0 (order r) [] = Inr picked"
      "map (fst \<circ> snd) picked = turns algorithms 0 n" "greedy (se_round env) (se_algorithm_name env) r (order r) picked"
    using assign_workers_greedy [OF assms(2,6,4,3,5), of 0 "[]"] by auto
  have len: "length picked = n" using arg_cong [OF picked(2), of length] by (simp add: turns_def)
  have "\<forall>e \<in> set picked. 0 \<le> snd (snd e) \<and> snd (snd e) \<le> total_performance (se_round env) picked"
    using total_performance_bounds [OF assms(2) greedy_avgs [OF assms(2) picked(3)]] greedy_avgs [OF assms(2) picked(3)] by blast
  from worker_entries_ok [OF assms(2) this assms(7,8,9)] len obtain plan where plan:
      "map_result (worker_entry (se_round env) population minPop (total_performance (se_round env) picked) (length picked)) picked = Inr plan"
      "map (\<lambda>(s, c, w, alg). (c, w, alg)) plan = map (\<lambda>(w, alg, p). (1, w, alg)) picked"
      "\<forall>(s, c, w, alg) \<in> set plan. good_size minPop population s"
    by auto
  have "generate_work_plan env strategy r n population algorithms minPop = Inr plan"
    using assms(5,10) picked(1) plan(1) unfolding order_def by (simp add: generate_work_plan_def get_connected_workers_def Let_def)
  moreover have "map (\<lambda>(s, c, w, alg). alg) plan = map (fst \<circ> snd) picked"
      "map (\<lambda>(s, c, w, alg). w) plan = map fst picked" "\<forall>(s, c, w, alg) \<in> set plan. c = 1" "length plan = n"
    using plan_fields [OF plan(2)] len by blast+
  ultimately show ?thesis using picked(2,3) plan(3) by (intro exI [of _ plan] exI [of _ picked]) auto
qed

text \<open>Both kinds of plan together.\<close>

lemma work_plan_ok:
  assumes "round_ok (se_round env)" and "mset (se_order env (connectedWorkers r)) = mset (connectedWorkers r)"
    and "distinct (connectedWorkers r)" and "recorded r (connectedWorkers r)"
    and "algorithms \<noteq> []" and "0 < n" and "unat minPop \<le> 2 ^ 53" and "unat population \<le> 2 ^ 53"
  shows "\<exists>plan. generate_work_plan env strategy r n population algorithms minPop = Inr plan
    \<and> length plan = n
    \<and> map (\<lambda>(s, c, w, alg). alg) plan = map (\<lambda>i. algorithms ! (i mod length algorithms)) [0..<n]
    \<and> (\<forall>(s, c, w, alg) \<in> set plan. good_size minPop population s \<and> c = 1)
    \<and> (if strategy = ALL_ISLANDS_EQUAL \<or> length (connectedWorkers r) < n
       then \<exists>s. \<forall>(s', c, w, alg) \<in> set plan. s' = s \<and> w = ''''
       else \<exists>picked. greedy (se_round env) (se_algorithm_name env) r (se_order env (connectedWorkers r)) picked
              \<and> map (\<lambda>(s, c, w, alg). w) plan = map fst picked
              \<and> distinct (map fst picked) \<and> set (map fst picked) \<subseteq> set (connectedWorkers r))"
proof (cases "strategy = ALL_ISLANDS_EQUAL \<or> length (connectedWorkers r) < n")
  case True
  then have "strategy = ALL_ISLANDS_EQUAL \<or> length (se_order env (connectedWorkers r)) < n"
    using mset_eq_length [OF assms(2)] by simp
  from equal_work_plan [OF assms(5-8) this] True show ?thesis by (auto simp: turns_def comp_def)
next
  case False
  let ?ws = "se_order env (connectedWorkers r)"
  have ws: "set ?ws = set (connectedWorkers r)" "distinct ?ws" "length ?ws = length (connectedWorkers r)"
    using assms(2,3) by (metis mset_eq_setD, metis mset_eq_imp_distinct_iff, metis mset_eq_length)
  then have "recorded r ?ws" "n \<le> length ?ws" "strategy \<noteq> ALL_ISLANDS_EQUAL" using assms(4) False by (auto simp: recorded_def)
  from worker_work_plan [OF assms(1) ws(2) this(1,2) assms(5-8) this(3)] obtain plan picked
    where plan: "generate_work_plan env strategy r n population algorithms minPop = Inr plan"
      "length plan = n" "greedy (se_round env) (se_algorithm_name env) r ?ws picked"
      "map (\<lambda>(s, c, w, alg). w) plan = map fst picked" "map (\<lambda>(s, c, w, alg). alg) plan = turns algorithms 0 n"
      "\<forall>(s, c, w, alg) \<in> set plan. good_size minPop population s \<and> c = 1"
    by blast
  then show ?thesis using False greedy_workers [OF plan(3)] ws(1) by (auto simp: turns_def)
qed

section \<open>The archipelago of an evolution\<close>

text \<open>The hints replace the first individuals, as far as there are individuals.\<close>

lemma hint_loop_ok:
  assumes "pagmo_ok pg" and "pagmo_total pg fits"
  shows "\<forall>h \<in> set hints. fits (pg_problem pg q) h \<Longrightarrow> \<exists>q'. hint_loop pg hints i q = Inr q'
    \<and> pg_x pg q' = take i (pg_x pg q) @ take (length (pg_x pg q) - i) hints @ drop (i + length hints) (pg_x pg q)
    \<and> pg_problem pg q' = pg_problem pg q"
proof (induction hints arbitrary: i q)
  case (Cons h hints)
  show ?case
  proof (cases "i < length (pg_x pg q)")
    case True
    then obtain q1 where q1: "pg_set_x pg i h q = Inr q1"
      using pagmo_total_set [OF assms(2)] Cons.prems by (metis list.set_intros(1))
    note set = pagmo_setD [OF assms(1) q1]
    obtain q' where q': "hint_loop pg hints (Suc i) q1 = Inr q'"
        "pg_x pg q' = take (Suc i) (pg_x pg q1) @ take (length (pg_x pg q1) - Suc i) hints @ drop (Suc i + length hints) (pg_x pg q1)"
        "pg_problem pg q' = pg_problem pg q1"
      using Cons.IH [of q1 "Suc i"] Cons.prems set by auto
    have "length (pg_x pg q) - i = Suc (length (pg_x pg q) - Suc i)" using True by simp
    then have "pg_x pg q' = take i (pg_x pg q) @ take (length (pg_x pg q) - i) (h # hints) @ drop (i + length (h # hints)) (pg_x pg q)"
      using q'(2) set True by (simp add: take_Suc_conv_app_nth)
    then show ?thesis using q' q1 set True by simp
  next
    case False
    then show ?thesis by simp
  qed
qed simp

text \<open>An island that does what an entry of the plan says.\<close>

definition follows_plan ::
  "('prob, 'pop, 'd) pagmo \<Rightarrow> 'prob \<Rightarrow> 'd list list \<Rightarrow> 'a plan_entry \<Rightarrow> ('a, 'pop) archi_island \<Rightarrow> bool" where
  "follows_plan pg problem hints entry isle \<longleftrightarrow>
     (case entry of (members, rounds, worker, alg) \<Rightarrow>
        let pop = il_population (ai_island isle)
        in is_preferredWorkerId (ai_udi isle) = worker \<and> is_cycleCount (ai_udi isle) = rounds
         \<and> il_algorithm (ai_island isle) = alg \<and> pg_problem pg pop = problem \<and> length (pg_x pg pop) = unat members
         \<and> take (length hints) (pg_x pg pop) = take (unat members) hints)"

lemma make_island_ok:
  assumes "pagmo_ok (se_pg env)" and "pagmo_total (se_pg env) fits" and "\<forall>h \<in> set hints. fits problem h"
  shows "\<exists>isle. make_island env problem hints (rnd, entry) = Inr isle \<and> follows_plan (se_pg env) problem hints entry isle"
proof -
  obtain seed draws members rounds worker alg where e: "rnd = (seed, draws)" "entry = (members, rounds, worker, alg)"
    by (metis prod.exhaust)
  obtain q where q: "pg_new (se_pg env) problem (unat members) seed = Inr q" using pagmo_total_new [OF assms(2)] by blast
  note new = pagmo_newD [OF assms(1) q]
  then obtain q' where "hint_loop (se_pg env) hints 0 q = Inr q'"
      "pg_x (se_pg env) q' = take (unat members) hints @ drop (length hints) (pg_x (se_pg env) q)"
      "pg_problem (se_pg env) q' = problem"
    using hint_loop_ok [OF assms(1,2), of hints q 0] assms(3) by auto
  then show ?thesis
    using q new by (auto simp: e make_island_def set_island_hints_def follows_plan_def distributed_island_with_def min_def)
qed

lemma build_islands_ok:
  assumes "pagmo_ok (se_pg env)" and "pagmo_total (se_pg env) fits" and "\<forall>h \<in> set hints. fits problem h"
  shows "\<exists>archi. build_islands env problem hints entries acc = (Inr (), acc @ archi)
    \<and> list_all2 (follows_plan (se_pg env) problem hints) (map snd entries) archi"
proof (induction entries arbitrary: acc)
  case (Cons entry entries)
  obtain rnd e where entry: "entry = (rnd, e)" by (cases entry)
  obtain isle where isle: "make_island env problem hints (rnd, e) = Inr isle" "follows_plan (se_pg env) problem hints e isle"
    using make_island_ok [OF assms] by blast
  obtain archi where "build_islands env problem hints entries (acc @ [isle]) = (Inr (), (acc @ [isle]) @ archi)"
      "list_all2 (follows_plan (se_pg env) problem hints) (map snd entries) archi"
    using Cons.IH by blast
  then show ?case using isle entry by (intro exI [of _ "isle # archi"]) simp
qed simp

lemma solver_evolve_ok:
  assumes "pagmo_ok (se_pg env)" and "pagmo_total (se_pg env) fits" and "\<forall>h \<in> set (sv_initialHints s). fits problem h"
    and "sv_status s = Idle \<or> sv_status s = Idle_error"
    and "get_worker_info_repository cenv (sv_controller s) = (Inr r, c1)" and "get_worker_info_repository cenv c1 = (Inr r, c2)"
    and "generate_work_plan env (sv_strategy s) r (max (get_worker_count r) (sv_expectedWorkerCount s)) populationSize algorithms minPop
           = Inr plan"
    and "length plan = max (get_worker_count r) (sv_expectedWorkerCount s)"
  shows "\<exists>archi. solver_evolve env cenv random problem algorithms populationSize cycles minPop s
        = (Inr (), s\<lparr>sv_controller := c2, sv_archipelago := archi, sv_cycles := cycles,
             sv_status := (if archi = [] then Idle else Busy), sv_initialHints := []\<rparr>)
    \<and> list_all2 (follows_plan (se_pg env) problem (sv_initialHints s)) plan archi"
proof -
  let ?entries = "map (\<lambda>i. (random i, plan ! i)) [0..<length plan]"
  have "map snd ?entries = plan" by (simp add: comp_def map_nth)
  then obtain archi where "build_islands env problem (sv_initialHints s) ?entries [] = (Inr (), archi)"
      "list_all2 (follows_plan (se_pg env) problem (sv_initialHints s)) plan archi"
    using build_islands_ok [OF assms(1-3), of ?entries "[]"] by auto
  then show ?thesis
    using assms(4-8) by (intro exI [of _ archi]) (auto simp: solver_evolve_def Let_def)
qed

section \<open>The best of an archipelago\<close>

text \<open>Positions in the merged populations are individuals of islands.\<close>

lemma merged_index:
  assumes "pagmo_ok pg"
  shows "i < length (concat (map (pg_x pg) qs)) \<Longrightarrow> \<exists>q \<in> set qs. \<exists>j < length (pg_x pg q).
    concat (map (pg_x pg) qs) ! i = pg_x pg q ! j \<and> concat (map (pg_f pg) qs) ! i = pg_f pg q ! j"
proof (induction qs arbitrary: i)
  case (Cons q qs)
  show ?case
  proof (cases "i < length (pg_x pg q)")
    case True
    then show ?thesis using pagmo_lengthD [OF assms] by (auto simp: nth_append)
  next
    case False
    then show ?thesis
      using Cons.IH [of "i - length (pg_x pg q)"] Cons.prems by (simp add: nth_append pagmo_lengthD [OF assms])
  qed
qed simp

lemma merged_position:
  assumes "pagmo_ok pg"
  shows "q \<in> set qs \<Longrightarrow> j < length (pg_x pg q) \<Longrightarrow>
    \<exists>i < length (concat (map (pg_f pg) qs)). concat (map (pg_f pg) qs) ! i = pg_f pg q ! j"
proof (induction qs)
  case (Cons p qs)
  show ?case
  proof (cases "q = p")
    case True
    then show ?thesis using Cons.prems pagmo_lengthD [OF assms, of p] by (intro exI [of _ j]) (simp add: nth_append)
  next
    case False
    then obtain i where "i < length (concat (map (pg_f pg) qs))" "concat (map (pg_f pg) qs) ! i = pg_f pg q ! j"
      using Cons by auto
    then show ?thesis by (intro exI [of _ "length (pg_f pg p) + i"]) simp
  qed
qed simp

definition best_individual :: "('prob, 'pop, 'd::linorder) pagmo \<Rightarrow> 'pop list \<Rightarrow> 'd list \<Rightarrow> bool" where
  "best_individual pg pops x \<longleftrightarrow>
     (\<exists>q \<in> set pops. \<exists>j < length (pg_x pg q). x = pg_x pg q ! j
        \<and> (\<forall>p \<in> set pops. \<forall>k < length (pg_x pg p). pg_f pg q ! j ! 0 \<le> pg_f pg p ! k ! 0))"

lemma solver_best_ok:
  assumes "pagmo_ok (se_pg env)" and "rearranges (se_ties env)"
    and "pg_nc (se_pg env) problem = 0" and "pg_nobj (se_pg env) problem \<le> 1"
    and "\<forall>q \<in> set pops. pg_problem (se_pg env) q = problem" and "\<exists>q \<in> set pops. pg_x (se_pg env) q \<noteq> []"
    and "map (\<lambda>i. il_population (ai_island i)) (sv_archipelago s) = pops"
  shows "\<exists>x. solver_best env s = Inr x \<and> best_individual (se_pg env) pops x"
proof -
  let ?pg = "se_pg env"
  let ?xs = "concat (map (pg_x ?pg) pops)" and ?fs = "concat (map (pg_f ?pg) pops)"
  have len: "length ?xs = length ?fs" using merged_lengths [OF assms(1)] by simp
  have fs: "[] \<notin> set ?fs" using pagmo_fitnessD [OF assms(1)] by auto
  have "?xs \<noteq> []" using assms(6) by auto
  then have N: "1 \<le> length ?fs" using len by (metis length_0_conv less_one not_le)
  obtain idx where idx: "best_of (\<lambda>i. ?fs ! i ! 0) (length ?fs) 1 idx"
      "get_best_N_individuals_indexes ?pg (se_ties env) problem ?fs 1 = Inr idx"
    using so_indexes [OF assms(3,4) fs, of "se_ties env" 1] selection_indexes(2) [OF assms(1,2) N fs _ assms(4,3)] by blast
  then obtain b where b: "idx = [b]" "b < length ?fs" "\<forall>i < length ?fs. ?fs ! b ! 0 \<le> ?fs ! i ! 0"
    unfolding best_of_def by (cases idx) auto
  have select: "select_best_N_individuals ?pg (se_ties env) problem ?xs ?fs 1 = Inr [?xs ! b]"
    using idx(2) b(1,2) len by (simp add: select_best_N_individuals_def vec_index_def)
  obtain isle rest where archi: "sv_archipelago s = isle # rest" using assms(6,7) by (cases "sv_archipelago s") auto
  then have "pg_problem ?pg (il_population (ai_island isle)) = problem" using assms(5,7) by auto
  then have "solver_best env s = Inr (?xs ! b)"
    using select assms(7) archi by (auto simp: solver_best_def solver_best_N_def merge_populations_eq vec_at_def)
  moreover obtain q j where q: "q \<in> set pops" "j < length (pg_x ?pg q)" "?xs ! b = pg_x ?pg q ! j" "?fs ! b = pg_f ?pg q ! j"
    using merged_index [OF assms(1), of b pops] b(2) len by auto
  moreover have "pg_f ?pg q ! j ! 0 \<le> pg_f ?pg p ! k ! 0" if p: "p \<in> set pops" "k < length (pg_x ?pg p)" for p k
  proof -
    obtain i where "i < length ?fs" "?fs ! i = pg_f ?pg p ! k" using merged_position [OF assms(1) p] by blast
    then show ?thesis using b(3) q(4) by metis
  qed
  ultimately show ?thesis unfolding best_individual_def by metis
qed

lemma wait_gives_best:
  assumes "pagmo_ok (se_pg env)" and "rearranges (se_ties env)" and "sv_status s = Busy"
    and "pops = map (\<lambda>i. il_population (ai_island i)) evolved \<and> pg_nc (se_pg env) problem = 0 \<and> pg_nobj (se_pg env) problem \<le> 1
         \<and> (\<forall>q \<in> set pops. pg_problem (se_pg env) q = problem) \<and> (\<exists>q \<in> set pops. pg_x (se_pg env) q \<noteq> [])"
  shows "\<exists>x. wait_until_completion env (evolved, Inr ()) s = (Inr x, s\<lparr>sv_archipelago := evolved, sv_status := Idle\<rparr>)
    \<and> best_individual (se_pg env) pops x"
proof -
  let ?s = "s\<lparr>sv_archipelago := evolved, sv_status := Idle\<rparr>"
  have "map (\<lambda>i. il_population (ai_island i)) (sv_archipelago ?s) = pops" using assms(4) by simp
  then have "\<exists>x. solver_best env ?s = Inr x \<and> best_individual (se_pg env) pops x"
    by (rule solver_best_ok [OF assms(1,2), of problem, rotated -1]) (use assms(4) in auto)
  then show ?thesis using assms(3) by (auto simp: wait_until_completion_def Let_def)
qed

section \<open>Properties\<close>

text \<open>
  C31: the work plan. For at least one algorithm and population sizes below 2^53 the plan is made
  without a failure. It has one entry per island, the algorithms take turns, and every
  population has a multiple of four members, at least the minimum and at most three more than
  the larger of the minimum and the whole population. When all islands are treated equally, or
  there are fewer workers than islands, all sizes are the same and no worker is preferred;
  otherwise every entry names a different connected worker, chosen by the rule \<open>best_choice\<close>
  among those that are not taken.
\<close>

theorem work_plan_is_sound:
  assumes "round_ok (se_round env)" and "mset (se_order env (connectedWorkers r)) = mset (connectedWorkers r)"
    and "distinct (connectedWorkers r)" and "recorded r (connectedWorkers r)"
    and "algorithms \<noteq> []" and "0 < n" and "unat minPop \<le> 2 ^ 53" and "unat population \<le> 2 ^ 53"
  shows "\<exists>plan. generate_work_plan env strategy r n population algorithms minPop = Inr plan
    \<and> length plan = n
    \<and> map (\<lambda>(s, c, w, alg). alg) plan = map (\<lambda>i. algorithms ! (i mod length algorithms)) [0..<n]
    \<and> (\<forall>(s, c, w, alg) \<in> set plan. good_size minPop population s \<and> c = 1)
    \<and> (if strategy = ALL_ISLANDS_EQUAL \<or> length (connectedWorkers r) < n
       then \<exists>s. \<forall>(s', c, w, alg) \<in> set plan. s' = s \<and> w = ''''
       else \<exists>picked. greedy (se_round env) (se_algorithm_name env) r (se_order env (connectedWorkers r)) picked
              \<and> map (\<lambda>(s, c, w, alg). w) plan = map fst picked
              \<and> distinct (map fst picked) \<and> set (map fst picked) \<subseteq> set (connectedWorkers r))"
  by (rule work_plan_ok [OF assms])

text \<open>
  C32: an evolution from its start to its result. With a problem whose populations can be made,
  hints that fit it, at least one algorithm, expected or connected workers (each with its record) and
  population sizes below 2^53, and while no other evolution is running, \<open>evolve\<close> returns with as many islands as
  there are connected or expected workers, whichever are more. Every island is as the work plan
  says: its preferred worker, its number of rounds, its algorithm, its size, the problem, and the
  first of its individuals replaced by the hints; the hints are gone afterwards and the solver is
  busy. When the islands have evolved, whatever their populations then hold, waiting returns an
  individual of one of them that is not worse than any other, for a problem with one objective and
  no constraints and as long as one population is not empty, and the solver is idle again.
\<close>

theorem evolution_gives_the_best:
  assumes "pagmo_ok (se_pg env)" and "pagmo_total (se_pg env) fits" and "rearranges (se_ties env)"
    and "round_ok (se_round env)" and "mset (se_order env (connectedWorkers r)) = mset (connectedWorkers r)"
    and "distinct (connectedWorkers r)" and "recorded r (connectedWorkers r)"
    and "algorithms \<noteq> []" and "0 < n" and "unat minPop \<le> 2 ^ 53" and "unat population \<le> 2 ^ 53"
    and "n = max (get_worker_count r) (sv_expectedWorkerCount s)"
    and "sv_status s = Idle \<or> sv_status s = Idle_error" and "\<forall>h \<in> set (sv_initialHints s). fits problem h"
    and "get_worker_info_repository cenv (sv_controller s) = (Inr r, c1)" and "get_worker_info_repository cenv c1 = (Inr r, c2)"
  shows "\<exists>plan archi s'. generate_work_plan env (sv_strategy s) r n population algorithms minPop = Inr plan
    \<and> length plan = n \<and> list_all2 (follows_plan (se_pg env) problem (sv_initialHints s)) plan archi
    \<and> s' = s\<lparr>sv_controller := c2, sv_archipelago := archi, sv_cycles := cycles, sv_status := Busy, sv_initialHints := []\<rparr>
    \<and> solver_evolve env cenv random problem algorithms population cycles minPop s = (Inr (), s')
    \<and> (\<forall>evolved pops. pops = map (\<lambda>i. il_population (ai_island i)) evolved
         \<and> pg_nc (se_pg env) problem = 0 \<and> pg_nobj (se_pg env) problem \<le> 1
         \<and> (\<forall>q \<in> set pops. pg_problem (se_pg env) q = problem) \<and> (\<exists>q \<in> set pops. pg_x (se_pg env) q \<noteq> [])
         \<longrightarrow> (\<exists>x. wait_until_completion env (evolved, Inr ()) s' = (Inr x, s'\<lparr>sv_archipelago := evolved, sv_status := Idle\<rparr>)
               \<and> best_individual (se_pg env) pops x))"
proof -
  obtain plan where plan: "generate_work_plan env (sv_strategy s) r n population algorithms minPop = Inr plan" "length plan = n"
    using work_plan_ok [OF assms(4-11), of "sv_strategy s"] by blast
  from solver_evolve_ok [OF assms(1,2,14,13,15,16) plan [unfolded assms(12)]]
  obtain archi where archi: "solver_evolve env cenv random problem algorithms population cycles minPop s
        = (Inr (), s\<lparr>sv_controller := c2, sv_archipelago := archi, sv_cycles := cycles,
             sv_status := (if archi = [] then Idle else Busy), sv_initialHints := []\<rparr>)"
      "list_all2 (follows_plan (se_pg env) problem (sv_initialHints s)) plan archi" by blast
  let ?s' = "s\<lparr>sv_controller := c2, sv_archipelago := archi, sv_cycles := cycles, sv_status := Busy, sv_initialHints := []\<rparr>"
  have "archi \<noteq> []" using archi(2) plan(2) assms(9) by auto
  then have evolve: "solver_evolve env cenv random problem algorithms population cycles minPop s = (Inr (), ?s')"
    using archi(1) by simp
  have busy: "sv_status ?s' = Busy" by simp
  show ?thesis
    by (rule exI [of _ plan], rule exI [of _ archi], rule exI [of _ ?s'])
      (use plan archi(2) evolve wait_gives_best [OF assms(1,3) busy, of _ _ problem] in blast)
qed

section \<open>Applying the properties\<close>

definition demo_senv :: "(string, nat, nat \<times> int list list \<times> u32, int) senv" where
  "demo_senv = \<lparr>se_pg = demo_pagmo, se_ties = (\<lambda>xs. xs), se_round = (\<lambda>x. x), se_order = rev, se_algorithm_name = (\<lambda>a. a)\<rparr>"

definition demo_repo :: worker_repo where
  "demo_repo = \<lparr>connectedWorkers = [''w1'', ''w2''],
     workerRecords = [(''w1'', worker_info_new\<lparr>totalStats := \<lparr>workTime = 2, processedPopulation = 10\<rparr>\<rparr>),
                      (''w2'', worker_info_new)]\<rparr>"

lemma demo_round: "round_ok (se_round demo_senv)"
  by (simp add: demo_senv_def round_ok_def mono_def)

theorem work_plan_is_sound_witness:
  "\<exists>plan. generate_work_plan demo_senv BY_PERFORMANCE demo_repo 2 30 [''de'', ''pso''] 8 = Inr plan
    \<and> length plan = 2 \<and> (\<forall>(s, c, w, alg) \<in> set plan. good_size 8 30 s \<and> c = 1)"
proof -
  have "mset (se_order demo_senv (connectedWorkers demo_repo)) = mset (connectedWorkers demo_repo)"
      "distinct (connectedWorkers demo_repo)" "recorded demo_repo (connectedWorkers demo_repo)"
    by (simp_all add: demo_senv_def demo_repo_def recorded_def get_worker_info_def)
  from work_plan_is_sound [OF demo_round this, of "[''de'', ''pso'']" 2 8 30 BY_PERFORMANCE]
  show ?thesis by auto
qed

definition demo_solver :: "(string, nat \<times> int list list \<times> u32, int) solver" where
  "demo_solver = \<lparr>sv_strategy = ALL_ISLANDS_EQUAL, sv_controller = demo_ctl, sv_expectedWorkerCount = 1,
     sv_archipelago = [], sv_status = Idle, sv_cycles = 0, sv_initialHints = [[-3]]\<rparr>"

lemma demo_repository: "\<exists>c. get_worker_info_repository demo_env demo_ctl = (Inr worker_repo_new, c)
    \<and> get_worker_info_repository demo_env c = (Inr worker_repo_new, c)"
  by (simp add: get_worker_info_repository_def settings_call_def save_to_file_def demo_env_def demo_ctl_def
      demo_disk_def worker_repo_new_def)

lemma demo_plan: "generate_work_plan demo_senv ALL_ISLANDS_EQUAL worker_repo_new 1 8 [''de''] 4 = Inr [(8, 1, '''', ''de'')]"
  by (simp add: generate_work_plan_def demo_senv_def get_connected_workers_def worker_repo_new_def ceil_to_multiple_def
      get_algorithm_def vec_index_def)

lemma one_island: "[0..<1] = [0 :: nat]"
  by simp

lemma demo_count: "get_worker_count worker_repo_new = 0"
  by (simp add: get_worker_count_def worker_repo_new_def)

lemma demo_se_pg: "pg_new (se_pg demo_senv) p n s = Inr (p, replicate n [0], s)"
  by (simp add: demo_senv_def demo_pagmo_def)

lemma demo_best:
  assumes x: "best_individual demo_pagmo [(1, [[5], [2], [7 :: int]], 7 :: u32)] x"
  shows "x = [2]"
proof -
  from x obtain j where j: "j < 3" "x = [[5], [2], [7]] ! j" "\<forall>k < 3. [[5], [2], [7]] ! j ! 0 \<le> [[5], [2], [7 :: int]] ! k ! 0"
    by (auto simp: best_individual_def demo_pagmo_def numeral_3_eq_3)
  from j(1) consider "j = 0" | "j = 1" | "j = 2" by linarith
  then show ?thesis using j(2) spec [OF j(3), of 1] by cases simp_all
qed

theorem evolution_gives_the_best_witness:
  "\<exists>s archi. solver_evolve demo_senv demo_env (\<lambda>i. (7, [])) 1 [''de''] 8 1 4 demo_solver = (Inr (), s)
    \<and> sv_archipelago s = [archi] \<and> il_algorithm (ai_island archi) = ''de'' \<and> get_status s = Busy
    \<and> pg_x demo_pagmo (il_population (ai_island archi)) ! 0 = [-3]
    \<and> fst (wait_until_completion demo_senv
            ([archi\<lparr>ai_island := \<lparr>il_algorithm = ''de'', il_population = (1, [[5], [2], [7]], 7)\<rparr>\<rparr>], Inr ()) s) = Inr [2]"
proof -
  obtain c where c: "get_worker_info_repository demo_env demo_ctl = (Inr worker_repo_new, c)"
      "get_worker_info_repository demo_env c = (Inr worker_repo_new, c)"
    using demo_repository by blast
  have "1 = max (get_worker_count worker_repo_new) (sv_expectedWorkerCount demo_solver)"
      "sv_status demo_solver = Idle \<or> sv_status demo_solver = Idle_error"
      "get_worker_info_repository demo_env (sv_controller demo_solver) = (Inr worker_repo_new, c)"
      "mset (se_order demo_senv (connectedWorkers worker_repo_new)) = mset (connectedWorkers worker_repo_new)"
      "distinct (connectedWorkers worker_repo_new)" "recorded worker_repo_new (connectedWorkers worker_repo_new)"
    by (simp add: demo_solver_def demo_count del: One_nat_def, simp_all add: demo_solver_def c demo_senv_def worker_repo_new_def recorded_def)
  note setting = this
  have se: "se_pg demo_senv = demo_pagmo" "se_ties demo_senv = (\<lambda>xs. xs)" by (simp_all add: demo_senv_def)
  have pg: "pagmo_ok (se_pg demo_senv)" "pagmo_total (se_pg demo_senv) (\<lambda>p x. True)" "rearranges (se_ties demo_senv)"
    by (simp_all add: se demo_pagmo_ok demo_pagmo_total rearranges_id)
  have sizes: "[''de''] \<noteq> []" "0 < (1 :: nat)" "unat (4 :: u64) \<le> 2 ^ 53" "unat (8 :: u64) \<le> 2 ^ 53"
      "\<forall>h \<in> set (sv_initialHints demo_solver). True" by simp_all
  from evolution_gives_the_best [OF pg demo_round setting(4-6) sizes(1-4) setting(1,2) sizes(5) setting(3) c(2),
      where problem = 1 and random = "\<lambda>i. (7, [])" and cycles = 1]
  obtain plan archi s' where run: "generate_work_plan demo_senv (sv_strategy demo_solver) worker_repo_new 1 8 [''de''] 4 = Inr plan"
      "list_all2 (follows_plan demo_pagmo 1 (sv_initialHints demo_solver)) plan archi"
      "s' = demo_solver\<lparr>sv_controller := c, sv_archipelago := archi, sv_cycles := 1, sv_status := Busy, sv_initialHints := []\<rparr>"
      "solver_evolve demo_senv demo_env (\<lambda>i. (7, [])) 1 [''de''] 8 1 4 demo_solver = (Inr (), s')"
      "\<forall>evolved pops. pops = map (\<lambda>i. il_population (ai_island i)) evolved \<and> pg_nc demo_pagmo 1 = 0 \<and> pg_nobj demo_pagmo 1 \<le> 1
         \<and> (\<forall>q \<in> set pops. pg_problem demo_pagmo q = 1) \<and> (\<exists>q \<in> set pops. pg_x demo_pagmo q \<noteq> [])
         \<longrightarrow> (\<exists>x. wait_until_completion demo_senv (evolved, Inr ()) s' = (Inr x, s'\<lparr>sv_archipelago := evolved, sv_status := Idle\<rparr>)
               \<and> best_individual demo_pagmo pops x)"
    unfolding se by (elim exE conjE) (rule that; assumption)
  have fields: "sv_strategy demo_solver = ALL_ISLANDS_EQUAL" "sv_initialHints demo_solver = [[-3]]" by (simp_all add: demo_solver_def)
  have "list_all2 (follows_plan demo_pagmo 1 [[-3]]) [(8, 1, '''', ''de'')] archi" using run(1,2) demo_plan by (simp add: fields del: One_nat_def)
  then obtain isle where isle: "archi = [isle]" "follows_plan demo_pagmo 1 [[-3]] (8, 1, '''', ''de'') isle"
    by (auto simp: list_all2_Cons1)
  let ?evolved = "[isle\<lparr>ai_island := \<lparr>il_algorithm = ''de'', il_population = (1, [[5], [2], [7 :: int]], 7 :: u32)\<rparr>\<rparr>]"
  let ?pops = "[(1, [[5], [2], [7]], 7)]"
  have pops: "?pops = map (\<lambda>i. il_population (ai_island i)) ?evolved \<and> pg_nc demo_pagmo 1 = 0 \<and> pg_nobj demo_pagmo 1 \<le> 1
      \<and> (\<forall>q \<in> set ?pops. pg_problem demo_pagmo q = 1) \<and> (\<exists>q \<in> set ?pops. pg_x demo_pagmo q \<noteq> [])"
    by (simp add: demo_pagmo_def)
  obtain x where x: "wait_until_completion demo_senv (?evolved, Inr ()) s' = (Inr x, s'\<lparr>sv_archipelago := ?evolved, sv_status := Idle\<rparr>)"
      "best_individual demo_pagmo ?pops x"
    using run(5) [rule_format, OF pops] by blast
  have "x = [2]" by (rule demo_best [OF x(2)])
  moreover have "pg_x demo_pagmo (il_population (ai_island isle)) ! 0 = [-3]" "il_algorithm (ai_island isle) = ''de''"
    using isle(2) by (cases "pg_x demo_pagmo (il_population (ai_island isle))", simp_all add: follows_plan_def Let_def)
  ultimately show ?thesis using run(3,4) isle(1) x(1) by (intro exI [of _ s'] exI [of _ isle]) (simp add: get_status_def)
qed

end
