(* ===== verification/Dll_Wrapper.thy ===== *)
theory Dll_Wrapper
  imports Registry_Correct
begin

text \<open>
  \<^verbatim>\<open>src/distributed/discovery/include/udp_base.h\<close>, \<^verbatim>\<open>include/udp_dll_wrapper.h\<close> and
  \<^verbatim>\<open>udp_dll_wrapper.cpp\<close>: the problem that pagmo sees. It forwards every call to an object of a
  loaded library, clones that object when it is copied, and on serialisation carries the name
  and the digest of the library, so that the receiver loads the right version first.

  The class inside the library is not code of the repository: its virtual functions are the
  fields of \<open>udp_class\<close>. \<open>udp_defaults\<close> holds the implementations that \<open>udp_base\<close> provides. The
  numbers are an abstract type \<open>'d\<close>. A Boost archive is the sequence of the items written to
  it; reading the serialised object of the library is a parameter.
\<close>

section \<open>The base class\<close>

datatype capability =
    Has_batch_fitness
  | Has_gradient
  | Has_gradient_sparsity
  | Has_hessians
  | Has_hessians_sparsity
  | Has_set_seed

type_synonym sparsity_pattern = "(nat \<times> nat) list"

record ('u, 'd) udp_class =
  v_has_capability :: "'u \<Rightarrow> capability \<Rightarrow> bool"
  v_fitness :: "'u \<Rightarrow> 'd list \<Rightarrow> 'd list result"
  v_get_bounds :: "'u \<Rightarrow> ('d list \<times> 'd list) result"
  v_get_nobj :: "'u \<Rightarrow> nat"
  v_get_nec :: "'u \<Rightarrow> nat"
  v_get_nic :: "'u \<Rightarrow> nat"
  v_get_nix :: "'u \<Rightarrow> nat"
  v_get_extra_info :: "'u \<Rightarrow> string"
  v_get_thread_safety :: "'u \<Rightarrow> thread_safety"
  v_get_name :: "'u \<Rightarrow> string"
  v_batch_fitness :: "'u \<Rightarrow> 'd list \<Rightarrow> 'd list result"
  v_gradient :: "'u \<Rightarrow> 'd list \<Rightarrow> 'd list result"
  v_gradient_sparsity :: "'u \<Rightarrow> sparsity_pattern result"
  v_hessians :: "'u \<Rightarrow> 'd list \<Rightarrow> 'd list list result"
  v_hessians_sparsity :: "'u \<Rightarrow> sparsity_pattern list result"
  v_set_seed :: "u32 \<Rightarrow> 'u \<Rightarrow> unit result \<times> 'u"

definition not_implemented :: "string \<Rightarrow> 'a result" where
  "not_implemented f = Inl (Runtime_error (f @ ''() is not implemented by this UDP''))"

text \<open>A class that overrides only the two mandatory functions.\<close>

definition udp_defaults ::
  "('u \<Rightarrow> 'd list \<Rightarrow> 'd list result) \<Rightarrow> ('u \<Rightarrow> ('d list \<times> 'd list) result) \<Rightarrow> ('u, 'd) udp_class" where
  "udp_defaults fitness get_bounds = \<lparr>
     v_has_capability = (\<lambda>u c. False),
     v_fitness = fitness,
     v_get_bounds = get_bounds,
     v_get_nobj = (\<lambda>u. 1),
     v_get_nec = (\<lambda>u. 0),
     v_get_nic = (\<lambda>u. 0),
     v_get_nix = (\<lambda>u. 0),
     v_get_extra_info = (\<lambda>u. ''No extra info.''),
     v_get_thread_safety = (\<lambda>u. Safety_basic),
     v_get_name = (\<lambda>u. ''Name of this UDP is not specified.''),
     v_batch_fitness = (\<lambda>u dv. not_implemented ''batch_fitness''),
     v_gradient = (\<lambda>u dv. not_implemented ''gradient''),
     v_gradient_sparsity = (\<lambda>u. not_implemented ''gradient_sparsity''),
     v_hessians = (\<lambda>u dv. not_implemented ''hessians''),
     v_hessians_sparsity = (\<lambda>u. not_implemented ''hessians_sparsity''),
     v_set_seed = (\<lambda>s u. (not_implemented ''set_seed'', u))\<rparr>"

section \<open>The wrapper\<close>

record 'u wrapper =
  udpPtr :: "'u shared_obj option"
  libFileName :: string
  libFileHash :: string

definition wrapper_default :: "'u wrapper" where
  "wrapper_default = \<lparr>udpPtr = None, libFileName = '''', libFileHash = ''''\<rparr>"

text \<open>\<open>_udpPtr->\<close>: following an empty pointer is undefined behaviour.\<close>

definition arrow :: "'u wrapper \<Rightarrow> ('u \<Rightarrow> 'a result) \<Rightarrow> 'a result" where
  "arrow w f = (case udpPtr w of
      None \<Rightarrow> Inl (Undefined_behaviour ''null _udpPtr'')
    | Some p \<Rightarrow> f (sp_get p))"

definition w_fitness :: "('u, 'd) udp_class \<Rightarrow> 'd list \<Rightarrow> 'u wrapper \<Rightarrow> 'd list result" where
  "w_fitness cls dv w = arrow w (\<lambda>u. v_fitness cls u dv)"

definition w_get_bounds :: "('u, 'd) udp_class \<Rightarrow> 'u wrapper \<Rightarrow> ('d list \<times> 'd list) result" where
  "w_get_bounds cls w = arrow w (v_get_bounds cls)"

definition w_get_nec :: "('u, 'd) udp_class \<Rightarrow> 'u wrapper \<Rightarrow> nat result" where
  "w_get_nec cls w = arrow w (\<lambda>u. Inr (v_get_nec cls u))"

definition w_get_nic :: "('u, 'd) udp_class \<Rightarrow> 'u wrapper \<Rightarrow> nat result" where
  "w_get_nic cls w = arrow w (\<lambda>u. Inr (v_get_nic cls u))"

definition w_get_nobj :: "('u, 'd) udp_class \<Rightarrow> 'u wrapper \<Rightarrow> nat result" where
  "w_get_nobj cls w = arrow w (\<lambda>u. Inr (v_get_nobj cls u))"

definition w_get_nix :: "('u, 'd) udp_class \<Rightarrow> 'u wrapper \<Rightarrow> nat result" where
  "w_get_nix cls w = arrow w (\<lambda>u. Inr (v_get_nix cls u))"

definition w_batch_fitness :: "('u, 'd) udp_class \<Rightarrow> 'd list \<Rightarrow> 'u wrapper \<Rightarrow> 'd list result" where
  "w_batch_fitness cls v w = arrow w (\<lambda>u. v_batch_fitness cls u v)"

definition w_has_batch_fitness :: "('u, 'd) udp_class \<Rightarrow> 'u wrapper \<Rightarrow> bool result" where
  "w_has_batch_fitness cls w = arrow w (\<lambda>u. Inr (v_has_capability cls u Has_batch_fitness))"

definition w_has_gradient :: "('u, 'd) udp_class \<Rightarrow> 'u wrapper \<Rightarrow> bool result" where
  "w_has_gradient cls w = arrow w (\<lambda>u. Inr (v_has_capability cls u Has_gradient))"

definition w_gradient :: "('u, 'd) udp_class \<Rightarrow> 'd list \<Rightarrow> 'u wrapper \<Rightarrow> 'd list result" where
  "w_gradient cls v w = arrow w (\<lambda>u. v_gradient cls u v)"

definition w_has_gradient_sparsity :: "('u, 'd) udp_class \<Rightarrow> 'u wrapper \<Rightarrow> bool result" where
  "w_has_gradient_sparsity cls w = arrow w (\<lambda>u. Inr (v_has_capability cls u Has_gradient_sparsity))"

definition w_gradient_sparsity :: "('u, 'd) udp_class \<Rightarrow> 'u wrapper \<Rightarrow> sparsity_pattern result" where
  "w_gradient_sparsity cls w = arrow w (v_gradient_sparsity cls)"

definition w_has_hessians :: "('u, 'd) udp_class \<Rightarrow> 'u wrapper \<Rightarrow> bool result" where
  "w_has_hessians cls w = arrow w (\<lambda>u. Inr (v_has_capability cls u Has_hessians))"

definition w_hessians :: "('u, 'd) udp_class \<Rightarrow> 'd list \<Rightarrow> 'u wrapper \<Rightarrow> 'd list list result" where
  "w_hessians cls v w = arrow w (\<lambda>u. v_hessians cls u v)"

definition w_has_hessians_sparsity :: "('u, 'd) udp_class \<Rightarrow> 'u wrapper \<Rightarrow> bool result" where
  "w_has_hessians_sparsity cls w = arrow w (\<lambda>u. Inr (v_has_capability cls u Has_hessians_sparsity))"

definition w_hessians_sparsity :: "('u, 'd) udp_class \<Rightarrow> 'u wrapper \<Rightarrow> sparsity_pattern list result" where
  "w_hessians_sparsity cls w = arrow w (v_hessians_sparsity cls)"

definition w_has_set_seed :: "('u, 'd) udp_class \<Rightarrow> 'u wrapper \<Rightarrow> bool result" where
  "w_has_set_seed cls w = arrow w (\<lambda>u. Inr (v_has_capability cls u Has_set_seed))"

definition w_set_seed :: "('u, 'd) udp_class \<Rightarrow> u32 \<Rightarrow> 'u wrapper \<Rightarrow> unit result \<times> 'u wrapper" where
  "w_set_seed cls s w = (case udpPtr w of
      None \<Rightarrow> (Inl (Undefined_behaviour ''null _udpPtr''), w)
    | Some p \<Rightarrow> (let (r, u) = v_set_seed cls s (sp_get p) in (r, w\<lparr>udpPtr := Some (p\<lparr>sp_get := u\<rparr>)\<rparr>)))"

definition w_get_name :: "('u, 'd) udp_class \<Rightarrow> 'u wrapper \<Rightarrow> string result" where
  "w_get_name cls w = arrow w (\<lambda>u. Inr (v_get_name cls u))"

definition w_get_extra_info :: "('u, 'd) udp_class \<Rightarrow> 'u wrapper \<Rightarrow> string result" where
  "w_get_extra_info cls w = arrow w (\<lambda>u. Inr (v_get_extra_info cls u))"

definition w_get_thread_safety :: "('u, 'd) udp_class \<Rightarrow> 'u wrapper \<Rightarrow> thread_safety result" where
  "w_get_thread_safety cls w = arrow w (\<lambda>u. Inr (v_get_thread_safety cls u))"

section \<open>Construction and copying\<close>

definition wrapper_new :: "('p, 'u) host \<Rightarrow> string \<Rightarrow> 'p \<Rightarrow> registry \<Rightarrow> 'u wrapper result \<times> registry" where
  "wrapper_new h lib_file_name lib_object_params r =
     and_then (construct_udp h lib_file_name lib_object_params r)
       (\<lambda>p r. (Inr \<lparr>udpPtr = Some p, libFileName = lib_file_name, libFileHash = ''''\<rparr>, r))"

definition w_get_lib_file_name :: "'u wrapper \<Rightarrow> string" where
  "w_get_lib_file_name w = libFileName w"

text \<open>\<open>clone_udp\<close> of the pointer of another wrapper, which may be empty.\<close>

definition clone_ptr :: "('p, 'u) host \<Rightarrow> 'u wrapper \<Rightarrow> registry \<Rightarrow> 'u shared_obj result \<times> registry" where
  "clone_ptr h other r = (case udpPtr other of
      None \<Rightarrow> (Inl (Undefined_behaviour ''null _udpPtr''), r)
    | Some p \<Rightarrow> clone_udp h p r)"

definition wrapper_copy :: "('p, 'u) host \<Rightarrow> 'u wrapper \<Rightarrow> registry \<Rightarrow> 'u wrapper result \<times> registry" where
  "wrapper_copy h other r =
    (if libFileName other \<noteq> ''''
     then and_then (clone_ptr h other r)
            (\<lambda>p r. (Inr \<lparr>udpPtr = Some p, libFileName = libFileName other, libFileHash = ''''\<rparr>, r))
     else (Inr \<lparr>udpPtr = None, libFileName = '''', libFileHash = ''''\<rparr>, r))"

text \<open>\<open>operator=\<close> of two different objects: the object it leaves, also when \<open>clone_udp\<close> throws.\<close>

definition wrapper_assign ::
  "('p, 'u) host \<Rightarrow> 'u wrapper \<Rightarrow> 'u wrapper \<Rightarrow> registry \<Rightarrow> unit result \<times> 'u wrapper \<times> registry" where
  "wrapper_assign h this other r =
    (let w = this\<lparr>libFileName := libFileName other\<rparr>
     in if libFileName w \<noteq> ''''
        then (case clone_ptr h other r of
                (Inl e, r') \<Rightarrow> (Inl e, w, r')
              | (Inr p, r') \<Rightarrow> (Inr (), w\<lparr>udpPtr := Some p\<rparr>, r'))
        else (Inr (), w, r))"

section \<open>Serialisation\<close>

datatype ar_item = Ar_string string | Ar_udp bytes

record 'u udp_codec =
  write_udp :: "'u shared_obj option \<Rightarrow> bytes"
  read_udp :: "registry \<Rightarrow> bytes \<Rightarrow> 'u shared_obj option result"

definition read_string :: "ar_item list \<Rightarrow> (string \<times> ar_item list) result" where
  "read_string ar = (case ar of Ar_string s # rest \<Rightarrow> Inr (s, rest)
     | _ \<Rightarrow> Inl (Runtime_error ''input stream error''))"

definition read_udp_ptr ::
  "'u udp_codec \<Rightarrow> registry \<Rightarrow> ar_item list \<Rightarrow> ('u shared_obj option \<times> ar_item list) result" where
  "read_udp_ptr c r ar = (case ar of
      Ar_udp bs # rest \<Rightarrow> map_sum id (\<lambda>p. (p, rest)) (read_udp c r bs)
    | _ \<Rightarrow> Inl (Runtime_error ''input stream error''))"

definition wrapper_save ::
  "('p, 'u) host \<Rightarrow> 'u udp_codec \<Rightarrow> 'u wrapper \<Rightarrow> registry \<Rightarrow> ar_item list result \<times> registry" where
  "wrapper_save h c w r =
     and_then (get_lib_file_hash h (libFileName w) r)
       (\<lambda>hash r. let fileHash = (case hash of Some d \<Rightarrow> d | None \<Rightarrow> libFileHash w)
                 in (Inr [Ar_string fileHash, Ar_string (libFileName w), Ar_udp (write_udp c (udpPtr w))], r))"

text \<open>The three steps of \<open>load\<close>, each on the object the one before left.\<close>

definition load_steps ::
  "('p, 'u) host \<Rightarrow> 'u udp_codec \<Rightarrow> ar_item list \<Rightarrow> 'u wrapper \<Rightarrow> registry
     \<Rightarrow> ar_item list result \<times> 'u wrapper \<times> registry" where
  "load_steps h c ar w r =
    (case read_string ar of
       Inl e \<Rightarrow> (Inl e, w, r)
     | Inr (s, ar1) \<Rightarrow>
         (let w1 = w\<lparr>libFileHash := s\<rparr>
          in case read_string ar1 of
               Inl e \<Rightarrow> (Inl e, w1, r)
             | Inr (t, ar2) \<Rightarrow>
                 (let w2 = w1\<lparr>libFileName := t\<rparr>
                  in case initialize_udp h (libFileName w2) (Some (libFileHash w2)) r of
                       (Inl e, r') \<Rightarrow> (Inl e, w2, r')
                     | (Inr _, r') \<Rightarrow>
                         (case read_udp_ptr c r' ar2 of
                            Inl e \<Rightarrow> (Inl e, w2, r')
                          | Inr (p, ar3) \<Rightarrow> (Inr ar3, w2\<lparr>udpPtr := p\<rparr>, r')))))"

definition wrapper_load ::
  "('p, 'u) host \<Rightarrow> 'u udp_codec \<Rightarrow> ar_item list \<Rightarrow> 'u wrapper \<Rightarrow> registry
     \<Rightarrow> ar_item list result \<times> 'u wrapper \<times> registry" where
  "wrapper_load h c ar w r =
    (case load_steps h c ar w r of
       (Inr rest, w', r') \<Rightarrow> (Inr rest, w', r')
     | (Inl e, w', r') \<Rightarrow>
         (case wrapper_assign h w' wrapper_default r' of (_, w'', r'') \<Rightarrow> (Inl e, w'', r'')))"

section \<open>Lemmas\<close>

lemma wrapper_save_ok:
  assumes "reg_inv h r" and "relative (libFileName w)"
    and "fst (get_lib_as_file h (libFileName w) r) = Inr (Some f)"
  shows "fst (wrapper_save h c w r)
    = Inr [Ar_string (hex_digest f), Ar_string (libFileName w), Ar_udp (write_udp c (udpPtr w))]"
proof -
  have "fst (get_lib_file_hash h (libFileName w) r) = Inr (Some (hex_digest f))"
    using get_lib_file_hash_ok [OF assms(1,2)] assms(3) by simp
  then show ?thesis
    by (cases "get_lib_file_hash h (libFileName w) r") (simp add: wrapper_save_def)
qed

lemma load_steps_ok:
  "load_steps h c ar w r = (Inr rest, w', r') \<longleftrightarrow>
    (\<exists>s t bs p. ar = Ar_string s # Ar_string t # Ar_udp bs # rest
       \<and> initialize_udp h t (Some s) r = (Inr (), r') \<and> read_udp c r' bs = Inr p
       \<and> w' = \<lparr>udpPtr = p, libFileName = t, libFileHash = s\<rparr>)"
  by (cases w) (auto simp: load_steps_def read_string_def read_udp_ptr_def Let_def map_sum_Inr
      split: list.splits ar_item.splits sum.splits prod.splits)

lemma wrapper_load_ok:
  "wrapper_load h c ar w r = (Inr rest, w', r') \<longleftrightarrow> load_steps h c ar w r = (Inr rest, w', r')"
  by (auto simp: wrapper_load_def split: sum.splits prod.splits)

lemma load_steps_failed:
  "load_steps h c ar w r = (Inl e, w', r') \<Longrightarrow> udpPtr w' = udpPtr w"
  by (auto simp: load_steps_def Let_def split: sum.splits prod.splits)

section \<open>Properties\<close>

text \<open>
  C9: a problem that travels from one process to another is evaluated by the right version of
  its library. The archive carries the SHA-256 of the sender's library file; when the receiver
  has read it without an exception, its object has the sender's library name and digest, and
  the library loaded for that name comes from a file with this digest or from the file the
  provider delivered during the call.
\<close>

theorem problem_transfer:
  assumes "reg_inv hs rs" and "relative (libFileName w)"
    and "fst (get_lib_as_file hs (libFileName w) rs) = Inr (Some f)"
    and "fst (wrapper_save hs c w rs) = Inr ar"
    and "missing_not_loaded hr" and "reg_inv hr rr"
    and "wrapper_load hr c ar w0 rr = (Inr rest, w', rr')"
  shows "rest = [] \<and> libFileName w' = libFileName w \<and> libFileHash w' = hex_digest f
    \<and> read_udp c rr' (write_udp c (udpPtr w)) = Inr (udpPtr w')
    \<and> (\<exists>g l. loaded_as hr (libFileName w) g l rr'
         \<and> (hex_digest g = hex_digest f
            \<or> (\<exists>prov. udp_provider rr = Some prov \<and> prov (libFileName w) = Inr (Some g) \<and> ll_handle l \<noteq> 0)))"
proof -
  have ar: "ar = [Ar_string (hex_digest f), Ar_string (libFileName w), Ar_udp (write_udp c (udpPtr w))]"
    using wrapper_save_ok [OF assms(1-3), of c] assms(4) by simp
  from assms(7) have l: "rest = []" "initialize_udp hr (libFileName w) (Some (hex_digest f)) rr = (Inr (), rr')"
      "\<exists>p. read_udp c rr' (write_udp c (udpPtr w)) = Inr p
         \<and> w' = \<lparr>udpPtr = p, libFileName = libFileName w, libFileHash = hex_digest f\<rparr>"
    by (auto simp: wrapper_load_ok load_steps_ok ar)
  from initialize_version [OF assms(5,6,2) l(2)] l(1,3) show ?thesis by auto
qed

definition demo_codec :: "nat udp_codec" where
  "demo_codec = \<lparr>write_udp = (\<lambda>p. case p of None \<Rightarrow> [] | Some q \<Rightarrow> [of_nat (sp_get q)]),
     read_udp = (\<lambda>r bs. case bs of [] \<Rightarrow> Inr None | b # _ \<Rightarrow> Inr (Some \<lparr>sp_get = unat b, sp_deleter = 11\<rparr>))\<rparr>"

definition demo_wrapper :: "nat wrapper" where
  "demo_wrapper = \<lparr>udpPtr = Some \<lparr>sp_get = 3, sp_deleter = 11\<rparr>, libFileName = ''p'', libFileHash = ''''\<rparr>"

theorem problem_transfer_witness:
  "\<exists>ar w' r'. fst (wrapper_save demo_host demo_codec demo_wrapper (demo_registry [1])) = Inr ar
    \<and> wrapper_load demo_host demo_codec ar wrapper_default (demo_registry [1]) = (Inr [], w', r')
    \<and> libFileHash w' = hex_digest [1] \<and> map_option sp_get (udpPtr w') = Some 3"
proof -
  let ?ar = "[Ar_string (hex_digest [1]), Ar_string ''p'', Ar_udp [3]]"
  have n: "libFileName demo_wrapper = ''p''" by (simp add: demo_wrapper_def)
  have s: "fst (wrapper_save demo_host demo_codec demo_wrapper (demo_registry [1])) = Inr ?ar"
    using wrapper_save_ok [OF demo_registry_inv, of demo_wrapper "[1]" "[1]" demo_codec]
    by (simp add: n demo_rel demo_file) (simp add: demo_codec_def demo_wrapper_def)
  obtain r' where r': "initialize_udp demo_host ''p'' (Some (hex_digest [1])) (demo_registry [1]) = (Inr (), r')"
    using demo_initialize by (metis prod.collapse)
  let ?w = "\<lparr>udpPtr = Some \<lparr>sp_get = 3, sp_deleter = 11\<rparr>, libFileName = ''p'', libFileHash = hex_digest [1]\<rparr> :: nat wrapper"
  have l: "wrapper_load demo_host demo_codec ?ar wrapper_default (demo_registry [1]) = (Inr [], ?w, r')"
    by (simp add: wrapper_load_ok load_steps_ok r') (simp add: demo_codec_def)
  have "libFileHash ?w = hex_digest [1]"
    using problem_transfer [OF demo_registry_inv _ _ s demo_missing demo_registry_inv l, of "[1]"] demo_file [of "[1]"]
    by (simp add: n demo_rel)
  with s l show ?thesis by auto
qed

text \<open>
  A failed \<open>load\<close> does not leave an empty object. The handler assigns a default
  constructed wrapper, but assignment from an object without a name only clears the name: the
  pointer to the old problem stays, and so does whatever digest was read.
\<close>

theorem failed_load_keeps_old_problem:
  assumes "load_steps h c ar w r = (Inl e, w1, r1)"
  shows "wrapper_load h c ar w r = (Inl e, w1\<lparr>libFileName := ''''\<rparr>, r1) \<and> udpPtr w1 = udpPtr w"
  using assms load_steps_failed [OF assms]
  by (simp add: wrapper_load_def wrapper_assign_def wrapper_default_def)

theorem failed_load_keeps_old_problem_witness:
  "wrapper_load demo_host demo_codec [Ar_string ''ff''] demo_wrapper (demo_registry [1])
     = (Inl (Runtime_error ''input stream error''),
        \<lparr>udpPtr = Some \<lparr>sp_get = 3, sp_deleter = 11\<rparr>, libFileName = '''', libFileHash = ''ff''\<rparr>, demo_registry [1])"
proof -
  have "load_steps demo_host demo_codec [Ar_string ''ff''] demo_wrapper (demo_registry [1])
     = (Inl (Runtime_error ''input stream error''), demo_wrapper\<lparr>libFileHash := ''ff''\<rparr>, demo_registry [1])"
    by (simp add: load_steps_def read_string_def)
  from failed_load_keeps_old_problem [OF this] show ?thesis by (simp add: demo_wrapper_def)
qed

end
