(* ===== verification/Example_Problems.thy ===== *)
theory Example_Problems
  imports Dll_Wrapper
begin

text \<open>
  \<^verbatim>\<open>src/run_example/problems\<close>: the two problem libraries that come with the program,
  \<^verbatim>\<open>example_problem_single_objective\<close> and \<^verbatim>\<open>schwefel_udp\<close>. Each overrides part of \<open>udp_base\<close>
  (\<open>udp_defaults\<close>) and exports an allocator, a cloner and a hook that does nothing.

  The arithmetic of doubles is the record \<open>double_ops\<close>; pagmo's own problem \<open>pagmo::schwefel\<close>, which
  \<open>schwefel_udp\<close> wraps, is the record \<open>pagmo_schwefel\<close>. An archive is the sequence of the numbers
  written to it.
\<close>

section \<open>example_problem_single_objective\<close>

record 'd double_ops =
  d_add :: "'d \<Rightarrow> 'd \<Rightarrow> 'd"
  d_sub :: "'d \<Rightarrow> 'd \<Rightarrow> 'd"
  d_mul :: "'d \<Rightarrow> 'd \<Rightarrow> 'd"
  d_of_int :: "int \<Rightarrow> 'd"

text \<open>The class has no members.\<close>

type_synonym example_problem = unit

text \<open>The three entries, with the order in which C++ associates the operators.\<close>

definition example_values :: "'d double_ops \<Rightarrow> 'd \<Rightarrow> 'd \<Rightarrow> 'd \<Rightarrow> 'd \<Rightarrow> 'd list" where
  "example_values ops x0 x1 x2 x3 =
    (let add = d_add ops; sub = d_sub ops; mul = d_mul ops
     in [add (mul (mul x0 x3) (add (add x0 x1) x2)) x2,
         sub (add (add (add (mul x0 x0) (mul x1 x1)) (mul x2 x2)) (mul x3 x3)) (d_of_int ops 40),
         sub (d_of_int ops 25) (mul (mul (mul x0 x1) x2) x3)])"

definition example_fitness :: "'d double_ops \<Rightarrow> example_problem \<Rightarrow> 'd list \<Rightarrow> 'd list result" where
  "example_fitness ops u dv =
     bind_result (vec_index dv 0) (\<lambda>x0. bind_result (vec_index dv 3) (\<lambda>x3.
       bind_result (vec_index dv 1) (\<lambda>x1. bind_result (vec_index dv 2) (\<lambda>x2.
         Inr (example_values ops x0 x1 x2 x3)))))"

definition example_get_nec :: "example_problem \<Rightarrow> nat" where
  "example_get_nec u = 1"

definition example_get_nic :: "example_problem \<Rightarrow> nat" where
  "example_get_nic u = 1"

definition example_get_bounds :: "'d double_ops \<Rightarrow> example_problem \<Rightarrow> ('d list \<times> 'd list) result" where
  "example_get_bounds ops u = Inr (replicate 4 (d_of_int ops 1), replicate 4 (d_of_int ops 5))"

definition example_class :: "'d double_ops \<Rightarrow> (example_problem, 'd) udp_class" where
  "example_class ops = (udp_defaults (example_fitness ops) (example_get_bounds ops))
     \<lparr>v_get_nec := example_get_nec, v_get_nic := example_get_nic\<rparr>"

definition example_get_lib_file_name :: "example_problem \<Rightarrow> string" where
  "example_get_lib_file_name u = ''problems''"

definition example_allocator :: "'p \<Rightarrow> example_problem result" where
  "example_allocator params = Inr ()"

text \<open>The cloner of a null pointer is a null pointer.\<close>

definition example_cloner :: "example_problem option \<Rightarrow> example_problem option" where
  "example_cloner other = (case other of None \<Rightarrow> None | Some u \<Rightarrow> Some u)"

section \<open>schwefel_udp\<close>

record ('s, 'd) pagmo_schwefel =
  ps_new :: "u32 \<Rightarrow> 's result"
  ps_dim :: "'s \<Rightarrow> u32"
  ps_fitness :: "'s \<Rightarrow> 'd list \<Rightarrow> 'd list result"
  ps_get_bounds :: "'s \<Rightarrow> ('d list \<times> 'd list) result"

record 's schwefel_udp =
  su_schwefel :: 's

text \<open>\<open>std::any\<close>: empty, an \<open>unsigned\<close>, or something else.\<close>

datatype any_value = Any_empty | Any_unsigned u32 | Any_other

definition schwefel_udp_default :: "('s, 'd) pagmo_schwefel \<Rightarrow> 's schwefel_udp result" where
  "schwefel_udp_default ps = map_sum id (\<lambda>s. \<lparr>su_schwefel = s\<rparr>) (ps_new ps 1)"

definition schwefel_udp_new :: "('s, 'd) pagmo_schwefel \<Rightarrow> any_value \<Rightarrow> 's schwefel_udp result" where
  "schwefel_udp_new ps dim =
     bind_result (case dim of
         Any_empty \<Rightarrow> Inr 1
       | Any_unsigned n \<Rightarrow> Inr n
       | Any_other \<Rightarrow> Inl (Runtime_error ''Schwefel UDP only accepts dim (unsigned) as its parameter.''))
       (\<lambda>dimCasted. map_sum id (\<lambda>s. \<lparr>su_schwefel = s\<rparr>) (ps_new ps dimCasted))"

definition schwefel_fitness :: "('s, 'd) pagmo_schwefel \<Rightarrow> 's schwefel_udp \<Rightarrow> 'd list \<Rightarrow> 'd list result" where
  "schwefel_fitness ps u dv = ps_fitness ps (su_schwefel u) dv"

definition schwefel_get_bounds :: "('s, 'd) pagmo_schwefel \<Rightarrow> 's schwefel_udp \<Rightarrow> ('d list \<times> 'd list) result" where
  "schwefel_get_bounds ps u = ps_get_bounds ps (su_schwefel u)"

definition schwefel_class :: "('s, 'd) pagmo_schwefel \<Rightarrow> ('s schwefel_udp, 'd) udp_class" where
  "schwefel_class ps = udp_defaults (schwefel_fitness ps) (schwefel_get_bounds ps)"

definition schwefel_get_lib_file_name :: "'s schwefel_udp \<Rightarrow> string" where
  "schwefel_get_lib_file_name u = ''schwefel_udp''"

definition schwefel_allocator :: "('s, 'd) pagmo_schwefel \<Rightarrow> any_value \<Rightarrow> 's schwefel_udp result" where
  "schwefel_allocator ps params = schwefel_udp_new ps params"

definition schwefel_cloner :: "'s schwefel_udp option \<Rightarrow> 's schwefel_udp option" where
  "schwefel_cloner other = (case other of None \<Rightarrow> None | Some u \<Rightarrow> Some u)"

text \<open>
  The archive holds the dimension only. A failed \<open>load\<close> puts a default constructed problem in the
  place of the object and throws again; if the default constructor throws, that exception is left.
\<close>

definition schwefel_save :: "('s, 'd) pagmo_schwefel \<Rightarrow> 's schwefel_udp \<Rightarrow> u32 list" where
  "schwefel_save ps u = [ps_dim ps (su_schwefel u)]"

definition schwefel_load :: "('s, 'd) pagmo_schwefel \<Rightarrow> u32 list \<Rightarrow> 's schwefel_udp
    \<Rightarrow> u32 list result \<times> 's schwefel_udp" where
  "schwefel_load ps ar u =
    (case (case ar of [] \<Rightarrow> Inl (Runtime_error ''input stream error'')
           | dim # rest \<Rightarrow> map_sum id (\<lambda>s. (s, rest)) (ps_new ps dim)) of
       Inr (s, rest) \<Rightarrow> (Inr rest, u\<lparr>su_schwefel := s\<rparr>)
     | Inl e \<Rightarrow>
         (case schwefel_udp_default ps of
            Inl e' \<Rightarrow> (Inl e', u)
          | Inr u' \<Rightarrow> (Inl e, u')))"

section \<open>Lemmas\<close>

text \<open>
  What pagmo requires of a problem, seen through the wrapper: bounds of one dimension, in order; as
  many fitness values for every decision vector of this dimension as there are objectives and
  constraints; no integer part beyond the dimension, and no optional function announced that is not
  there.
\<close>

definition well_formed_problem :: "('u, 'd::order) udp_class \<Rightarrow> 'u wrapper \<Rightarrow> bool" where
  "well_formed_problem cls w \<longleftrightarrow>
     (\<exists>lb ub nobj nec nic nix.
        w_get_bounds cls w = Inr (lb, ub) \<and> lb \<noteq> [] \<and> list_all2 (\<le>) lb ub
      \<and> w_get_nobj cls w = Inr nobj \<and> w_get_nec cls w = Inr nec \<and> w_get_nic cls w = Inr nic \<and> w_get_nix cls w = Inr nix
      \<and> 0 < nobj \<and> nix \<le> length lb
      \<and> (\<forall>dv. length dv = length lb \<longrightarrow> (\<exists>f. w_fitness cls dv w = Inr f \<and> length f = nobj + nec + nic))
      \<and> w_has_gradient cls w = Inr False \<and> w_has_batch_fitness cls w = Inr False \<and> w_has_set_seed cls w = Inr False)"

text \<open>
  pagmo documents of its Schwefel problem: it exists in every dimension from one on, remembers the
  dimension, has bounds in order and one fitness value for each vector of the dimension.
\<close>

definition schwefel_ok :: "('s, 'd::order) pagmo_schwefel \<Rightarrow> bool" where
  "schwefel_ok ps \<longleftrightarrow>
     (\<forall>n. is_ok (ps_new ps n) \<longleftrightarrow> n \<noteq> 0)
   \<and> (\<forall>n s. ps_new ps n = Inr s \<longrightarrow> ps_dim ps s = n
        \<and> (\<exists>lb ub. ps_get_bounds ps s = Inr (lb, ub) \<and> length lb = unat n \<and> list_all2 (\<le>) lb ub)
        \<and> (\<forall>dv. length dv = unat n \<longrightarrow> (\<exists>f. ps_fitness ps s dv = Inr [f])))"

lemma wrapper_new_object:
  assumes "wrapper_new h n params r = (Inr w, r')"
  shows "\<exists>f u p. call_alloc (h_api h) f params = Inr u \<and> udpPtr w = Some p \<and> sp_get p = u"
  using assms
  by (auto simp: wrapper_new_def construct_udp_def and_then_def get_instance_def Let_def map_sum_Inr
      split: sum.splits prod.splits if_splits)

lemma example_well_formed:
  assumes "d_of_int ops 1 \<le> (d_of_int ops 5 :: 'd::order)" and "udpPtr w = Some p"
  shows "well_formed_problem (example_class ops) w"
proof -
  have "\<exists>f. example_fitness ops u dv = Inr f \<and> length f = 3" if "length dv = 4" for u dv
    using that by (simp add: example_fitness_def vec_index_def example_values_def Let_def)
  then show ?thesis
    using assms
    by (simp add: well_formed_problem_def w_get_bounds_def w_get_nobj_def w_get_nec_def w_get_nic_def w_get_nix_def
        w_fitness_def w_has_gradient_def w_has_batch_fitness_def w_has_set_seed_def arrow_def
        example_class_def udp_defaults_def example_get_bounds_def example_get_nec_def example_get_nic_def
        numeral_eq_Suc)
qed

lemma schwefel_well_formed:
  assumes "schwefel_ok ps" and "ps_new ps n = Inr (su_schwefel (sp_get p))" and "udpPtr w = Some p"
  shows "well_formed_problem (schwefel_class ps) w"
proof -
  let ?s = "su_schwefel (sp_get p)"
  have "n \<noteq> 0" using assms(1,2) by (auto simp: schwefel_ok_def is_ok_ex)
  then have "0 < unat n" by (simp add: unat_gt_0)
  moreover obtain lb ub where "ps_get_bounds ps ?s = Inr (lb, ub)" "length lb = unat n" "list_all2 (\<le>) lb ub"
    using assms(1,2) unfolding schwefel_ok_def by blast
  moreover have "\<exists>f. ps_fitness ps ?s dv = Inr [f]" if "length dv = unat n" for dv
    using assms(1,2) that unfolding schwefel_ok_def by blast
  ultimately show ?thesis
    using assms(3)
    by (fastforce simp: well_formed_problem_def w_get_bounds_def w_get_nobj_def w_get_nec_def w_get_nic_def w_get_nix_def
        w_fitness_def w_has_gradient_def w_has_batch_fitness_def w_has_set_seed_def arrow_def
        schwefel_class_def udp_defaults_def schwefel_get_bounds_def schwefel_fitness_def)
qed

lemma schwefel_new:
  "schwefel_udp_new ps params = Inr u \<longleftrightarrow>
     (\<exists>n. params \<noteq> Any_other \<and> n = (case params of Any_unsigned n \<Rightarrow> n | _ \<Rightarrow> 1) \<and> ps_new ps n = Inr (su_schwefel u))"
  by (cases u; cases params) (auto simp: schwefel_udp_new_def bind_result_Inr map_sum_Inr)

lemma schwefel_reload:
  assumes "schwefel_ok ps" and "ps_new ps n = Inr (su_schwefel u)"
  shows "schwefel_load ps (schwefel_save ps u @ rest) v = (Inr rest, u)"
proof -
  have "ps_dim ps (su_schwefel u) = n" using assms unfolding schwefel_ok_def by blast
  then show ?thesis using assms(2) by (cases u) (simp add: schwefel_load_def schwefel_save_def)
qed

section \<open>Properties\<close>

text \<open>
  C40: the problems that come with the program are what pagmo expects. Whatever the parameters are, a
  wrapper that could be constructed on one of the two libraries is a well-formed problem: bounds of
  one dimension, and for every decision vector of that dimension as many fitness values as it says
  it has objectives and constraints. The wrapper of \<open>schwefel_udp\<close> accepts no parameter but a
  positive dimension (one by default), and its object comes back from an archive as it was.
\<close>

theorem example_problems_well_formed:
  assumes "d_of_int ops 1 \<le> (d_of_int ops 5 :: 'd::order)"
    and "call_alloc (h_api h1) = (\<lambda>f. example_allocator)" and "wrapper_new h1 ''problems'' params1 r1 = (Inr w1, r1')"
    and "schwefel_ok ps"
    and "call_alloc (h_api h2) = (\<lambda>f. schwefel_allocator ps)" and "wrapper_new h2 ''schwefel_udp'' params2 r2 = (Inr w2, r2')"
  shows "well_formed_problem (example_class ops) w1 \<and> well_formed_problem (schwefel_class ps) w2
    \<and> params2 \<noteq> Any_other \<and> params2 \<noteq> Any_unsigned 0
    \<and> (\<exists>p. udpPtr w2 = Some p \<and> (\<forall>v rest. schwefel_load ps (schwefel_save ps (sp_get p) @ rest) v = (Inr rest, sp_get p)))"
proof -
  obtain p1 where "udpPtr w1 = Some p1" using wrapper_new_object [OF assms(3)] by blast
  moreover obtain p2 where p2: "udpPtr w2 = Some p2" "schwefel_allocator ps params2 = Inr (sp_get p2)"
    using wrapper_new_object [OF assms(6)] assms(5) by auto
  then obtain n where n: "params2 \<noteq> Any_other" "n = (case params2 of Any_unsigned n \<Rightarrow> n | _ \<Rightarrow> 1)"
      "ps_new ps n = Inr (su_schwefel (sp_get p2))"
    by (auto simp: schwefel_allocator_def schwefel_new)
  moreover have "n \<noteq> 0" using assms(4) n(3) by (auto simp: schwefel_ok_def is_ok_ex)
  ultimately show ?thesis
    using example_well_formed [OF assms(1)] schwefel_well_formed [OF assms(4) n(3) p2(1)] schwefel_reload [OF assms(4) n(3)] p2(1)
    by auto
qed

text \<open>A wrong parameter is refused, and so is dimension zero.\<close>

lemma schwefel_refuses:
  assumes "schwefel_ok ps"
  shows "schwefel_allocator ps Any_other = Inl (Runtime_error ''Schwefel UDP only accepts dim (unsigned) as its parameter.'')"
    and "\<not> is_ok (schwefel_allocator ps (Any_unsigned 0))"
  using assms by (auto simp: schwefel_allocator_def schwefel_udp_new_def bind_result_def schwefel_ok_def is_ok_ex map_sum_Inr)

section \<open>Applying the property\<close>

text \<open>Integers for doubles; Schwefel's problem reduced to its dimension.\<close>

definition int_ops :: "int double_ops" where
  "int_ops = \<lparr>d_add = (+), d_sub = (-), d_mul = (*), d_of_int = (\<lambda>i. i)\<rparr>"

definition flat_schwefel :: "(u32, int) pagmo_schwefel" where
  "flat_schwefel = \<lparr>ps_new = (\<lambda>n. if n = 0 then Inl (Invalid_argument ''dim'') else Inr n), ps_dim = (\<lambda>n. n),
     ps_fitness = (\<lambda>n dv. Inr [sum_list dv]),
     ps_get_bounds = (\<lambda>n. Inr (replicate (unat n) (-500), replicate (unat n) 500))\<rparr>"

lemma flat_schwefel_ok: "schwefel_ok flat_schwefel"
  by (auto simp: schwefel_ok_def flat_schwefel_def is_ok_ex list_all2_conv_all_nth)

definition plain_host :: "(any_value \<Rightarrow> 'u result) \<Rightarrow> (any_value, 'u) host" where
  "plain_host alloc = \<lparr>h_api = \<lparr>platform = Linux, dl_open = (\<lambda>p c. 7), dl_sym = (\<lambda>h s. 11), dl_close = (\<lambda>h. 0),
       dl_error = None, last_error = 0, call_alloc = (\<lambda>f. alloc), call_clone = (\<lambda>f u. Inr u)\<rparr>,
     can_read = (\<lambda>p. True), can_seek = (\<lambda>p. True), can_create = (\<lambda>p. True),
     written = (\<lambda>p c. length c), noticed = (\<lambda>p c. True), make_dir = (\<lambda>p. Inr ()), remove_file = (\<lambda>p. Inr True),
     lib_file_name_of = (\<lambda>u. ''p'')\<rparr>"

lemma plain_wrapper:
  assumes "alloc params = Inr u"
  shows "\<exists>r'. wrapper_new (plain_host alloc) name params (registry_new (\<lambda>p. Some [1]) [''.''])
    = (Inr \<lparr>udpPtr = Some \<lparr>sp_get = u, sp_deleter = 11\<rparr>, libFileName = name, libFileHash = ''''\<rparr>, r')"
  using assms
  by (simp add: wrapper_new_def construct_udp_def ensure_loaded_def load_lib_def registry_new_def plain_host_def Let_def
      is_lib_in_cache_def exists_path_def open_lib_def portable_dlopen_def get_instance_def ensure_after_load_def
      portable_dlsym_def lib_loader_new_def map_emplace_def map_at_def map_assign_def map_contains_def)

theorem example_problems_well_formed_witness:
  "\<exists>w. well_formed_problem (schwefel_class flat_schwefel) w \<and> w_fitness (schwefel_class flat_schwefel) [3, 4] w = Inr [7]"
proof -
  let ?r = "registry_new (\<lambda>p. Some [1]) [''.'']"
  obtain r1 where w1: "wrapper_new (plain_host example_allocator) ''problems'' Any_empty ?r
      = (Inr \<lparr>udpPtr = Some \<lparr>sp_get = (), sp_deleter = 11\<rparr>, libFileName = ''problems'', libFileHash = ''''\<rparr>, r1)"
    using plain_wrapper [of example_allocator Any_empty "()" "''problems''"] by (auto simp: example_allocator_def)
  have "schwefel_allocator flat_schwefel (Any_unsigned 2) = Inr \<lparr>su_schwefel = 2\<rparr>"
    by (simp add: schwefel_allocator_def schwefel_udp_new_def flat_schwefel_def)
  from plain_wrapper [of "schwefel_allocator flat_schwefel", OF this, of "''schwefel_udp''"] obtain r2 where
    w2: "wrapper_new (plain_host (schwefel_allocator flat_schwefel)) ''schwefel_udp'' (Any_unsigned 2) ?r
      = (Inr \<lparr>udpPtr = Some \<lparr>sp_get = \<lparr>su_schwefel = 2\<rparr>, sp_deleter = 11\<rparr>, libFileName = ''schwefel_udp'', libFileHash = ''''\<rparr>, r2)"
    by blast
  have "well_formed_problem (schwefel_class flat_schwefel)
      \<lparr>udpPtr = Some \<lparr>sp_get = \<lparr>su_schwefel = 2\<rparr>, sp_deleter = 11\<rparr>, libFileName = ''schwefel_udp'', libFileHash = ''''\<rparr>"
    using example_problems_well_formed [of int_ops, OF _ _ w1 flat_schwefel_ok _ w2]
    by (simp add: int_ops_def plain_host_def)
  then show ?thesis
    by (intro exI conjI, assumption)
      (simp add: w_fitness_def arrow_def schwefel_class_def udp_defaults_def schwefel_fitness_def flat_schwefel_def)
qed

end
