(* ===== verification/Csv_Html.thy ===== *)
theory Csv_Html
  imports Prelude
begin

text \<open>
  \<^verbatim>\<open>src/distributed/utils/include/csv_conversion.h\<close>: the conversion of a CSV text to an HTML table that
  the benchmark report is made of. The local variables of \<open>csv_to_html\<close> are a record, its loop a
  recursion over the characters that are left (\<open>++i\<close> inside the loop skips one more).
\<close>

section \<open>The conversion\<close>

record csv_state =
  html :: string
  in_quotes :: bool
  is_header :: bool
  new_cell :: bool
  new_row :: bool

definition add_html :: "string \<Rightarrow> csv_state \<Rightarrow> csv_state" where
  "add_html t s = s\<lparr>html := html s @ t\<rparr>"

definition open_row :: "csv_state \<Rightarrow> csv_state" where
  "open_row s = (if new_row s then (add_html ''<tr>'' s)\<lparr>new_row := False, new_cell := True\<rparr> else s)"

definition close_cell :: "csv_state \<Rightarrow> csv_state" where
  "close_cell s = (if \<not> new_cell s then add_html (if is_header s then ''</th>'' else ''</td>'') s else s)"

definition end_row :: "csv_state \<Rightarrow> csv_state" where
  "end_row s =
    (let s = add_html (''</tr>'' @ [CHR 0x0A]) (close_cell s);
         s = (if is_header s then add_html (''</thead>'' @ [CHR 0x0A] @ ''<tbody>'' @ [CHR 0x0A]) s else s)
     in s\<lparr>is_header := False, new_row := True, new_cell := True\<rparr>)"

definition html_char :: "char \<Rightarrow> string" where
  "html_char c =
    (if c = CHR ''<'' then ''&lt;'' else if c = CHR ''>'' then ''&gt;'' else if c = CHR ''&'' then ''&amp;''
     else if c = CHR 0x22 then ''&quot;'' else [c])"

definition put_char :: "char \<Rightarrow> csv_state \<Rightarrow> csv_state" where
  "put_char c s =
    (let s = (if new_cell s then (add_html (if is_header s then ''<th>'' else ''<td>'') s)\<lparr>new_cell := False\<rparr> else s)
     in add_html (html_char c) s)"

fun html_loop :: "string \<Rightarrow> csv_state \<Rightarrow> csv_state" where
  "html_loop [] s = s"
| "html_loop (c # rest) s =
    (let s = open_row s
     in if c = CHR 0x22 then
          (if in_quotes s \<and> rest \<noteq> [] \<and> hd rest = CHR 0x22 then html_loop (tl rest) (add_html ''&quot;'' s)
           else html_loop rest (s\<lparr>in_quotes := \<not> in_quotes s\<rparr>))
        else if c = CHR '','' \<and> \<not> in_quotes s then html_loop rest ((close_cell s)\<lparr>new_cell := True\<rparr>)
        else if (c = CHR 0x0A \<or> c = CHR 0x0D) \<and> \<not> in_quotes s then
          html_loop (if c = CHR 0x0D \<and> rest \<noteq> [] \<and> hd rest = CHR 0x0A then tl rest else rest) (end_row s)
        else html_loop rest (put_char c s))"

definition csv_start :: csv_state where
  "csv_start = \<lparr>html = ''<table>'' @ [CHR 0x0A] @ ''<thead>'' @ [CHR 0x0A],
     in_quotes = False, is_header = True, new_cell = True, new_row = True\<rparr>"

definition csv_to_html :: "string \<Rightarrow> string" where
  "csv_to_html input =
    (let s = html_loop input csv_start;
         s = (if \<not> new_row s
              then (let s = add_html (''</tr>'' @ [CHR 0x0A]) (close_cell s)
                    in if is_header s then add_html (''</thead>'' @ [CHR 0x0A] @ ''<tbody>'' @ [CHR 0x0A]) s else s)
              else s)
     in html s @ ''</tbody>'' @ [CHR 0x0A] @ ''</table>'')"

section \<open>Tables\<close>

text \<open>
  A cell as it is written to the file: its text, in quotes or not. Text in quotes may hold
  anything (a quote is doubled), text without quotes no quote and no separator.
\<close>

type_synonym cell = "bool \<times> string"

definition double_quotes :: "string \<Rightarrow> string" where
  "double_quotes t = concat (map (\<lambda>c. if c = CHR 0x22 then [c, c] else [c]) t)"

definition cell_csv :: "cell \<Rightarrow> string" where
  "cell_csv x = (if fst x then CHR 0x22 # double_quotes (snd x) @ [CHR 0x22] else snd x)"

definition cell_ok :: "cell \<Rightarrow> bool" where
  "cell_ok x \<longleftrightarrow> (\<not> fst x \<longrightarrow> set (snd x) \<inter> {CHR 0x22, CHR '','', CHR 0x0A, CHR 0x0D} = {})"

definition line_end :: "string \<Rightarrow> bool" where
  "line_end eol \<longleftrightarrow> eol = [CHR 0x0A] \<or> eol = [CHR 0x0D, CHR 0x0A] \<or> eol = [CHR 0x0D]"

fun join_with :: "string \<Rightarrow> string list \<Rightarrow> string" where
  "join_with sep [] = []"
| "join_with sep [t] = t"
| "join_with sep (t # ts) = t @ sep @ join_with sep ts"

abbreviation join_cells :: "string list \<Rightarrow> string" where
  "join_cells \<equiv> join_with '',''"

definition row_csv :: "string \<Rightarrow> cell list \<Rightarrow> string" where
  "row_csv eol xs = join_cells (map cell_csv xs) @ eol"

text \<open>
  What the conversion makes of a cell. An escaped quote is appended before it is asked whether the
  cell has to be opened, so the quotes a cell begins with stand before its tag; a cell with
  nothing behind them is not opened at all.
\<close>

definition leading_quotes :: "string \<Rightarrow> string" where
  "leading_quotes t = takeWhile (\<lambda>c. c = CHR 0x22) t"

definition cell_body :: "string \<Rightarrow> string" where
  "cell_body t = dropWhile (\<lambda>c. c = CHR 0x22) t"

definition opened_html :: "bool \<Rightarrow> string \<Rightarrow> string" where
  "opened_html h t = concat (map html_char (leading_quotes t))
     @ (if cell_body t = [] then [] else (if h then ''<th>'' else ''<td>'') @ concat (map html_char (cell_body t)))"

definition cell_html :: "bool \<Rightarrow> string \<Rightarrow> string" where
  "cell_html h t = opened_html h t @ (if cell_body t = [] then [] else if h then ''</th>'' else ''</td>'')"

lemma cell_html_plain:
  "t \<noteq> [] \<Longrightarrow> hd t \<noteq> CHR 0x22 \<Longrightarrow>
   cell_html h t = (if h then ''<th>'' else ''<td>'') @ concat (map html_char t) @ (if h then ''</th>'' else ''</td>'')"
  by (cases t) (simp_all add: cell_html_def opened_html_def leading_quotes_def cell_body_def)

lemma opened_html_simps [simp]:
  "opened_html h [] = []" "cell_body [] = []"
  "opened_html h (CHR 0x22 # t) = ''&quot;'' @ opened_html h t" "cell_body (CHR 0x22 # t) = cell_body t"
  "c \<noteq> CHR 0x22 \<Longrightarrow> opened_html h (c # t) = (if h then ''<th>'' else ''<td>'') @ html_char c @ concat (map html_char t)"
  "c \<noteq> CHR 0x22 \<Longrightarrow> cell_body (c # t) = c # t"
  by (simp_all add: opened_html_def leading_quotes_def cell_body_def html_char_def)

definition row_html :: "bool \<Rightarrow> cell list \<Rightarrow> string" where
  "row_html h xs = ''<tr>'' @ concat (map (\<lambda>x. cell_html h (snd x)) xs) @ ''</tr>'' @ [CHR 0x0A]"

definition table_html :: "cell list \<Rightarrow> cell list list \<Rightarrow> string" where
  "table_html header rows = ''<table>'' @ [CHR 0x0A] @ ''<thead>'' @ [CHR 0x0A] @ row_html True header
     @ ''</thead>'' @ [CHR 0x0A] @ ''<tbody>'' @ [CHR 0x0A] @ concat (map (row_html False) rows)
     @ ''</tbody>'' @ [CHR 0x0A] @ ''</table>''"

section \<open>The conversion of a row\<close>

lemma csv_state_eq:
  "s = \<lparr>html = html s, in_quotes = in_quotes s, is_header = is_header s, new_cell = new_cell s, new_row = new_row s\<rparr>"
  by simp

text \<open>Inside a row: the text \<open>t\<close> of a cell, whose tag is open or not (\<open>nc\<close>).\<close>

abbreviation in_row :: "string \<Rightarrow> bool \<Rightarrow> bool \<Rightarrow> bool \<Rightarrow> csv_state" where
  "in_row out q h nc \<equiv> \<lparr>html = out, in_quotes = q, is_header = h, new_cell = nc, new_row = False\<rparr>"

lemma plain_text:
  "set t \<inter> {CHR 0x22, CHR '','', CHR 0x0A, CHR 0x0D} = {} \<Longrightarrow>
   html_loop (t @ rest) (in_row out False h nc) = html_loop rest (in_row
     (if t = [] then out else out @ (if nc then if h then ''<th>'' else ''<td>'' else []) @ concat (map html_char t)) False h (nc \<and> t = []))"
  by (induction t arbitrary: out nc) (auto simp: open_row_def put_char_def add_html_def Let_def)

lemma quoted_text:
  "rest = [] \<or> hd rest \<noteq> CHR 0x22 \<Longrightarrow> \<not> nc \<Longrightarrow>
   html_loop (double_quotes t @ CHR 0x22 # rest) (in_row out True h nc)
     = html_loop rest (in_row (out @ concat (map html_char t)) False h False)"
proof (induction t arbitrary: out)
  case Nil
  then show ?case by (auto simp: double_quotes_def open_row_def)
next
  case (Cons c t)
  show ?case
  proof (cases "c = CHR 0x22")
    case True
    then show ?thesis using Cons by (simp add: double_quotes_def open_row_def add_html_def html_char_def Let_def)
  next
    case False
    then show ?thesis using Cons by (simp add: double_quotes_def open_row_def put_char_def add_html_def Let_def)
  qed
qed

text \<open>Between the quotes before the cell is opened: the quotes the text begins with are appended at once.\<close>

lemma unopened_text:
  assumes "rest = [] \<or> hd rest \<noteq> CHR 0x22"
  shows "html_loop (double_quotes t @ CHR 0x22 # rest) (in_row out True h True)
     = html_loop rest (in_row (out @ opened_html h t) False h (cell_body t = []))"
proof (induction t arbitrary: out)
  case Nil
  then show ?case using assms by (auto simp: double_quotes_def open_row_def)
next
  case (Cons c t)
  have dq: "double_quotes (d # t) = (if d = CHR 0x22 then [d, d] else [d]) @ double_quotes t" for d
    by (simp add: double_quotes_def)
  show ?case
  proof (cases "c = CHR 0x22")
    case True
    then show ?thesis using Cons.IH by (simp add: dq open_row_def add_html_def)
  next
    case False
    then show ?thesis
      using quoted_text [OF assms, of False t "out @ (if h then ''<th>'' else ''<td>'') @ html_char c" h]
      by (simp add: dq open_row_def put_char_def add_html_def Let_def)
  qed
qed

lemma plain_opened:
  "set t \<inter> {CHR 0x22, CHR '','', CHR 0x0A, CHR 0x0D} = {} \<Longrightarrow>
   html_loop (t @ rest) (in_row out False h True) = html_loop rest (in_row (out @ opened_html h t) False h (cell_body t = []))"
  using plain_text [of t rest out h True] by (cases t) (auto simp del: html_loop.simps)

lemma cell_text:
  assumes "cell_ok x" and "rest = [] \<or> hd rest \<noteq> CHR 0x22"
  shows "html_loop (cell_csv x @ rest) (in_row out False h True)
    = html_loop rest (in_row (out @ opened_html h (snd x)) False h (cell_body (snd x) = []))"
proof (cases "fst x")
  case False
  then show ?thesis using assms(1) plain_opened [of "snd x"] by (simp add: cell_csv_def cell_ok_def)
next
  case True
  then show ?thesis using unopened_text [OF assms(2), of "snd x" out h] by (simp add: cell_csv_def open_row_def)
qed

lemma end_of_row:
  assumes "line_end eol" and "eol = [CHR 0x0D] \<Longrightarrow> rest = [] \<or> hd rest \<noteq> CHR 0x0A"
  shows "html_loop (eol @ rest) (in_row out False h nc) = html_loop rest (end_row (in_row out False h nc))"
  using assms by (auto simp: open_row_def line_end_def)

lemma line_end_chars: "line_end eol \<Longrightarrow> eol \<noteq> [] \<and> hd (eol @ rest) \<noteq> CHR 0x22"
  by (auto simp: line_end_def)

text \<open>A row up to its last cell, and the end of the row.\<close>

definition opened_row :: "bool \<Rightarrow> cell list \<Rightarrow> string" where
  "opened_row h xs = concat (map (\<lambda>x. cell_html h (snd x)) (butlast xs)) @ opened_html h (snd (last xs))"

lemma cells_text:
  assumes "rest = [] \<or> hd rest \<noteq> CHR 0x22"
  shows "xs \<noteq> [] \<Longrightarrow> list_all cell_ok xs \<Longrightarrow>
    html_loop (join_cells (map cell_csv xs) @ rest) (in_row out False h True)
      = html_loop rest (in_row (out @ opened_row h xs) False h (cell_body (snd (last xs)) = []))"
proof (induction xs arbitrary: out rule: induct_list012)
  case 1
  then show ?case by simp
next
  case (2 x)
  then show ?case using assms by (simp add: opened_row_def cell_text)
next
  case (3 x y ys)
  let ?rest = "join_cells (map cell_csv (y # ys)) @ rest"
  have "html_loop (cell_csv x @ CHR '','' # ?rest) (in_row out False h True)
      = html_loop (CHR '','' # ?rest) (in_row (out @ opened_html h (snd x)) False h (cell_body (snd x) = []))"
    by (rule cell_text) (use 3 in auto)
  also have "\<dots> = html_loop ?rest (in_row (out @ cell_html h (snd x)) False h True)"
    by (simp add: open_row_def close_cell_def add_html_def cell_html_def)
  finally show ?case using 3 by (simp add: opened_row_def)
qed

lemma opened_row_closed:
  "xs \<noteq> [] \<Longrightarrow> opened_row h xs @ (if cell_body (snd (last xs)) = [] then [] else if h then ''</th>'' else ''</td>'')
    = concat (map (\<lambda>x. cell_html h (snd x)) xs)"
  by (cases xs rule: rev_cases) (simp_all add: opened_row_def cell_html_def)

text \<open>Between two rows.\<close>

abbreviation row_start :: "string \<Rightarrow> bool \<Rightarrow> csv_state" where
  "row_start out h \<equiv> \<lparr>html = out, in_quotes = False, is_header = h, new_cell = True, new_row = True\<rparr>"

lemma csv_loop_open: "t \<noteq> [] \<Longrightarrow> html_loop t (row_start out h) = html_loop t (in_row (out @ ''<tr>'') False h True)"
  by (cases t) (simp_all add: open_row_def add_html_def)

abbreviation head_html :: "bool \<Rightarrow> string" where
  "head_html h \<equiv> (if h then ''</thead>'' @ [CHR 0x0A] @ ''<tbody>'' @ [CHR 0x0A] else [])"

definition row_ok :: "cell list \<Rightarrow> bool" where
  "row_ok xs \<longleftrightarrow> xs \<noteq> [] \<and> list_all cell_ok xs"

lemma row_text:
  assumes eol: "line_end eol" and ok: "row_ok xs"
    and rest: "eol = [CHR 0x0D] \<Longrightarrow> rest = [] \<or> hd rest \<noteq> CHR 0x0A"
  shows "html_loop (row_csv eol xs @ rest) (row_start out h)
    = html_loop rest (row_start (out @ row_html h xs @ head_html h) False)"
proof -
  let ?b = "cell_body (snd (last xs)) = []"
  have xs: "xs \<noteq> []" "list_all cell_ok xs" using ok by (simp_all add: row_ok_def)
  have "row_csv eol xs @ rest \<noteq> []" using line_end_chars [OF eol] by (simp add: row_csv_def)
  then have "html_loop (row_csv eol xs @ rest) (row_start out h)
      = html_loop (join_cells (map cell_csv xs) @ eol @ rest) (in_row (out @ ''<tr>'') False h True)"
    by (simp add: csv_loop_open row_csv_def)
  also have "\<dots> = html_loop (eol @ rest) (in_row (out @ ''<tr>'' @ opened_row h xs) False h ?b)"
    by (subst cells_text) (use xs line_end_chars [OF eol, of rest] in auto)
  also have "\<dots> = html_loop rest (end_row (in_row (out @ ''<tr>'' @ opened_row h xs) False h ?b))"
    by (rule end_of_row [OF eol rest])
  also have "end_row (in_row (out @ ''<tr>'' @ opened_row h xs) False h ?b) = row_start (out @ row_html h xs @ head_html h) False"
    by (simp add: end_row_def close_cell_def add_html_def Let_def row_html_def opened_row_closed [OF xs(1), symmetric])
  finally show ?thesis .
qed

lemma last_row_text:
  assumes ok: "row_ok xs" and line: "row_csv [] xs \<noteq> []"
  shows "html_loop (row_csv [] xs) (row_start out h)
    = in_row (out @ ''<tr>'' @ opened_row h xs) False h (cell_body (snd (last xs)) = [])"
  using ok line cells_text [of "[]" xs "out @ ''<tr>''" h] by (simp add: csv_loop_open row_csv_def row_ok_def)

text \<open>A row never starts with a line feed when the rows end with a carriage return alone.\<close>

lemma row_starts:
  "row_ok xs \<Longrightarrow> hd (row_csv [CHR 0x0D] xs) \<noteq> CHR 0x0A \<and> row_csv [CHR 0x0D] xs \<noteq> []"
  by (cases xs rule: remdups_adj.cases; cases "snd (hd xs)") (auto simp: row_ok_def row_csv_def cell_csv_def cell_ok_def)

lemma rows_start:
  assumes "list_all row_ok rows" and "rest = [] \<or> hd rest \<noteq> CHR 0x0A"
  shows "concat (map (row_csv [CHR 0x0D]) rows) @ rest = [] \<or> hd (concat (map (row_csv [CHR 0x0D]) rows) @ rest) \<noteq> CHR 0x0A"
  using assms row_starts by (cases rows) auto

lemma rows_text:
  assumes eol: "line_end eol" and rest: "eol = [CHR 0x0D] \<Longrightarrow> rest = [] \<or> hd rest \<noteq> CHR 0x0A"
  shows "list_all row_ok rows \<Longrightarrow>
    html_loop (concat (map (row_csv eol) rows) @ rest) (row_start out False)
      = html_loop rest (row_start (out @ concat (map (row_html False) rows)) False)"
proof (induction rows arbitrary: out)
  case Nil
  then show ?case by simp
next
  case (Cons xs rows)
  have "html_loop (row_csv eol xs @ concat (map (row_csv eol) rows) @ rest) (row_start out False)
      = html_loop (concat (map (row_csv eol) rows) @ rest) (row_start (out @ row_html False xs @ head_html False) False)"
    by (rule row_text [OF eol]) (use Cons.prems rest rows_start [of rows rest] in auto)
  then show ?case using Cons by simp
qed

text \<open>The header and the rows below it; the header closes the head of the table.\<close>

lemma table_text:
  assumes eol: "line_end eol" and rest: "eol = [CHR 0x0D] \<Longrightarrow> rest = [] \<or> hd rest \<noteq> CHR 0x0A"
    and ok: "row_ok header" "list_all row_ok rows"
  shows "html_loop (concat (map (row_csv eol) (header # rows)) @ rest) csv_start
      = html_loop rest (row_start (html csv_start @ row_html True header @ head_html True @ concat (map (row_html False) rows)) False)"
proof -
  have "html_loop (row_csv eol header @ concat (map (row_csv eol) rows) @ rest) (row_start (html csv_start) True)
      = html_loop (concat (map (row_csv eol) rows) @ rest) (row_start (html csv_start @ row_html True header @ head_html True) False)"
    by (rule row_text [OF eol ok(1)]) (use rows_start [OF ok(2)] rest in auto)
  then show ?thesis using rows_text [OF eol rest ok(2)] by (simp add: csv_start_def)
qed

lemma csv_table:
  assumes "line_end eol" and "row_ok header" and "list_all row_ok rows"
  shows "csv_to_html (concat (map (row_csv eol) (header # rows))) = table_html header rows"
  using table_text [OF assms(1) _ assms(2,3), of "[]"] by (simp add: csv_to_html_def Let_def table_html_def csv_start_def)

lemma csv_table_open:
  assumes eol: "line_end eol" and ok: "list_all row_ok (header # rows)" and line: "row_csv [] (last (header # rows)) \<noteq> []"
  shows "csv_to_html (concat (map (row_csv eol) (butlast (header # rows))) @ row_csv [] (last (header # rows)))
    = table_html header rows"
proof (cases rows rule: rev_cases)
  case Nil
  then show ?thesis using ok line last_row_text [of header "html csv_start" True]
    by (simp add: csv_to_html_def Let_def table_html_def csv_start_def close_cell_def add_html_def row_html_def
        row_ok_def opened_row_closed [symmetric])
next
  case (snoc rs xs)
  have xs: "row_ok xs" "row_csv [] xs \<noteq> []" and rs: "row_ok header" "list_all row_ok rs"
    using ok line snoc by simp_all
  have start: "row_csv [] xs = [] \<or> hd (row_csv [] xs) \<noteq> CHR 0x0A"
    using row_starts [OF xs(1)] xs(2) by (auto simp: row_csv_def)
  show ?thesis
    using snoc table_text [OF eol _ rs, of "row_csv [] xs"] start last_row_text [OF xs] xs(1)
    by (simp add: csv_to_html_def Let_def table_html_def csv_start_def close_cell_def add_html_def row_html_def
        row_ok_def opened_row_closed [symmetric])
qed

section \<open>Properties\<close>

text \<open>
  C35: what the conversion shows of a table. For a table of any number of rows, each of at least
  one cell, whose cells hold any text between quotes or, without quotes, any text with no quote,
  comma or line ending in it, and with any of the three line endings (behind the last row it may
  be missing, unless that row is an empty line), the result is the HTML table with the same rows,
  every character escaped, and the cells in order, with two faults of the code that
  \<^theory_text>\<open>cell_html\<close> pins down: an empty cell leaves no trace, and the cells behind it move to the
  column on its left; and the quotes a cell begins with are written before its tag, outside of
  any cell.
\<close>

theorem csv_to_html_table:
  assumes "line_end eol" and "list_all row_ok (header # rows)"
  shows "csv_to_html (concat (map (row_csv eol) (header # rows))) = table_html header rows
    \<and> (row_csv [] (last (header # rows)) \<noteq> [] \<longrightarrow>
        csv_to_html (concat (map (row_csv eol) (butlast (header # rows))) @ row_csv [] (last (header # rows)))
          = table_html header rows)"
  using csv_table [OF assms(1), of header rows] csv_table_open [OF assms] assms(2) by simp

theorem csv_to_html_table_witness:
  "csv_to_html (''ID,Value'' @ [CHR 0x0A] @ ''a,'' @ [CHR 0x22] @ ''1;<2'' @ [CHR 0x22, CHR 0x0A] @ '',7'' @ [CHR 0x0A])
     = table_html [(False, ''ID''), (False, ''Value'')] [[(False, ''a''), (True, ''1;<2'')], [(False, ''7'')]]
   \<and> csv_to_html (''ID,Value'' @ [CHR 0x0D, CHR 0x22, CHR 0x22, CHR 0x22, CHR ''x'', CHR 0x22, CHR 0x22, CHR 0x22])
     = ''<table>'' @ [CHR 0x0A] @ ''<thead>'' @ [CHR 0x0A] @ ''<tr><th>ID</th><th>Value</th></tr>'' @ [CHR 0x0A]
       @ ''</thead>'' @ [CHR 0x0A] @ ''<tbody>'' @ [CHR 0x0A] @ ''<tr>&quot;<td>x&quot;</td></tr>'' @ [CHR 0x0A]
       @ ''</tbody>'' @ [CHR 0x0A] @ ''</table>''"
  using csv_to_html_table [of "[CHR 0x0A]" "[(False, ''ID''), (False, ''Value'')]"
      "[[(False, ''a''), (True, ''1;<2'')], [(False, ''''), (False, ''7'')]]"]
    csv_to_html_table [of "[CHR 0x0D]" "[(False, ''ID''), (False, ''Value'')]" "[[(True, [CHR 0x22, CHR ''x'', CHR 0x22])]]"]
  by (simp add: row_csv_def cell_csv_def cell_ok_def row_ok_def line_end_def double_quotes_def table_html_def row_html_def
      cell_html_def html_char_def)

end
