(* ===== verification/Path_Normalizer.thy ===== *)
theory Path_Normalizer
  imports Prelude "HOL-Library.While_Combinator"
begin

text \<open>
  \<^verbatim>\<open>src/distributed/utils/include/path_normalizer.h\<close>: \<open>win_normalize_filename\<close>, which turns the last
  component of a path into a name Windows accepts. The \<open>while\<close> loop of the source is the library's
  \<open>while\<close>, about which the termination theorem says that it returns. Paths are POSIX paths.
\<close>

section \<open>The function\<close>

definition WIN_RESERVED_KEYWORDS :: "string list" where
  "WIN_RESERVED_KEYWORDS =
    [''CON'', ''PRN'', ''AUX'', ''NUL'', ''COM1'', ''COM2'', ''COM3'', ''COM4'', ''COM5'', ''COM6'', ''COM7'', ''COM8'', ''COM9'', ''LPT1'', ''LPT2'',
     ''LPT3'', ''LPT4'', ''LPT5'', ''LPT6'', ''LPT7'', ''LPT8'', ''LPT9'']"

definition WIN_RESERVED_SYMBOLS :: string where
  "WIN_RESERVED_SYMBOLS = [CHR ''<'', CHR ''>'', CHR '':'', CHR 0x22, CHR ''/'', CHR 0x5C, CHR ''|'', CHR ''?'', CHR ''*'']"

text \<open>\<open>std::toupper\<close> in the "C" locale.\<close>

definition toupper :: "char \<Rightarrow> char" where
  "toupper c = (if 97 \<le> (of_char c :: nat) \<and> (of_char c :: nat) \<le> 122 then char_of ((of_char c :: nat) - 32) else c)"

definition replace_symbols :: "string \<Rightarrow> string" where
  "replace_symbols s = map (\<lambda>c. if c \<in> set WIN_RESERVED_SYMBOLS then CHR ''_'' else c) s"

definition loose_end :: "string \<Rightarrow> bool" where
  "loose_end s \<longleftrightarrow> s \<noteq> [] \<and> (last s = CHR '' '' \<or> last s = CHR ''.'')"

definition normalize_name :: "string \<Rightarrow> string" where
  "normalize_name name =
    (let s = while loose_end butlast (replace_symbols name);
         s = (if s = [] then ''file'' else s);
         upper = map toupper s
     in if upper \<in> set WIN_RESERVED_KEYWORDS then CHR ''_'' # s else s)"

definition win_normalize_filename :: "string \<Rightarrow> string" where
  "win_normalize_filename p = path_append (path_parent p) (normalize_name (path_filename p))"

section \<open>Names Windows accepts\<close>

definition legal_name :: "string \<Rightarrow> bool" where
  "legal_name s \<longleftrightarrow> s \<noteq> [] \<and> set s \<inter> set WIN_RESERVED_SYMBOLS = {} \<and> \<not> loose_end s
     \<and> map toupper s \<notin> set WIN_RESERVED_KEYWORDS"

lemma stripping_ends: "\<exists>t. while_option loose_end butlast s = Some t"
  using measure_while_option_Some [of "\<lambda>_. True" loose_end butlast length s] by (auto simp: loose_end_def)

lemma stripped: "while_option loose_end butlast s = Some t \<Longrightarrow> \<not> loose_end t \<and> set t \<subseteq> set s"
  by (rule conjI [OF while_option_stop], assumption)
    (rule while_option_rule [where P = "\<lambda>t. set t \<subseteq> set s"], auto dest: in_set_butlastD)

lemma stripping_while: "while loose_end butlast s = the (while_option loose_end butlast s)"
  by (simp add: while_def)

lemma not_loose_stays: "\<not> loose_end s \<Longrightarrow> while loose_end butlast s = s"
  by (simp add: while_unfold)

lemma replaced: "set (replace_symbols s) \<inter> set WIN_RESERVED_SYMBOLS = {}"
  by (auto simp: replace_symbols_def WIN_RESERVED_SYMBOLS_def)

lemma replaced_id: "set s \<inter> set WIN_RESERVED_SYMBOLS = {} \<Longrightarrow> replace_symbols s = s"
  by (auto simp: replace_symbols_def intro!: map_idI)

lemma underscore_free: "CHR ''_'' # u \<notin> set WIN_RESERVED_KEYWORDS"
  by (simp add: WIN_RESERVED_KEYWORDS_def)

lemma toupper_underscore: "toupper (CHR ''_'') = CHR ''_''"
  by (simp add: toupper_def)

lemma normalize_legal: "legal_name (normalize_name s)"
proof -
  obtain t where t: "while_option loose_end butlast (replace_symbols s) = Some t" using stripping_ends by blast
  then have w: "while loose_end butlast (replace_symbols s) = t" by (simp add: stripping_while)
  define u where "u = (if t = [] then ''file'' else t)"
  have u: "u \<noteq> []" "set u \<inter> set WIN_RESERVED_SYMBOLS = {}" "\<not> loose_end u"
    using stripped [OF t] replaced [of s] by (auto simp: u_def loose_end_def WIN_RESERVED_SYMBOLS_def)
  have n: "normalize_name s = (if map toupper u \<in> set WIN_RESERVED_KEYWORDS then CHR ''_'' # u else u)"
    by (simp add: normalize_name_def w u_def Let_def)
  have "legal_name (CHR ''_'' # u)"
    using u underscore_free by (auto simp: legal_name_def loose_end_def WIN_RESERVED_SYMBOLS_def toupper_underscore)
  then show ?thesis using u unfolding n by (simp add: legal_name_def)
qed

lemma normalize_id: "legal_name s \<Longrightarrow> normalize_name s = s"
  by (simp add: normalize_name_def legal_name_def replaced_id not_loose_stays Let_def)

section \<open>Properties\<close>

text \<open>
  C37: file names are made legal and legal ones are kept. The loop that strips blanks and dots
  ends for every name; whatever the path is, the result keeps the directory and ends in a name
  that is not empty, has none of the reserved characters, does not end in a blank or a dot and is
  no reserved word in any case of letters; a name that has all this is not changed, so doing it
  twice changes nothing more.
\<close>

theorem normalized_names_are_legal:
  "while_option loose_end butlast (replace_symbols (path_filename p)) \<noteq> None
   \<and> path_parent (win_normalize_filename p) = path_parent p
   \<and> legal_name (path_filename (win_normalize_filename p))
   \<and> win_normalize_filename (win_normalize_filename p) = win_normalize_filename p"
proof -
  let ?n = "normalize_name (path_filename p)"
  have legal: "legal_name ?n" by (rule normalize_legal)
  then have "CHR ''/'' \<notin> set ?n" "?n \<noteq> []" by (auto simp: legal_name_def WIN_RESERVED_SYMBOLS_def)
  note split = path_append_split [OF this path_parent_cases [of p]]
  show ?thesis
    using split legal stripping_ends [of "replace_symbols (path_filename p)"]
    by (simp add: win_normalize_filename_def normalize_id)
qed

text \<open>A reserved word followed by an extension is left as it is.\<close>

lemma reserved_with_extension: "normalize_name ''con.txt'' = ''con.txt''"
  by (rule normalize_id)
    (simp add: legal_name_def loose_end_def WIN_RESERVED_SYMBOLS_def WIN_RESERVED_KEYWORDS_def toupper_def)

end
