(* ===== verification/Benchmark.thy ===== *)
theory Benchmark
  imports Population_Tools Csv_Html Path_Normalizer
begin

text \<open>
  \<^verbatim>\<open>src/distributed/benchmark\<close>: collecting the results of runs of the solver, their statistics as CSV
  texts and the HTML report, and the runs themselves.

  A benchmark works on a solver through its member functions, the record \<open>bench_solver\<close>; pagmo's
  functions are \<open>pagmo\<close> of \<open>Population_Tools\<close> and \<open>bench_env\<close>, which also has the arithmetic and the
  printing of doubles. The clock is an argument. What is printed to the console is left out.
\<close>

section \<open>\<^verbatim>\<open>benchmark_results_html\<close>\<close>

text \<open>A raw string literal, given by its lines.\<close>

fun lines_of :: "string list \<Rightarrow> string" where
  "lines_of [] = []"
| "lines_of [l] = l"
| "lines_of (l # ls) = l @ CHR 0x0A # lines_of ls"

definition HTML_HEAD :: string where \<open>
  HTML_HEAD = lines_of
    ['''',
     ''       <head>'',
     ''        <meta charset="UTF-8">'',
     ''        <meta name="viewport" content="width=device-width, initial-scale=1.0">'',
     ''        <meta http-equiv="X-UA-Compatible" content="ie=edge">'',
     ''        <style>'',
     ''        table {'',
     ''            width: 100%;'',
     ''            border-collapse: collapse;'',
     ''            margin: 1em 0;'',
     ''            font-family: Arial, sans-serif;'',
     ''            font-size: 14px;'',
     ''            border: 1px solid #ddd;'',
     ''        }'',
     ''        th {'',
     ''            background-color: #f4f4f4;'',
     ''            text-align: left;'',
     ''            padding: 10px;'',
     ''            border-bottom: 2px solid #ccc;'',
     ''        }'',
     ''        td {'',
     ''            padding: 10px;'',
     ''            border-bottom: 1px solid #ddd;'',
     ''        }'',
     ''        tr:nth-child(even) {'',
     ''            background-color: #fafafa;'',
     ''        }'',
     ''        tr:hover {'',
     ''            background-color: #f1f7ff;'',
     ''        }'',
     ''        th {'',
     ''            position: sticky;'',
     ''            top: 0;'',
     ''            z-index: 1;'',
     ''        }'',
     ''        table {'',
     ''            border-radius: 6px;'',
     ''            overflow: hidden;'',
     ''        }'',
     ''        </style>'',
     ''        <title>Distributed benchmark results</title>'',
     ''      </head>'',
     '''']\<close>

definition TABLE_SORTING_SCRIPT :: string where \<open>
  TABLE_SORTING_SCRIPT = lines_of
    ['''',
     ''    <script>'',
     ''    (function () {'',
     ''        let sortState = new WeakMap();'',
     '''',
     ''        function getCellValue(row, index) {'',
     ''            return row.cells[index].innerText.trim();'',
     ''        }'',
     '''',
     ''        function isNumeric(value) {'',
     ''            return !isNaN(parseFloat(value)) && isFinite(value);'',
     ''        }'',
     '''',
     ''        function sortTable(table, columnIndex) {'',
     ''            const tbody = table.tBodies[0];'',
     ''            if (!tbody) return;'',
     '''',
     ''            const rows = Array.from(tbody.rows);'',
     '''',
     ''            let state = sortState.get(table) || {};'',
     ''            state[columnIndex] = !state[columnIndex];'',
     ''            sortState.set(table, state);'',
     '''',
     ''            const asc = state[columnIndex];'',
     '''',
     ''            rows.sort((a, b) => {'',
     ''                let x = getCellValue(a, columnIndex);'',
     ''                let y = getCellValue(b, columnIndex);'',
     '''',
     ''                if (isNumeric(x) && isNumeric(y)) {'',
     ''                    return asc ? x - y : y - x;'',
     ''                }'',
     '''',
     ''                return asc'',
     ''                    ? x.localeCompare(y)'',
     ''                    : y.localeCompare(x);'',
     ''            });'',
     '''',
     ''            rows.forEach(row => tbody.appendChild(row));'',
     ''        }'',
     '''',
     ''        function init() {'',
     ''            document.querySelectorAll("table").forEach(table => {'',
     ''                const headers = table.querySelectorAll("th");'',
     '''',
     ''                headers.forEach((th, index) => {'',
     ''                    th.style.cursor = "pointer";'',
     '''',
     ''                    th.addEventListener("click", () => {'',
     ''                        sortTable(table, index);'',
     ''                    });'',
     ''                });'',
     ''            });'',
     ''        }'',
     '''',
     ''        if (document.readyState === "loading") {'',
     ''            document.addEventListener("DOMContentLoaded", init);'',
     ''        } else {'',
     ''            init();'',
     ''        }'',
     ''    })();'',
     ''    </script>'',
     '''']\<close>

type_synonym sections = "(string \<times> string) list"

definition add_section :: "string \<Rightarrow> string \<Rightarrow> sections \<Rightarrow> sections" where
  "add_section htmlTable sectionName s = s @ [(htmlTable, sectionName)]"

fun sections_html :: "sections \<Rightarrow> string" where
  "sections_html [] = []"
| "sections_html ((tableHtml, sectionName) # rest) =
     ''<section>'' @ ''<h1>'' @ sectionName @ ''</h1>'' @ [CHR 0x0A] @ tableHtml @ [CHR 0x0A] @ ''</section>'' @ sections_html rest"

definition build_base :: "sections \<Rightarrow> string" where \<open>
  build_base s =
    lines_of ['''', ''    <!DOCTYPE html>'', ''    <html lang="en">'', ''      ''] @ HTML_HEAD
    @ lines_of ['''', ''      <body>'', ''      ''] @ sections_html s
    @ lines_of ['''', ''      ''] @ TABLE_SORTING_SCRIPT
    @ lines_of ['''', ''      </body>'', ''    </html>'', ''    '']\<close>

definition get_html_page :: "sections \<Rightarrow> string" where
  "get_html_page s = build_base s"

section \<open>\<^verbatim>\<open>benchmark_stats\<close>\<close>

record ('prob, 'd) bench_env =
  be_fitness :: "'prob \<Rightarrow> 'd list \<Rightarrow> 'd list result"
  be_name :: "'prob \<Rightarrow> string"
  be_fast_non_dominated :: "'d list list \<Rightarrow> (nat list \<times> nat list) result"
  be_crowding_distance :: "'d list list \<Rightarrow> 'd list result"
  be_hv_contributions :: "'d list list \<Rightarrow> 'd list result"
  be_to_string :: "'d \<Rightarrow> string"
  be_format_double :: "'d \<Rightarrow> string"
  be_is_inf :: "'d \<Rightarrow> bool"
  be_zero :: 'd
  be_decline :: "'d \<Rightarrow> 'd \<Rightarrow> 'd"
  be_percent :: "'d \<Rightarrow> 'd"

record ('prob, 'd) bench =
  bn_problem :: 'prob
  bn_dataPoints :: "'d list list"
  bn_pointIDs :: "string list"
  bn_elapsedTimes :: "'d list"
  bn_csvStatsBuffer :: "(string \<times> string) list"

definition benchmark_stats_new :: "'prob \<Rightarrow> ('prob, 'd) bench" where
  "benchmark_stats_new problem =
     \<lparr>bn_problem = problem, bn_dataPoints = [], bn_pointIDs = [], bn_elapsedTimes = [], bn_csvStatsBuffer = []\<rparr>"

definition set_problem :: "'prob \<Rightarrow> ('prob, 'd) bench \<Rightarrow> ('prob, 'd) bench" where
  "set_problem problem b = b\<lparr>bn_problem := problem\<rparr>"

definition add_data_point :: "'d list \<Rightarrow> string \<Rightarrow> 'd \<Rightarrow> ('prob, 'd) bench \<Rightarrow> ('prob, 'd) bench" where
  "add_data_point result pointID elapsedTime b =
     b\<lparr>bn_dataPoints := bn_dataPoints b @ [result], bn_pointIDs := bn_pointIDs b @ [pointID],
       bn_elapsedTimes := bn_elapsedTimes b @ [elapsedTime]\<rparr>"

definition clear_current_measurement :: "('prob, 'd) bench \<Rightarrow> ('prob, 'd) bench" where
  "clear_current_measurement b = b\<lparr>bn_dataPoints := [], bn_pointIDs := [], bn_elapsedTimes := []\<rparr>"

definition clear_all_results :: "('prob, 'd) bench \<Rightarrow> ('prob, 'd) bench" where
  "clear_all_results b = b\<lparr>bn_csvStatsBuffer := []\<rparr>"

text \<open>The column with the differences to the best individual, in percent.\<close>

fun percentages :: "('prob, 'd) bench_env \<Rightarrow> 'd list \<Rightarrow> nat list \<Rightarrow> 'd list \<Rightarrow> string \<Rightarrow> string result" where
  "percentages env fitness [] best output = Inr output"
| "percentages env fitness (j # js) best output =
    bind_result (vec_index fitness j)
      (\<lambda>f. (let decline = (if best ! j \<noteq> be_zero env then be_decline env f (best ! j) else be_zero env)
            in percentages env fitness js best
                 (output @ be_format_double env (be_percent env decline) @ ''%''
                    @ (if j + 1 < length best then '';'' else ''''))))"

text \<open>The columns of a problem with several objectives: ranks, domination counts, distances, contributions.\<close>

type_synonym 'd mo_metrics = "nat list \<times> nat list \<times> 'd list \<times> 'd list"

definition mo_columns :: "('prob, 'd) bench_env \<Rightarrow> 'd mo_metrics \<Rightarrow> nat \<Rightarrow> string result" where
  "mo_columns env m i =
    (case m of (ranks, domCounts, crowdDists, hvContributions) \<Rightarrow>
       bind_result (vec_index ranks i) (\<lambda>rank.
       bind_result (vec_index domCounts i) (\<lambda>count.
       bind_result (vec_index crowdDists i) (\<lambda>dst.
       bind_result (vec_index hvContributions i) (\<lambda>hv.
         Inr ('','' @ nat_str rank @ '','' @ nat_str count
              @ '','' @ (if be_is_inf env dst then ''Inf'' else be_format_double env dst)
              @ '','' @ be_format_double env hv))))))"

definition row_text_of :: "('prob, 'd) bench_env \<Rightarrow> bool \<Rightarrow> 'd mo_metrics \<Rightarrow> 'd list \<Rightarrow> nat \<Rightarrow> 'd list \<times> 'd list \<times> string \<times> 'd \<Rightarrow> string result" where
  "row_text_of env isMultiObjective m best i row =
    (case row of (point, fitness, pointID, elapsed) \<Rightarrow>
       bind_result (percentages env fitness [0..<length best] best [CHR 0x22])
         (\<lambda>p. bind_result (if isMultiObjective \<and> fst m \<noteq> [] then mo_columns env m i else Inr '''')
           (\<lambda>mo. Inr (pointID @ '','' @ double_vector_to_csv (be_to_string env) point
                      @ '','' @ double_vector_to_csv (be_to_string env) fitness @ '','' @ p @ [CHR 0x22]
                      @ '','' @ be_format_double env elapsed @ mo @ [CHR 0x0A]))))"

fun csv_rows :: "('prob, 'd) bench_env \<Rightarrow> bool \<Rightarrow> 'd mo_metrics \<Rightarrow> 'd list \<Rightarrow> nat \<Rightarrow> ('d list \<times> 'd list \<times> string \<times> 'd) list
    \<Rightarrow> string \<Rightarrow> string result" where
  "csv_rows env isMultiObjective m best i [] output = Inr output"
| "csv_rows env isMultiObjective m best i (row # rows) output =
    bind_result (row_text_of env isMultiObjective m best i row)
      (\<lambda>t. csv_rows env isMultiObjective m best (Suc i) rows (output @ t))"

definition calculate_metrics :: "('prob, 'd) bench_env \<Rightarrow> bool \<Rightarrow> 'd list list \<Rightarrow> 'd mo_metrics result" where
  "calculate_metrics env isMultiObjective sortedFitnesses =
    (if isMultiObjective \<and> 2 \<le> length sortedFitnesses
     then bind_result (be_fast_non_dominated env sortedFitnesses) (\<lambda>(domCounts, ranks).
          bind_result (be_crowding_distance env sortedFitnesses) (\<lambda>crowdDists.
          bind_result (be_hv_contributions env sortedFitnesses) (\<lambda>hvContributions.
            Inr (ranks, domCounts, crowdDists, hvContributions))))
     else Inr ([], [], [], []))"

definition csv_header :: "bool \<Rightarrow> string" where
  "csv_header isMultiObjective = ''ID,Value,Fitness,Fitness increase over baseline,ElapsedTime''
     @ (if isMultiObjective then '',Rank,DomBy,CrowdDist,HVContribution'' else [])  @ [CHR 0x0A]"

definition get_current_stats_csv ::
  "('prob, 'pop, 'd::linorder) pagmo \<Rightarrow> (nat list \<Rightarrow> nat list) \<Rightarrow> ('prob, 'd) bench_env \<Rightarrow> ('prob, 'd) bench \<Rightarrow> string result" where
  "get_current_stats_csv pg ties env b =
    (let isMultiObjective = 1 < pg_nobj pg (bn_problem b)
     in bind_result (map_result (be_fitness env (bn_problem b)) (bn_dataPoints b)) (\<lambda>fitnesses.
        bind_result (get_best_N_individuals_indexes pg ties (bn_problem b) fitnesses (length (bn_dataPoints b))) (\<lambda>bestIndividualIndexes.
        bind_result (map_result (vec_index (bn_dataPoints b)) bestIndividualIndexes) (\<lambda>sortedPoints.
        bind_result (map_result (vec_index fitnesses) bestIndividualIndexes) (\<lambda>sortedFitnesses.
        bind_result (map_result (vec_index (bn_pointIDs b)) bestIndividualIndexes) (\<lambda>sortedPointIDs.
        bind_result (map_result (vec_index (bn_elapsedTimes b)) bestIndividualIndexes) (\<lambda>sortedElapsedTimes.
        bind_result (calculate_metrics env isMultiObjective sortedFitnesses) (\<lambda>m.
        bind_result (vec_index sortedFitnesses 0) (\<lambda>bestIndividualFitness.
          csv_rows env isMultiObjective m bestIndividualFitness 0
            (zip sortedPoints (zip sortedFitnesses (zip sortedPointIDs sortedElapsedTimes)))
            (csv_header isMultiObjective))))))))))"

definition end_current_measurement ::
  "('prob, 'pop, 'd::linorder) pagmo \<Rightarrow> (nat list \<Rightarrow> nat list) \<Rightarrow> ('prob, 'd) bench_env \<Rightarrow> string \<Rightarrow> ('prob, 'd) bench
     \<Rightarrow> unit result \<times> ('prob, 'd) bench" where
  "end_current_measurement pg ties env measurementName b =
    (let name = (if measurementName = '''' then be_name env (bn_problem b)
                 else measurementName @ '' ('' @ be_name env (bn_problem b) @ '')'')
     in case get_current_stats_csv pg ties env b of
          Inl e \<Rightarrow> (Inl e, b)
        | Inr csv \<Rightarrow> (Inr (), clear_current_measurement (b\<lparr>bn_csvStatsBuffer := bn_csvStatsBuffer b @ [(csv, name)]\<rparr>)))"

definition get_all_results_as_csv :: "('prob, 'd) bench \<Rightarrow> string list" where
  "get_all_results_as_csv b = map fst (bn_csvStatsBuffer b)"

definition get_all_results_as_csv_with_names :: "('prob, 'd) bench \<Rightarrow> (string \<times> string) list" where
  "get_all_results_as_csv_with_names b = bn_csvStatsBuffer b"

definition get_all_results_as_html :: "('prob, 'd) bench \<Rightarrow> string" where
  "get_all_results_as_html b =
     get_html_page (foldl (\<lambda>html (csvString, sectionName). add_section (csv_to_html csvString) sectionName html) []
       (bn_csvStatsBuffer b))"

text \<open>
  Writing files: the directories and files that cannot be written are the host's, how much of the
  content reaches the file, and whether the stream has noticed when it is checked after the write.
\<close>

record bench_host =
  bh_create_directories :: "string \<Rightarrow> unit result"
  bh_can_open :: "string \<Rightarrow> bool"
  bh_written :: "string \<Rightarrow> string \<Rightarrow> nat"
  bh_noticed :: "string \<Rightarrow> string \<Rightarrow> bool"

type_synonym report_files = "string \<Rightarrow> string option"

definition write_results_to_file :: "bench_host \<Rightarrow> string \<Rightarrow> string \<Rightarrow> bool \<Rightarrow> report_files \<Rightarrow> unit result \<times> report_files" where
  "write_results_to_file h path content at_end fs =
    (let parent = path_parent path; file = win_normalize_filename path
     in case (if parent \<noteq> [] then bh_create_directories h parent else Inr ()) of
          Inl e \<Rightarrow> (Inl e, fs)
        | Inr _ \<Rightarrow>
            if \<not> bh_can_open h file
            then (Inl (Runtime_error (''_write_results_to_file: failed opening file, path: '' @ path)), fs)
            else
              (let old = (if at_end then (case fs file of None \<Rightarrow> [] | Some t \<Rightarrow> t) else []);
                   n = bh_written h file content
               in (if n < length content \<and> bh_noticed h file content
                   then Inl (Runtime_error (''_write_results_to_file: filed writing to file, path: '' @ path)) else Inr (),
                   fs(file \<mapsto> old @ take n content))))"

fun save_csvs :: "bench_host \<Rightarrow> string \<Rightarrow> string \<Rightarrow> (string \<times> string) list \<Rightarrow> report_files \<Rightarrow> unit result \<times> report_files" where
  "save_csvs h filePath currentDate [] fs = (Inr (), fs)"
| "save_csvs h filePath currentDate ((csvContent, fileName) # rest) fs =
     and_then (write_results_to_file h (path_append filePath (fileName @ '' '' @ currentDate @ ''.csv'')) csvContent False fs)
       (\<lambda>_. save_csvs h filePath currentDate rest)"

definition save_all_results_as_csv :: "bench_host \<Rightarrow> string \<Rightarrow> string \<Rightarrow> bool \<Rightarrow> ('prob, 'd) bench \<Rightarrow> report_files \<Rightarrow> unit result \<times> report_files" where
  "save_all_results_as_csv h now filePath fileNameWithDate b fs =
     save_csvs h filePath (if fileNameWithDate then now else '''') (get_all_results_as_csv_with_names b) fs"

definition save_all_results_as_html :: "bench_host \<Rightarrow> string \<Rightarrow> string \<Rightarrow> bool \<Rightarrow> ('prob, 'd) bench \<Rightarrow> report_files \<Rightarrow> unit result \<times> report_files" where
  "save_all_results_as_html h now filePath fileNameWithDate b fs =
     write_results_to_file h
       (path_append filePath (''solver_benchmark_'' @ (if fileNameWithDate then now else '''') @ ''.html''))
       (get_all_results_as_html b) False fs"

section \<open>Running the benchmarks\<close>

text \<open>
  The member functions of the solver that a benchmark calls, on a state of any type; \<open>'a\<close> are the
  algorithms.
\<close>

record ('s, 'a, 'prob, 'd) bench_solver =
  ds_wait_until_workers_connect :: "'s \<Rightarrow> unit result \<times> 's"
  ds_evolve :: "'prob \<Rightarrow> 'a list \<Rightarrow> u64 \<Rightarrow> u64 \<Rightarrow> 's \<Rightarrow> unit result \<times> 's"
  ds_wait_until_completion :: "'s \<Rightarrow> unit result \<times> 's"
  ds_get_best_individual :: "'s \<Rightarrow> 'd list result"
  ds_algorithm_name :: "'a \<Rightarrow> string"

text \<open>One timed evolution. Solver, benchmark and the times the clock will measure are the state.\<close>

definition timed_run ::
  "('s, 'a, 'prob, 'd) bench_solver \<Rightarrow> 'prob \<Rightarrow> u64 \<Rightarrow> string \<Rightarrow> 'a list
     \<Rightarrow> 's \<times> ('prob, 'd) bench \<times> (nat \<Rightarrow> 'd) \<Rightarrow> unit result \<times> 's \<times> ('prob, 'd) bench \<times> (nat \<Rightarrow> 'd)" where
  "timed_run ops prob popSize pointID algs st =
    (case st of (s, b, clock) \<Rightarrow>
       (case and_then (ds_evolve ops prob algs popSize 10 s) (\<lambda>_. ds_wait_until_completion ops) of
          (Inl e, s) \<Rightarrow> (Inl e, s, b, clock)
        | (Inr _, s) \<Rightarrow>
            (case ds_get_best_individual ops s of
               Inl e \<Rightarrow> (Inl e, s, b, clock)
             | Inr best \<Rightarrow> (Inr (), s, add_data_point best pointID (clock 0) b, \<lambda>i. clock (Suc i)))))"

fun run_each ::
  "('s, 'a, 'prob, 'd) bench_solver \<Rightarrow> 'prob \<Rightarrow> u64 \<Rightarrow> 'a list
     \<Rightarrow> 's \<times> ('prob, 'd) bench \<times> (nat \<Rightarrow> 'd) \<Rightarrow> unit result \<times> 's \<times> ('prob, 'd) bench \<times> (nat \<Rightarrow> 'd)" where
  "run_each ops prob popSize [] st = (Inr (), st)"
| "run_each ops prob popSize (currentAlg # algs) st =
     and_then (timed_run ops prob popSize (''SINGLE_'' @ ds_algorithm_name ops currentAlg) [currentAlg] st)
       (\<lambda>_. run_each ops prob popSize algs)"

definition benchmark_compare_runner ::
  "('s, 'a, 'prob, 'd) bench_solver \<Rightarrow> 'prob \<Rightarrow> u64 \<Rightarrow> 'a list
     \<Rightarrow> 's \<times> ('prob, 'd) bench \<times> (nat \<Rightarrow> 'd) \<Rightarrow> unit result \<times> 's \<times> ('prob, 'd) bench \<times> (nat \<Rightarrow> 'd)" where
  "benchmark_compare_runner ops prob popSize algs st =
     and_then (timed_run ops prob popSize ''META_ALL'' algs st) (\<lambda>_. run_each ops prob popSize algs)"

definition benchmark_compare ::
  "('prob, 'pop, 'd::linorder) pagmo \<Rightarrow> (nat list \<Rightarrow> nat list) \<Rightarrow> ('prob, 'd) bench_env \<Rightarrow> ('s, 'a, 'prob, 'd) bench_solver
     \<Rightarrow> 'prob \<Rightarrow> u64 \<Rightarrow> 'a list \<Rightarrow> 's \<times> ('prob, 'd) bench \<times> (nat \<Rightarrow> 'd) \<Rightarrow> unit result \<times> 's \<times> ('prob, 'd) bench \<times> (nat \<Rightarrow> 'd)" where
  "benchmark_compare pg ties env ops prob popSize algs st =
    (case ds_wait_until_workers_connect ops (fst st) of
       (Inl e, s) \<Rightarrow> (Inl e, s, snd st)
     | (Inr _, s) \<Rightarrow>
         and_then (benchmark_compare_runner ops prob popSize algs (s, snd st))
           (\<lambda>_ (s, b, clock). case end_current_measurement pg ties env '''' b of (r, b) \<Rightarrow> (r, s, b, clock)))"

text \<open>The problems one after another, each compared by \<open>cmp\<close>.\<close>

fun compare_all ::
  "('prob \<Rightarrow> 's \<times> ('prob, 'd) bench \<times> (nat \<Rightarrow> 'd) \<Rightarrow> unit result \<times> 's \<times> ('prob, 'd) bench \<times> (nat \<Rightarrow> 'd))
     \<Rightarrow> 'prob list \<Rightarrow> 's \<times> ('prob, 'd) bench \<times> (nat \<Rightarrow> 'd) \<Rightarrow> unit result \<times> 's \<times> ('prob, 'd) bench \<times> (nat \<Rightarrow> 'd)" where
  "compare_all cmp [] st = (Inr (), st)"
| "compare_all cmp (prob # probs) (s, b, clock) =
     and_then (cmp prob (s, set_problem prob b, clock)) (\<lambda>_. compare_all cmp probs)"

definition save_reports :: "bench_host \<Rightarrow> string \<Rightarrow> bool \<Rightarrow> bool \<Rightarrow> ('prob, 'd) bench \<Rightarrow> report_files \<Rightarrow> unit result \<times> report_files" where
  "save_reports h now outputHtml outputCsv b fs =
     and_then (if outputCsv then save_all_results_as_csv h now ''./benchmark_results_csv/'' True b fs else (Inr (), fs))
       (\<lambda>_ fs. if outputHtml then save_all_results_as_html h now ''./benchmark_results_html/'' True b fs else (Inr (), fs))"

text \<open>The algorithms and the problems, by the names of their classes with their parameters.\<close>

datatype so_algorithm = Gaco u64 | De u64 | Sade u64 | De1220 u64 | Gwo u64 | Pso u64 | Bee_colony u64 | Simulated_annealing

datatype mo_algorithm = Nsga2 u64 | Moead u64 | Moead_gen u64 | Maco u64 | Nspso u64 | Ihs u64

datatype bench_problem =
  Schwefel nat | Rosenbrock nat | Rastrigin nat | Ackley nat | Griewank nat | Zdt nat nat

definition construct_so_algorithms :: "u64 \<Rightarrow> so_algorithm list" where
  "construct_so_algorithms genCount =
     [Gaco genCount, De genCount, Sade genCount, De1220 genCount, Gwo genCount, Pso genCount, Bee_colony genCount,
      Simulated_annealing]"

definition get_so_algorithm_count :: nat where
  "get_so_algorithm_count = length (construct_so_algorithms 100)"

definition construct_mo_algorithms :: "u64 \<Rightarrow> mo_algorithm list" where
  "construct_mo_algorithms genCount =
     [Nsga2 genCount, Moead genCount, Moead_gen genCount, Maco genCount, Nspso genCount, Ihs genCount]"

definition get_mo_algorithm_count :: nat where
  "get_mo_algorithm_count = length (construct_mo_algorithms 100)"

definition benchmark_compare_so ::
  "('prob, 'pop, 'd::linorder) pagmo \<Rightarrow> (nat list \<Rightarrow> nat list) \<Rightarrow> ('prob, 'd) bench_env
     \<Rightarrow> ('s, so_algorithm, 'prob, 'd) bench_solver \<Rightarrow> u64 \<Rightarrow> u64 \<Rightarrow> 'prob
     \<Rightarrow> 's \<times> ('prob, 'd) bench \<times> (nat \<Rightarrow> 'd) \<Rightarrow> unit result \<times> 's \<times> ('prob, 'd) bench \<times> (nat \<Rightarrow> 'd)" where
  "benchmark_compare_so pg ties env ops popSize genCount prob st =
     benchmark_compare pg ties env ops prob popSize (construct_so_algorithms genCount) st"

definition run_so_benchmark ::
  "(bench_problem, 'pop, 'd::linorder) pagmo \<Rightarrow> (nat list \<Rightarrow> nat list) \<Rightarrow> (bench_problem, 'd) bench_env
     \<Rightarrow> ('s, so_algorithm, bench_problem, 'd) bench_solver \<Rightarrow> bench_host \<Rightarrow> string \<Rightarrow> bool \<Rightarrow> bool \<Rightarrow> u64 \<Rightarrow> u64
     \<Rightarrow> 's \<times> (bench_problem, 'd) bench \<times> (nat \<Rightarrow> 'd) \<Rightarrow> report_files
     \<Rightarrow> unit result \<times> ('s \<times> (bench_problem, 'd) bench \<times> (nat \<Rightarrow> 'd)) \<times> report_files" where
  "run_so_benchmark pg ties env ops h now outputHtml outputCsv popSize genCount st fs =
    (case compare_all (benchmark_compare_so pg ties env ops popSize genCount)
            [Schwefel 3, Rosenbrock 40, Rastrigin 40, Ackley 40, Griewank 40] st of
       (Inl e, st) \<Rightarrow> (Inl e, st, fs)
     | (Inr _, st) \<Rightarrow> (case save_reports h now outputHtml outputCsv (fst (snd st)) fs of (r, fs) \<Rightarrow> (r, st, fs)))"

definition benchmark_compare_mo ::
  "('prob, 'pop, 'd::linorder) pagmo \<Rightarrow> (nat list \<Rightarrow> nat list) \<Rightarrow> ('prob, 'd) bench_env
     \<Rightarrow> ('s, mo_algorithm, 'prob, 'd) bench_solver \<Rightarrow> u64 \<Rightarrow> u64 \<Rightarrow> 'prob
     \<Rightarrow> 's \<times> ('prob, 'd) bench \<times> (nat \<Rightarrow> 'd) \<Rightarrow> unit result \<times> 's \<times> ('prob, 'd) bench \<times> (nat \<Rightarrow> 'd)" where
  "benchmark_compare_mo pg ties env ops popSize genCount prob st =
     benchmark_compare pg ties env ops prob popSize (construct_mo_algorithms genCount) st"

definition run_mo_benchmark ::
  "(bench_problem, 'pop, 'd::linorder) pagmo \<Rightarrow> (nat list \<Rightarrow> nat list) \<Rightarrow> (bench_problem, 'd) bench_env
     \<Rightarrow> ('s, mo_algorithm, bench_problem, 'd) bench_solver \<Rightarrow> bench_host \<Rightarrow> string \<Rightarrow> bool \<Rightarrow> bool \<Rightarrow> u64 \<Rightarrow> u64
     \<Rightarrow> 's \<times> (bench_problem, 'd) bench \<times> (nat \<Rightarrow> 'd) \<Rightarrow> report_files
     \<Rightarrow> unit result \<times> ('s \<times> (bench_problem, 'd) bench \<times> (nat \<Rightarrow> 'd)) \<times> report_files" where
  "run_mo_benchmark pg ties env ops h now outputHtml outputCsv popSize genCount st fs =
    (case compare_all (benchmark_compare_mo pg ties env ops popSize genCount) (map (\<lambda>i. Zdt i 30) [1..<5]) st of
       (Inl e, st) \<Rightarrow> (Inl e, st, fs)
     | (Inr _, st) \<Rightarrow> (case save_reports h now outputHtml outputCsv (fst (snd st)) fs of (r, fs) \<Rightarrow> (r, st, fs)))"


end
