(* ===== verification/Benchmark_Correct.thy ===== *)
theory Benchmark_Correct
  imports Benchmark
begin

text \<open>
  What a benchmark reports: the table of a measurement has every data point once, in order of
  fitness, a comparison of algorithms measures all of them, and a suite of problems has one such
  report for each problem.
\<close>

section \<open>Texts\<close>

definition plain :: "string \<Rightarrow> bool" where
  "plain t \<longleftrightarrow> t \<noteq> [] \<and> set t \<inter> {CHR 0x22, CHR '','', CHR 0x0A, CHR 0x0D} = {}"

definition no_quote :: "string \<Rightarrow> bool" where
  "no_quote t \<longleftrightarrow> CHR 0x22 \<notin> set t"

lemma double_quotes_id: "no_quote t \<Longrightarrow> double_quotes t = t"
  by (induction t) (auto simp: double_quotes_def no_quote_def)

lemma quoted_cell_ok: "cell_ok (True, t)"
  by (simp add: cell_ok_def)

lemma plain_cell_ok: "plain t \<Longrightarrow> cell_ok (False, t)"
  by (cases t) (auto simp: cell_ok_def plain_def)

lemma plain_no_quote: "plain t \<Longrightarrow> no_quote t"
  by (auto simp: plain_def no_quote_def)

lemma no_quote_append [simp]: "no_quote (s @ t) \<longleftrightarrow> no_quote s \<and> no_quote t"
  by (auto simp: no_quote_def)

lemma no_quote_join: "no_quote sep \<Longrightarrow> list_all no_quote ts \<Longrightarrow> no_quote (join_with sep ts)"
  by (induction sep ts rule: join_with.induct) (simp_all, simp add: no_quote_def)

lemma vector_csv_loop: "i + length vec = n \<Longrightarrow> csv_loop num vec i n out = out @ join_with '';'' (map num vec)"
proof (induction vec arbitrary: i out)
  case (Cons x vec)
  have "csv_loop num (x # vec) i n out = csv_loop num vec (Suc i) n (out @ num x @ (if i + 1 < n then '';'' else []))"
    by simp
  also have "\<dots> = out @ num x @ (if i + 1 < n then '';'' else []) @ join_with '';'' (map num vec)"
    using Cons.IH [of "Suc i"] Cons.prems by simp
  finally show ?case using Cons.prems by (cases vec) simp_all
qed simp

lemma vector_csv: "double_vector_to_csv num vec = [CHR 0x22] @ join_with '';'' (map num vec) @ [CHR 0x22]"
  by (simp add: double_vector_to_csv_def vector_csv_loop)

section \<open>The table of a measurement\<close>

text \<open>The cells of a data point with one objective.\<close>

definition point_cells :: "('prob, 'd) bench_env \<Rightarrow> 'd \<Rightarrow> 'd list \<times> 'd \<times> string \<times> 'd \<Rightarrow> cell list" where
  "point_cells env best row =
    (case row of (point, f, pointID, elapsed) \<Rightarrow>
       [(False, pointID), (True, join_with '';'' (map (be_to_string env) point)), (True, be_to_string env f),
        (True, be_format_double env (be_percent env (if best \<noteq> be_zero env then be_decline env f best else be_zero env)) @ ''%''),
        (False, be_format_double env elapsed)])"

definition so_header :: "cell list" where
  "so_header = [(False, ''ID''), (False, ''Value''), (False, ''Fitness''), (False, ''Fitness increase over baseline''),
     (False, ''ElapsedTime'')]"

definition prints_plain :: "('prob, 'd) bench_env \<Rightarrow> bool" where
  "prints_plain env \<longleftrightarrow> (\<forall>x. plain (be_to_string env x) \<and> plain (be_format_double env x))"

lemma so_row:
  assumes "prints_plain env"
  shows "row_text_of env False m [best] i (point, [f], pointID, elapsed)
    = Inr (row_csv [CHR 0x0A] (point_cells env best (point, f, pointID, elapsed)))"
proof -
  have nums: "no_quote (be_to_string env x)" "no_quote (be_format_double env x)" for x
    using assms plain_no_quote by (auto simp: prints_plain_def)
  have "list_all no_quote (map (be_to_string env) point)" using nums by (simp add: list_all_iff)
  then have dq: "double_quotes (join_with '';'' (map (be_to_string env) point)) = join_with '';'' (map (be_to_string env) point)"
    by (intro double_quotes_id no_quote_join) (simp_all add: no_quote_def)
  have pc: "double_quotes (be_format_double env x @ ''%'') = be_format_double env x @ ''%''" for x
    by (rule double_quotes_id) (simp add: nums, simp add: no_quote_def)
  show ?thesis
    by (simp add: row_text_of_def vec_index_def vector_csv row_csv_def point_cells_def cell_csv_def dq pc
        double_quotes_id nums Let_def)
qed

lemma so_rows:
  assumes "prints_plain env"
  shows "csv_rows env False m [best] i (map (\<lambda>x. (p x, [f x], n x, t x)) xs) out
    = Inr (out @ concat (map (\<lambda>x. row_csv [CHR 0x0A] (point_cells env best (p x, f x, n x, t x))) xs))"
  by (induction xs arbitrary: i out) (auto simp: so_row [OF assms])

lemma point_cells_ok:
  assumes "prints_plain env" and "plain pointID"
  shows "list_all cell_ok (point_cells env best (point, f, pointID, elapsed))"
proof -
  have nums: "no_quote (be_to_string env x)" "no_quote (be_format_double env x)" for x
    using assms(1) plain_no_quote by (auto simp: prints_plain_def)
  have "no_quote (join_with '';'' (map (be_to_string env) point))"
    by (rule no_quote_join) (simp_all add: nums list_all_iff, simp add: no_quote_def)
  moreover have "no_quote (be_format_double env x @ ''%'')" for x
    by (simp add: nums) (simp add: no_quote_def)
  ultimately show ?thesis
    using assms nums by (simp add: point_cells_def quoted_cell_ok plain_cell_ok prints_plain_def)
qed

lemma point_cells_some: "point_cells env best row \<noteq> []"
  by (cases row) (simp add: point_cells_def)

lemma so_header_csv: "csv_header False = row_csv [CHR 0x0A] so_header"
  by (simp add: row_csv_def so_header_def cell_csv_def csv_header_def)

lemma so_header_ok: "row_ok so_header"
  by (simp add: so_header_def cell_ok_def row_ok_def)

text \<open>The data points sorted by fitness, and the values that are read in this order.\<close>

lemma points_selected:
  assumes "rearranges ties" and "pg_nobj pg prob \<le> 1" and "pg_nc pg prob = 0"
  obtains idx where "get_best_N_individuals_indexes pg ties prob (map (\<lambda>p. [fv p]) ps) (length ps) = Inr idx"
    and "best_of (\<lambda>i. fv (ps ! i)) (length ps) (length ps) idx"
proof -
  let ?fs = "map (\<lambda>p. [fv p]) ps"
  define idx where "idx = std_sort ties (\<lambda>a. ?fs ! a ! 0) [0..<length ?fs]"
  have "length idx = length ?fs"
    using set_of_indexes [OF std_sort_mset [OF assms(1)]] unfolding idx_def by blast
  then have len: "length idx = length ps" by simp
  have best: "best_of (\<lambda>a. ?fs ! a ! 0) (length ?fs) (length ?fs) idx"
    using best_of_sort [OF assms(1), of "length ?fs" "length ?fs" "\<lambda>a. ?fs ! a ! 0"] len by (simp add: idx_def)
  then have inside: "set idx \<subseteq> {..<length ps}" by (simp add: best_of_def)
  have keys: "map (\<lambda>a. ?fs ! a ! 0) js = map (\<lambda>i. fv (ps ! i)) js" if "set js \<subseteq> {..<length ps}" for js
    using that by auto
  have "[] \<notin> set ?fs" by auto
  then have "get_best_N_individuals_indexes pg ties prob ?fs (length ps) = Inr idx"
    using so_indexes [OF assms(3,2)] len by (simp add: resize_take idx_def)
  moreover have "best_of (\<lambda>i. fv (ps ! i)) (length ps) (length ps) idx"
    using best keys [OF inside] inside by (fastforce simp: best_of_def)
  ultimately show thesis using that by blast
qed

lemma zip_by_index:
  assumes "set idx \<subseteq> {..<length ps}"
  shows "zip (map ((!) ps) idx) (zip (map ((!) (map (\<lambda>p. [fv p]) ps)) idx) (zip (map ((!) ns) idx) (map ((!) ts) idx)))
    = map (\<lambda>i. (ps ! i, [fv (ps ! i)], ns ! i, ts ! i)) idx"
  using assms by (auto simp: zip_map1 zip_map2 zip_same_conv_map)

text \<open>One row of the report, for the data point with index \<open>i\<close> and the best one \<open>j\<close>.\<close>

definition report_row :: "('prob, 'd) bench_env \<Rightarrow> ('prob, 'd) bench \<Rightarrow> ('d list \<Rightarrow> 'd) \<Rightarrow> nat \<Rightarrow> nat \<Rightarrow> cell list" where
  "report_row env b fv j i = point_cells env (fv (bn_dataPoints b ! j))
     (bn_dataPoints b ! i, fv (bn_dataPoints b ! i), bn_pointIDs b ! i, bn_elapsedTimes b ! i)"

text \<open>What a measurement must look like for its report to be made, and the report.\<close>

definition measurable :: "('prob, 'd) bench_env \<Rightarrow> ('d list \<Rightarrow> 'd) \<Rightarrow> ('prob, 'd) bench \<Rightarrow> bool" where
  "measurable env fv b \<longleftrightarrow> length (bn_pointIDs b) = length (bn_dataPoints b) \<and> length (bn_elapsedTimes b) = length (bn_dataPoints b)
     \<and> (\<forall>p \<in> set (bn_dataPoints b). be_fitness env (bn_problem b) p = Inr [fv p])"

lemma current_stats_csv:
  assumes "rearranges ties" and "pg_nobj pg (bn_problem b) \<le> 1" and "pg_nc pg (bn_problem b) = 0"
    and "measurable env fv b" and "prints_plain env"
  obtains idx where "best_of (\<lambda>i. fv (bn_dataPoints b ! i)) (length (bn_dataPoints b)) (length (bn_dataPoints b)) idx"
    and "get_current_stats_csv pg ties env b = (if bn_dataPoints b = [] then Inl (Undefined_behaviour ''vector index'')
      else Inr (concat (map (row_csv [CHR 0x0A]) (so_header # map (report_row env b fv (hd idx)) idx))))"
proof -
  let ?ps = "bn_dataPoints b" and ?fs = "map (\<lambda>p. [fv p]) (bn_dataPoints b)"
  obtain idx where idx: "get_best_N_individuals_indexes pg ties (bn_problem b) ?fs (length ?ps) = Inr idx"
      "best_of (\<lambda>i. fv (?ps ! i)) (length ?ps) (length ?ps) idx"
    by (rule points_selected [OF assms(1,2,3)])
  then have inside: "set idx \<subseteq> {..<length ?ps}" and len: "length idx = length ?ps" by (auto simp: best_of_def)
  have fits: "map_result (be_fitness env (bn_problem b)) ?ps = Inr ?fs"
    using assms(4) unfolding map_result_Inr measurable_def by (simp add: list_all2_conv_all_nth)
  have sorted: "map_result (vec_index ?ps) idx = Inr (map ((!) ?ps) idx)"
      "map_result (vec_index ?fs) idx = Inr (map ((!) ?fs) idx)"
      "map_result (vec_index (bn_pointIDs b)) idx = Inr (map ((!) (bn_pointIDs b)) idx)"
      "map_result (vec_index (bn_elapsedTimes b)) idx = Inr (map ((!) (bn_elapsedTimes b)) idx)"
    using inside assms(4) by (auto simp: measurable_def intro!: map_result_index)
  have so: "\<not> 1 < pg_nobj pg (bn_problem b)" using assms(2) by simp
  have "vec_index (map ((!) ?fs) idx) 0 = (if ?ps = [] then Inl (Undefined_behaviour ''vector index'') else Inr [fv (?ps ! hd idx)])"
    using len inside by (cases idx) (auto simp: vec_index_def)
  then have "get_current_stats_csv pg ties env b = (if ?ps = [] then Inl (Undefined_behaviour ''vector index'')
      else Inr (concat (map (row_csv [CHR 0x0A]) (so_header # map (report_row env b fv (hd idx)) idx))))"
    using fits idx(1) sorted so
    by (simp add: get_current_stats_csv_def calculate_metrics_def Let_def zip_by_index [OF inside] so_rows [OF assms(5)]
        so_header_csv comp_def report_row_def)
  with idx(2) that show thesis by blast
qed

section \<open>Properties\<close>

text \<open>
  C34: the report of a measurement. For an unconstrained problem with one objective and data points
  that have a fitness, the end of a measurement stores one CSV text under the name of the
  measurement and clears the data points; the HTML made of the text is the table with one row for
  every data point, in ascending order of fitness, that shows its name, its value, its fitness,
  the difference to the best one in percent and its time. With no data point at all the first
  fitness of an empty vector is read.
\<close>

theorem measurement_report:
  assumes "rearranges ties" and "pg_nobj pg (bn_problem b) \<le> 1" and "pg_nc pg (bn_problem b) = 0"
    and "measurable env fv b" and "list_all plain (bn_pointIDs b)" and "prints_plain env"
  shows "(bn_dataPoints b = [] \<longrightarrow>
       end_current_measurement pg ties env name b = (Inl (Undefined_behaviour ''vector index''), b))
    \<and> (bn_dataPoints b \<noteq> [] \<longrightarrow> (\<exists>idx csv.
       best_of (\<lambda>i. fv (bn_dataPoints b ! i)) (length (bn_dataPoints b)) (length (bn_dataPoints b)) idx
       \<and> end_current_measurement pg ties env name b = (Inr (), b\<lparr>bn_dataPoints := [], bn_pointIDs := [], bn_elapsedTimes := [],
            bn_csvStatsBuffer := bn_csvStatsBuffer b @ [(csv, if name = '''' then be_name env (bn_problem b)
               else name @ '' ('' @ be_name env (bn_problem b) @ '')'')]\<rparr>)
       \<and> csv_to_html csv = table_html so_header (map (report_row env b fv (hd idx)) idx)))"
proof -
  obtain idx where best: "best_of (\<lambda>i. fv (bn_dataPoints b ! i)) (length (bn_dataPoints b)) (length (bn_dataPoints b)) idx"
    and csv: "get_current_stats_csv pg ties env b = (if bn_dataPoints b = [] then Inl (Undefined_behaviour ''vector index'')
      else Inr (concat (map (row_csv [CHR 0x0A]) (so_header # map (report_row env b fv (hd idx)) idx))))"
    by (rule current_stats_csv [OF assms(1-4,6)])
  let ?rows = "map (report_row env b fv (hd idx)) idx"
  have "plain (bn_pointIDs b ! i)" if "i \<in> set idx" for i
    using that best assms(4,5) by (auto simp: best_of_def list_all_length measurable_def)
  then have "list_all row_ok ?rows"
    by (simp add: row_ok_def list.pred_map list_all_iff [of _ idx] comp_def report_row_def point_cells_ok [OF assms(6)] point_cells_some)
  then have "csv_to_html (concat (map (row_csv [CHR 0x0A]) (so_header # ?rows))) = table_html so_header ?rows"
    by (intro csv_table so_header_ok) (simp_all add: line_end_def)
  with best csv show ?thesis
    by (intro conjI impI exI [of _ idx] exI [of _ "concat (map (row_csv [CHR 0x0A]) (so_header # ?rows))"])
      (simp_all add: end_current_measurement_def clear_current_measurement_def)
qed

text \<open>A comparison that returns has measured all algorithms together and each one alone.\<close>

definition measured :: "('prob, 'd) bench \<Rightarrow> bool" where
  "measured b \<longleftrightarrow> length (bn_pointIDs b) = length (bn_dataPoints b) \<and> length (bn_elapsedTimes b) = length (bn_dataPoints b)"

lemma timed_run_adds:
  assumes "timed_run ops prob popSize n algs (s, b, clock) = (Inr (), s', b', clock')"
  shows "bn_pointIDs b' = bn_pointIDs b @ [n] \<and> bn_problem b' = bn_problem b \<and> (measured b \<longrightarrow> measured b')"
  using assms by (auto simp: timed_run_def add_data_point_def measured_def split: prod.splits sum.splits)

lemma run_each_adds:
  "run_each ops prob popSize algs (s, b, clock) = (Inr (), s', b', clock') \<Longrightarrow>
   bn_pointIDs b' = bn_pointIDs b @ map (\<lambda>a. ''SINGLE_'' @ ds_algorithm_name ops a) algs
   \<and> bn_problem b' = bn_problem b \<and> (measured b \<longrightarrow> measured b')"
proof (induction algs arbitrary: s b clock)
  case Nil
  then show ?case by simp
next
  case (Cons a algs)
  obtain r s1 b1 c1 where one: "timed_run ops prob popSize (''SINGLE_'' @ ds_algorithm_name ops a) [a] (s, b, clock) = (r, s1, b1, c1)"
    by (metis prod_cases4)
  with Cons.prems have r: "r = Inr ()" "run_each ops prob popSize algs (s1, b1, c1) = (Inr (), s', b', clock')"
    by (cases r; simp)+
  from Cons.IH [OF r(2)] timed_run_adds [OF one [unfolded r(1)]] show ?case by simp
qed

lemma comparison_measures_all:
  assumes "benchmark_compare_runner ops prob popSize algs (s, b, clock) = (Inr (), s', b', clock')"
  shows "bn_pointIDs b' = bn_pointIDs b @ ''META_ALL'' # map (\<lambda>a. ''SINGLE_'' @ ds_algorithm_name ops a) algs
    \<and> bn_problem b' = bn_problem b \<and> (measured b \<longrightarrow> measured b')"
proof -
  obtain r s1 b1 c1 where one: "timed_run ops prob popSize ''META_ALL'' algs (s, b, clock) = (r, s1, b1, c1)"
    by (metis prod_cases4)
  with assms have r: "r = Inr ()" "run_each ops prob popSize algs (s1, b1, c1) = (Inr (), s', b', clock')"
    by (cases r; simp add: benchmark_compare_runner_def)+
  from run_each_adds [OF r(2)] timed_run_adds [OF one [unfolded r(1)]] show ?thesis by simp
qed

text \<open>
  A suite that runs through has stored one report for every problem, in order and under its name:
  the report of a measurement of all algorithms together and of each one alone.
\<close>

definition report_of ::
  "('prob, 'pop, 'd::linorder) pagmo \<Rightarrow> (nat list \<Rightarrow> nat list) \<Rightarrow> ('prob, 'd) bench_env \<Rightarrow> string list \<Rightarrow> 'prob \<Rightarrow> string \<times> string \<Rightarrow> bool" where
  "report_of pg ties env names prob r \<longleftrightarrow> snd r = be_name env prob
     \<and> (\<exists>m. bn_problem m = prob \<and> bn_pointIDs m = names \<and> measured m \<and> get_current_stats_csv pg ties env m = Inr (fst r))"

definition between_measurements :: "('prob, 'd) bench \<Rightarrow> bool" where
  "between_measurements b \<longleftrightarrow> bn_dataPoints b = [] \<and> bn_pointIDs b = [] \<and> bn_elapsedTimes b = []"

abbreviation compared :: "('s, 'a, 'prob, 'd) bench_solver \<Rightarrow> 'a list \<Rightarrow> string list" where
  "compared ops algs \<equiv> ''META_ALL'' # map (\<lambda>a. ''SINGLE_'' @ ds_algorithm_name ops a) algs"

lemma timed_run_buffer:
  "timed_run ops prob popSize n algs (s, b, clock) = (r, s', b', clock') \<Longrightarrow> bn_csvStatsBuffer b' = bn_csvStatsBuffer b"
  by (auto simp: timed_run_def add_data_point_def split: prod.splits sum.splits)

lemma run_each_buffer:
  "run_each ops prob popSize algs (s, b, clock) = (r, s', b', clock') \<Longrightarrow> bn_csvStatsBuffer b' = bn_csvStatsBuffer b"
proof (induction algs arbitrary: s b clock)
  case Nil
  then show ?case by simp
next
  case (Cons a algs)
  obtain q s1 b1 c1 where one: "timed_run ops prob popSize (''SINGLE_'' @ ds_algorithm_name ops a) [a] (s, b, clock) = (q, s1, b1, c1)"
    by (metis prod_cases4)
  with Cons show ?case using timed_run_buffer [OF one] by (cases q) simp_all
qed

lemma comparison_buffer:
  assumes "benchmark_compare_runner ops prob popSize algs (s, b, clock) = (r, s', b', clock')"
  shows "bn_csvStatsBuffer b' = bn_csvStatsBuffer b"
proof -
  obtain q s1 b1 c1 where one: "timed_run ops prob popSize ''META_ALL'' algs (s, b, clock) = (q, s1, b1, c1)"
    by (metis prod_cases4)
  with assms show ?thesis using timed_run_buffer [OF one] run_each_buffer [of ops prob popSize algs s1 b1 c1 r s' b' clock']
    by (cases q) (simp_all add: benchmark_compare_runner_def)
qed

lemma comparison_reports:
  assumes "benchmark_compare pg ties env ops prob popSize algs (s, b, clock) = (Inr (), s', b', clock')"
    and "between_measurements b" and "bn_problem b = prob"
  shows "between_measurements b' \<and> (\<exists>r. bn_csvStatsBuffer b' = bn_csvStatsBuffer b @ [r]
    \<and> report_of pg ties env (compared ops algs) prob r)"
proof -
  obtain w s1 where wait: "ds_wait_until_workers_connect ops s = (w, s1)" by fastforce
  with assms(1) have w: "w = Inr ()" by (cases w) (simp_all add: benchmark_compare_def)
  obtain q s2 b2 c2 where run: "benchmark_compare_runner ops prob popSize algs (s1, b, clock) = (q, s2, b2, c2)"
    by (metis prod_cases4)
  with assms(1) wait w have q: "q = Inr ()" by (cases q) (simp_all add: benchmark_compare_def)
  have fin: "end_current_measurement pg ties env '''' b2 = (Inr (), b')"
    using assms(1) wait run unfolding w q by (simp add: benchmark_compare_def split: prod.splits)
  then obtain csv where "get_current_stats_csv pg ties env b2 = Inr csv"
      "b' = clear_current_measurement (b2\<lparr>bn_csvStatsBuffer := bn_csvStatsBuffer b2 @ [(csv, be_name env (bn_problem b2))]\<rparr>)"
    by (auto simp: end_current_measurement_def split: sum.splits)
  then show ?thesis
    using comparison_measures_all [OF run [unfolded q]] comparison_buffer [OF run] assms(2,3)
    by (auto simp: between_measurements_def clear_current_measurement_def report_of_def measured_def)
qed

lemma suite_reports:
  assumes "\<And>prob s b clock s' b' clock'. cmp prob (s, b, clock) = (Inr (), s', b', clock') \<Longrightarrow> between_measurements b \<Longrightarrow>
      bn_problem b = prob \<Longrightarrow> between_measurements b' \<and> (\<exists>r. bn_csvStatsBuffer b' = bn_csvStatsBuffer b @ [r] \<and> R prob r)"
  shows "compare_all cmp probs (s, b, clock) = (Inr (), s', b', clock') \<Longrightarrow> between_measurements b \<Longrightarrow>
    between_measurements b' \<and> (\<exists>rs. bn_csvStatsBuffer b' = bn_csvStatsBuffer b @ rs \<and> list_all2 R probs rs)"
proof (induction probs arbitrary: s b clock)
  case Nil
  then show ?case by simp
next
  case (Cons prob probs)
  obtain q s1 b1 c1 where one: "cmp prob (s, set_problem prob b, clock) = (q, s1, b1, c1)" by (metis prod_cases4)
  with Cons.prems(1) have q: "q = Inr ()" and rest: "compare_all cmp probs (s1, b1, c1) = (Inr (), s', b', clock')"
    by (cases q; simp)+
  have "between_measurements b1" "\<exists>r. bn_csvStatsBuffer b1 = bn_csvStatsBuffer b @ [r] \<and> R prob r"
    using assms [OF one [unfolded q]] Cons.prems(2) by (simp_all add: set_problem_def between_measurements_def)
  with Cons.IH [OF rest] show ?case by (auto simp: list_all2_Cons1)
qed

lemma so_benchmark_reports:
  assumes "run_so_benchmark pg ties env ops h now outputHtml outputCsv popSize genCount (s, b, clock) fs = (Inr (), (s', b', clock'), fs')"
    and "between_measurements b"
  shows "between_measurements b' \<and> (\<exists>rs. bn_csvStatsBuffer b' = bn_csvStatsBuffer b @ rs
    \<and> list_all2 (report_of pg ties env (compared ops (construct_so_algorithms genCount)))
        [Schwefel 3, Rosenbrock 40, Rastrigin 40, Ackley 40, Griewank 40] rs)"
proof (rule suite_reports [OF _ _ assms(2)])
  show "compare_all (benchmark_compare_so pg ties env ops popSize genCount)
      [Schwefel 3, Rosenbrock 40, Rastrigin 40, Ackley 40, Griewank 40] (s, b, clock) = (Inr (), s', b', clock')"
    using assms(1) unfolding run_so_benchmark_def by (auto split: prod.splits sum.splits simp del: compare_all.simps)
qed (unfold benchmark_compare_so_def, rule comparison_reports)

lemma mo_benchmark_reports:
  assumes "run_mo_benchmark pg ties env ops h now outputHtml outputCsv popSize genCount (s, b, clock) fs = (Inr (), (s', b', clock'), fs')"
    and "between_measurements b"
  shows "between_measurements b' \<and> (\<exists>rs. bn_csvStatsBuffer b' = bn_csvStatsBuffer b @ rs
    \<and> list_all2 (report_of pg ties env (compared ops (construct_mo_algorithms genCount))) (map (\<lambda>i. Zdt i 30) [1..<5]) rs)"
proof (rule suite_reports [OF _ _ assms(2)])
  show "compare_all (benchmark_compare_mo pg ties env ops popSize genCount) (map (\<lambda>i. Zdt i 30) [1..<5]) (s, b, clock)
      = (Inr (), s', b', clock')"
    using assms(1) unfolding run_mo_benchmark_def by (auto split: prod.splits sum.splits simp del: compare_all.simps)
qed (unfold benchmark_compare_mo_def, rule comparison_reports)

section \<open>Applying the properties\<close>

definition demo_bench_env :: "(nat, int) bench_env" where
  "demo_bench_env = \<lparr>be_fitness = (\<lambda>p x. Inr [sum_list x]), be_name = (\<lambda>p. ''schwefel''),
     be_fast_non_dominated = (\<lambda>fs. Inr ([], [])), be_crowding_distance = (\<lambda>fs. Inr []), be_hv_contributions = (\<lambda>fs. Inr []),
     be_to_string = int_str, be_format_double = int_str, be_is_inf = (\<lambda>x. False), be_zero = 0,
     be_decline = (\<lambda>f b. (f - b) div b), be_percent = (\<lambda>x. 100 * x)\<rparr>"

definition demo_bench :: "(nat, int) bench" where
  "demo_bench = add_data_point [7] ''SINGLE_de'' 3 (add_data_point [2] ''META_ALL'' 5 (benchmark_stats_new 1))"

lemma digit_plain: "n < 10 \<Longrightarrow> plain [''0123456789'' ! n]"
proof -
  assume "n < 10"
  then have "n \<in> {0, 1, 2, 3, 4, 5, 6, 7, 8, 9}" by auto
  then show ?thesis by (auto simp: plain_def)
qed

lemma plain_append: "plain s \<Longrightarrow> plain t \<Longrightarrow> plain (s @ t)"
  by (auto simp: plain_def)

lemma nat_str_plain: "plain (nat_str n)"
proof (induction n rule: nat_str.induct)
  case (1 n)
  show ?case
  proof (cases "n < 10")
    case True
    then show ?thesis by (subst nat_str.simps) (simp add: digit_plain)
  next
    case False
    then have "plain (nat_str (n div 10) @ [''0123456789'' ! (n mod 10)])"
      by (intro plain_append 1 digit_plain) simp_all
    then show ?thesis using False by (subst nat_str.simps) simp
  qed
qed

lemma int_str_plain: "plain (int_str i)"
proof -
  have "plain ''-''" by (simp add: plain_def)
  then show ?thesis by (simp only: int_str_def plain_append nat_str_plain split: if_split) simp
qed

theorem measurement_report_witness:
  "\<exists>csv b. end_current_measurement demo_pagmo rev demo_bench_env ''run'' demo_bench = (Inr (), b)
    \<and> bn_csvStatsBuffer b = [(csv, ''run (schwefel)'')] \<and> bn_dataPoints b = []"
proof -
  have b: "bn_dataPoints demo_bench = [[2], [7]]" "bn_pointIDs demo_bench = [''META_ALL'', ''SINGLE_de'']"
      "bn_elapsedTimes demo_bench = [5, 3]" "bn_problem demo_bench = 1" "bn_csvStatsBuffer demo_bench = []"
    by (simp_all add: demo_bench_def add_data_point_def benchmark_stats_new_def)
  have prints: "prints_plain demo_bench_env" by (simp add: prints_plain_def demo_bench_env_def int_str_plain)
  have ids: "list_all plain (bn_pointIDs demo_bench)" by (simp add: b plain_def)
  have fit: "measurable demo_bench_env sum_list demo_bench"
    by (simp add: measurable_def b) (simp add: demo_bench_env_def)
  from measurement_report [OF rearranges_rev _ _ fit ids prints, of demo_pagmo "''run''"]
  show ?thesis by (auto simp: b demo_pagmo_counts demo_bench_env_def)
qed

end
