(* ===== verification/Logger.thy ===== *)
theory Logger
  imports Prelude
begin

text \<open>
  \<^verbatim>\<open>src/distributed/utils/logger_init.cpp\<close>, \<^verbatim>\<open>logger_control.cpp\<close> and \<^verbatim>\<open>logger_control.h\<close>: which logger a
  process has. The loggers are kept in the registry of spdlog, whose functions that are called are
  modelled from \<^verbatim>\<open>spdlog/details/registry-inl.h\<close>. \<open>spdlog_ex\<close>, an exception class with a text, is
  \<open>Runtime_error\<close>. What the disk answers is the record \<open>log_host\<close>.
\<close>

section \<open>The registry of spdlog\<close>

datatype level = Level_trace | Level_debug | Level_info | Level_warn | Level_err | Level_critical | Level_off

datatype sink = Stdout_color_sink string | Basic_file_sink string string | Null_sink

record logger =
  lg_name :: string
  lg_sinks :: "sink list"
  lg_level :: level
  lg_flush_level :: level

record log_registry =
  loggers :: "(string, logger) umap"
  default_logger :: "logger option"

definition log_registry_new :: log_registry where
  "log_registry_new =
    (let l = \<lparr>lg_name = '''', lg_sinks = [Stdout_color_sink ''''], lg_level = Level_info, lg_flush_level = Level_off\<rparr>
     in \<lparr>loggers = [('''', l)], default_logger = Some l\<rparr>)"

definition throw_if_exists :: "string \<Rightarrow> log_registry \<Rightarrow> unit result" where
  "throw_if_exists logger_name r =
    (if map_contains logger_name (loggers r)
     then Inl (Runtime_error (''logger with name '' @ [CHR 0x27] @ logger_name @ [CHR 0x27] @ '' already exists''))
     else Inr ())"

definition register_logger :: "logger \<Rightarrow> log_registry \<Rightarrow> unit result \<times> log_registry" where
  "register_logger new_logger r =
    (case throw_if_exists (lg_name new_logger) r of
       Inl e \<Rightarrow> (Inl e, r)
     | Inr _ \<Rightarrow> (Inr (), r\<lparr>loggers := map_assign (lg_name new_logger) new_logger (loggers r)\<rparr>))"

definition set_default_logger :: "logger \<Rightarrow> log_registry \<Rightarrow> log_registry" where
  "set_default_logger l r = r\<lparr>loggers := map_assign (lg_name l) l (loggers r), default_logger := Some l\<rparr>"

definition drop_all :: "log_registry \<Rightarrow> log_registry" where
  "drop_all r = r\<lparr>loggers := [], default_logger := None\<rparr>"

text \<open>\<open>spdlog::info\<close> and the others: a member function of \<open>*default_logger_raw()\<close>.\<close>

definition spdlog_log :: "log_registry \<Rightarrow> unit result" where
  "spdlog_log r =
    (case default_logger r of None \<Rightarrow> Inl (Undefined_behaviour ''member of a null logger'') | Some l \<Rightarrow> Inr ())"

section \<open>\<^verbatim>\<open>logger_init.cpp\<close>\<close>

record log_host =
  lh_create_directories :: "string \<Rightarrow> unit result"
  lh_open :: "string \<Rightarrow> unit result"
  lh_timestamp :: string

definition use_file_logger :: "log_host \<Rightarrow> string \<Rightarrow> bool \<Rightarrow> log_registry \<Rightarrow> unit result \<times> log_registry" where
  "use_file_logger h filePath enableConsole r =
    (case lh_create_directories h (path_parent filePath) of
       Inl e \<Rightarrow> (Inl e, r)
     | Inr _ \<Rightarrow>
         (let sinks = (if enableConsole then [Stdout_color_sink ''[%Y-%m-%d %H:%M:%S.%e] [%l] %v''] else [])
          in case lh_open h filePath of
               Inl e \<Rightarrow> (Inl e, r)
             | Inr _ \<Rightarrow>
                 (let logger = \<lparr>lg_name = ''global_logger'',
                        lg_sinks = sinks @ [Basic_file_sink filePath ''[%Y-%m-%d %H:%M:%S.%e] [%l] [pid:%P] [tid:%t] %v''],
                        lg_level = Level_trace, lg_flush_level = Level_warn\<rparr>
                  in and_then (register_logger logger r) (\<lambda>_ r. (Inr (), set_default_logger logger r)))))"

definition use_null_logger :: "log_registry \<Rightarrow> unit result \<times> log_registry" where
  "use_null_logger r =
    (let null_logger = \<lparr>lg_name = ''null_logger'', lg_sinks = [Null_sink], lg_level = Level_off, lg_flush_level = Level_off\<rparr>
     in and_then (register_logger null_logger r) (\<lambda>_ r. (Inr (), set_default_logger null_logger r)))"

definition shutdown_logger :: "log_registry \<Rightarrow> log_registry" where
  "shutdown_logger r = drop_all r"

text \<open>\<open>stem()\<close> and \<open>extension()\<close> of a path.\<close>

definition path_extension :: "string \<Rightarrow> string" where
  "path_extension p =
    (let n = path_filename p; e = takeWhile (\<lambda>c. c \<noteq> CHR ''.'') (rev n)
     in if n = ''.'' \<or> n = ''..'' \<or> length n \<le> length e + 1 then [] else CHR ''.'' # rev e)"

definition path_stem :: "string \<Rightarrow> string" where
  "path_stem p = take (length (path_filename p) - length (path_extension p)) (path_filename p)"

definition generate_log_filename :: "log_host \<Rightarrow> string \<Rightarrow> string" where
  "generate_log_filename h basePath =
     path_append (path_parent basePath) (path_stem basePath @ ''_'' @ lh_timestamp h @ path_extension basePath)"

section \<open>\<^verbatim>\<open>logger_control\<close>\<close>

text \<open>The object is its flag; every member function works on the registry of the process too.\<close>

definition logger_control_new :: "log_registry \<Rightarrow> bool result \<times> log_registry" where
  "logger_control_new r = and_then (use_null_logger r) (\<lambda>_ r. (Inr False, r))"

definition logger_control_destroy :: "bool \<Rightarrow> log_registry \<Rightarrow> log_registry" where
  "logger_control_destroy loggerEnabled r = (if loggerEnabled then shutdown_logger r else r)"

definition enable_logging_to :: "log_host \<Rightarrow> string \<Rightarrow> bool \<Rightarrow> bool \<times> log_registry \<Rightarrow> unit result \<times> bool \<times> log_registry" where
  "enable_logging_to h logFilePath writeToConsole s =
    (let (res, r) = use_file_logger h logFilePath writeToConsole (snd s) in (res, True, r))"

definition enable_logging :: "log_host \<Rightarrow> string \<Rightarrow> bool \<Rightarrow> bool \<times> log_registry \<Rightarrow> unit result \<times> bool \<times> log_registry" where
  "enable_logging h default_log_name writeToConsole s =
     enable_logging_to h (generate_log_filename h default_log_name @ ''.log'') writeToConsole s"

definition disable_logging :: "bool \<times> log_registry \<Rightarrow> unit result \<times> bool \<times> log_registry" where
  "disable_logging s = (let (res, r) = use_null_logger (snd s) in (res, False, r))"

definition is_logging_enabled :: "bool \<times> log_registry \<Rightarrow> bool" where
  "is_logging_enabled s = fst s"

section \<open>What happens in a process\<close>

text \<open>The member functions as one operation on the flag of a control and the registry.\<close>

datatype log_op = Enable string bool | Disable

fun log_step :: "log_host \<Rightarrow> log_op \<Rightarrow> bool \<times> log_registry \<Rightarrow> unit result \<times> bool \<times> log_registry" where
  "log_step h (Enable path console) s = enable_logging_to h path console s"
| "log_step h Disable s = disable_logging s"

fun log_run :: "log_host \<Rightarrow> log_op list \<Rightarrow> bool \<times> log_registry \<Rightarrow> unit result list \<times> bool \<times> log_registry" where
  "log_run h [] s = ([], s)"
| "log_run h (x # xs) s = (let (res, s) = log_step h x s; (rs, s) = log_run h xs s in (res # rs, s))"

lemma use_null_logger_eq:
  "map_contains ''null_logger'' (loggers r) \<Longrightarrow>
   use_null_logger r = (Inl (Runtime_error (''logger with name '' @ [CHR 0x27] @ ''null_logger'' @ [CHR 0x27] @ '' already exists'')), r)"
  by (simp add: use_null_logger_def register_logger_def throw_if_exists_def Let_def)

text \<open>
  After the construction of a control: its null logger is registered, and the default logger is
  the file logger when that one is registered and the null logger otherwise.
\<close>

definition log_inv :: "log_registry \<Rightarrow> bool" where
  "log_inv r \<longleftrightarrow> map_contains ''null_logger'' (loggers r)
     \<and> map_option lg_name (default_logger r)
         = Some (if map_contains ''global_logger'' (loggers r) then ''global_logger'' else ''null_logger'')"

lemma control_inv:
  assumes "logger_control_new r = (Inr en, r')" and "\<not> map_contains ''global_logger'' (loggers r)"
  shows "log_inv r' \<and> \<not> map_contains ''global_logger'' (loggers r') \<and> \<not> en"
  using assms
  by (auto simp: logger_control_new_def use_null_logger_def register_logger_def throw_if_exists_def set_default_logger_def
      log_inv_def map_contains_iff Let_def split: if_splits)

lemma file_logger_cases:
  assumes "log_inv r"
  shows "(\<not> is_ok (fst (use_file_logger h p c r)) \<and> snd (use_file_logger h p c r) = r)
    \<or> (is_ok (fst (use_file_logger h p c r)) \<and> \<not> map_contains ''global_logger'' (loggers r)
       \<and> log_inv (snd (use_file_logger h p c r)) \<and> map_contains ''global_logger'' (loggers (snd (use_file_logger h p c r))))"
proof -
  define l where "l = \<lparr>lg_name = ''global_logger'',
    lg_sinks = (if c then [Stdout_color_sink ''[%Y-%m-%d %H:%M:%S.%e] [%l] %v''] else [])
      @ [Basic_file_sink p ''[%Y-%m-%d %H:%M:%S.%e] [%l] [pid:%P] [tid:%t] %v''],
    lg_level = Level_trace, lg_flush_level = Level_warn\<rparr>"
  have name: "lg_name l = ''global_logger''" by (simp add: l_def)
  have f: "use_file_logger h p c r = (case lh_create_directories h (path_parent p) of Inl e \<Rightarrow> (Inl e, r)
      | Inr _ \<Rightarrow> (case lh_open h p of Inl e \<Rightarrow> (Inl e, r)
          | Inr _ \<Rightarrow> and_then (register_logger l r) (\<lambda>_ r. (Inr (), set_default_logger l r))))"
    unfolding use_file_logger_def l_def Let_def by (rule refl)
  show ?thesis
    using assms unfolding f
    by (cases "lh_create_directories h (path_parent p)"; cases "lh_open h p"; cases "map_contains ''global_logger'' (loggers r)")
      (simp_all add: register_logger_def throw_if_exists_def set_default_logger_def name log_inv_def map_contains_iff)
qed

lemma log_run_once:
  "log_inv r \<Longrightarrow> log_run h xs (en, r) = (rs, en', r') \<Longrightarrow>
   log_inv r' \<and> length rs = length xs
   \<and> (\<forall>(x, res) \<in> set (zip xs rs). x = Disable \<longrightarrow> \<not> is_ok res)
   \<and> length (filter is_ok rs) + (if map_contains ''global_logger'' (loggers r) then 1 else 0)
     = (if map_contains ''global_logger'' (loggers r') then 1 else 0)"
proof (induction xs arbitrary: en r rs)
  case Nil
  then show ?case by simp
next
  case (Cons x xs)
  obtain res en1 r1 where step: "log_step h x (en, r) = (res, en1, r1)" by (cases "log_step h x (en, r)") auto
  then obtain rs1 where run: "log_run h xs (en1, r1) = (rs1, en', r')" "rs = res # rs1"
    using Cons.prems(2) by (auto split: prod.splits)
  have "log_inv r1 \<and> (x = Disable \<longrightarrow> \<not> is_ok res)
    \<and> (if is_ok res then 1 else 0) + (if map_contains ''global_logger'' (loggers r) then 1 else (0::nat))
      = (if map_contains ''global_logger'' (loggers r1) then 1 else 0)"
  proof (cases x)
    case Disable
    then show ?thesis using step Cons.prems(1)
      by (auto simp: disable_logging_def use_null_logger_eq log_inv_def)
  next
    case (Enable p c)
    then show ?thesis using step Cons.prems(1) file_logger_cases [OF Cons.prems(1), of h p c]
      by (auto simp: enable_logging_to_def case_prod_beta)
  qed
  then show ?case using Cons.IH [OF _ run(1)] run(2) by (auto split: if_splits)
qed

section \<open>Properties\<close>

text \<open>
  C36: logging is switched on at most once and never off. Take the first control of a process and
  any calls of \<open>enable_logging\<close> and \<open>disable_logging\<close> on it: every \<open>disable_logging\<close> throws (its
  null logger is registered already), at most one \<open>enable_logging\<close> succeeds, and what the process
  logs goes to the file of that one, or nowhere when there is none.
\<close>

theorem logging_enabled_at_most_once:
  assumes "logger_control_new log_registry_new = (Inr en, r)" and "log_run h xs (en, r) = (rs, en', r')"
  shows "length rs = length xs \<and> (\<forall>(x, res) \<in> set (zip xs rs). x = Disable \<longrightarrow> \<not> is_ok res)
    \<and> length (filter is_ok rs) \<le> 1
    \<and> map_option lg_name (default_logger r') = Some (if filter is_ok rs = [] then ''null_logger'' else ''global_logger'')"
proof -
  have new: "log_inv r \<and> \<not> map_contains ''global_logger'' (loggers r)"
    using control_inv [OF assms(1)] by (simp add: log_registry_new_def map_contains_def Let_def)
  note run = log_run_once [OF conjunct1 [OF new] assms(2)]
  have "filter is_ok rs = [] \<longleftrightarrow> \<not> map_contains ''global_logger'' (loggers r')"
    using run new by (auto split: if_splits)
  then show ?thesis using run new by (auto simp: log_inv_def split: if_splits)
qed

definition demo_log_host :: log_host where
  "demo_log_host = \<lparr>lh_create_directories = (\<lambda>p. Inr ()), lh_open = (\<lambda>p. Inr ()), lh_timestamp = ''2026-01-01_00-00-00''\<rparr>"

theorem logging_enabled_at_most_once_witness:
  "\<exists>en r rs s. logger_control_new log_registry_new = (Inr en, r)
    \<and> log_run demo_log_host [Enable ''l/x.log'' True, Disable, Enable ''l/y.log'' True] (en, r) = (rs, s)
    \<and> length (filter is_ok rs) \<le> 1"
proof -
  have "fst (logger_control_new log_registry_new) = Inr False"
    by (simp add: logger_control_new_def use_null_logger_def register_logger_def throw_if_exists_def
        log_registry_new_def map_contains_def Let_def)
  then obtain en r where new: "logger_control_new log_registry_new = (Inr en, r)" by (metis prod.collapse)
  obtain rs en' r' where run: "log_run demo_log_host [Enable ''l/x.log'' True, Disable, Enable ''l/y.log'' True] (en, r) = (rs, en', r')"
    by (metis prod_cases3)
  show ?thesis using logging_enabled_at_most_once [OF new run] new run by blast
qed

end
