(* ===== verification/Main_Program.thy ===== *)
theory Main_Program
  imports Logger Benchmark Solver Udp_Registry Worker
begin

text \<open>
  \<^verbatim>\<open>src/run_example/main.cpp\<close>: the program that runs a controller or a worker. Modelled are the
  command line, the help, the choice of what is run with which settings, and what becomes of exceptions:
  the handlers of \<open>run_controller\<close> and \<open>run_worker\<close>, which log and throw again, and the one of \<open>main\<close>.

  What a solver or a worker does between its construction and its destruction is the business of
  the other components; here it is an outcome (\<open>main_env\<close>), and destructors of members do not throw. Their base class \<open>logger_control\<close>, which
  decides what the handlers find, is the model of \<open>Logger\<close>.
\<close>

section \<open>The command line\<close>

record main_args =
  isController :: bool
  ma_address :: string
  ma_workers :: u64
  ma_strategy :: string
  ma_workerMode :: string
  ma_minPopSize :: u64
  ma_cacheDir :: string
  ma_runBenchmark :: bool
  ma_disableLogging :: bool
  ma_noWorkerDirectory :: bool
  ma_workerDir :: string
  ma_runSOBenchmark :: bool
  ma_runMOBenchmark :: bool

definition defaultAddressWorker :: string where
  "defaultAddressWorker = ''tcp://localhost:5000''"

definition defaultAddressController :: string where
  "defaultAddressController = ''tcp://0.0.0.0:5000''"

definition defaultCacheDirWorker :: string where
  "defaultCacheDirWorker = ''worker_cache''"

definition defaultCacheDirController :: string where
  "defaultCacheDirController = ''controller_cache''"

definition main_args_default :: main_args where
  "main_args_default = \<lparr>isController = False, ma_address = '''', ma_workers = 2, ma_strategy = ''BY_PERFORMANCE'',
     ma_workerMode = ''ARCHIPELAGO_BASED'', ma_minPopSize = 80, ma_cacheDir = '''', ma_runBenchmark = False,
     ma_disableLogging = False, ma_noWorkerDirectory = False, ma_workerDir = '''',
     ma_runSOBenchmark = False, ma_runMOBenchmark = False\<rparr>"

text \<open>\<open>std::stoul\<close> in base ten: blanks, a sign, digits; what follows is ignored.\<close>

definition isspace :: "char \<Rightarrow> bool" where
  "isspace c \<longleftrightarrow> (of_char c :: nat) \<in> {9, 10, 11, 12, 13, 32}"

definition isdigit :: "char \<Rightarrow> bool" where
  "isdigit c \<longleftrightarrow> 48 \<le> (of_char c :: nat) \<and> (of_char c :: nat) \<le> 57"

definition digits_value :: "string \<Rightarrow> nat" where
  "digits_value ds = foldl (\<lambda>n c. 10 * n + (of_char c - 48)) 0 ds"

definition stoul :: "string \<Rightarrow> u64 result" where
  "stoul s =
    (let t = dropWhile isspace s;
         negative = (t \<noteq> [] \<and> hd t = CHR ''-'');
         t = (if t \<noteq> [] \<and> (hd t = CHR ''-'' \<or> hd t = CHR ''+'') then tl t else t);
         ds = takeWhile isdigit t
     in if ds = [] then Inl (Invalid_argument ''stoul'')
        else if 2 ^ 64 \<le> digits_value ds then Inl (Out_of_range ''stoul'')
        else Inr (if negative then - of_nat (digits_value ds) else of_nat (digits_value ds)))"

text \<open>The options without a value, and those that take the next argument.\<close>

definition set_flag :: "string \<Rightarrow> main_args \<Rightarrow> bool \<Rightarrow> (main_args \<times> bool) option" where
  "set_flag a ma modeSet =
    (if a = ''--help'' \<or> a = ''-h'' then Some (ma, modeSet)
     else if a = ''--controller'' then Some (ma\<lparr>isController := True\<rparr>, True)
     else if a = ''--benchmark-so'' then Some (ma\<lparr>ma_runSOBenchmark := True\<rparr>, modeSet)
     else if a = ''--benchmark-mo'' then Some (ma\<lparr>ma_runMOBenchmark := True\<rparr>, modeSet)
     else if a = ''--benchmark'' then Some (ma\<lparr>ma_runBenchmark := True\<rparr>, modeSet)
     else if a = ''--disable-logging'' then Some (ma\<lparr>ma_disableLogging := True\<rparr>, modeSet)
     else if a = ''--worker'' then Some (ma\<lparr>isController := False\<rparr>, True)
     else if a = ''--no-worker-isolation'' then Some (ma\<lparr>ma_noWorkerDirectory := True\<rparr>, modeSet)
     else None)"

definition set_value :: "string \<Rightarrow> (string \<Rightarrow> main_args \<Rightarrow> main_args result) option" where
  "set_value a =
    (if a = ''--address'' then Some (\<lambda>v ma. Inr (ma\<lparr>ma_address := v\<rparr>))
     else if a = ''--workers'' then Some (\<lambda>v ma. map_sum id (\<lambda>n. ma\<lparr>ma_workers := n\<rparr>) (stoul v))
     else if a = ''--strategy'' then Some (\<lambda>v ma. Inr (ma\<lparr>ma_strategy := v\<rparr>))
     else if a = ''--mode'' then Some (\<lambda>v ma. Inr (ma\<lparr>ma_workerMode := v\<rparr>))
     else if a = ''--min-pop-size'' then Some (\<lambda>v ma. map_sum id (\<lambda>n. ma\<lparr>ma_minPopSize := n\<rparr>) (stoul v))
     else if a = ''--cache-dir'' then Some (\<lambda>v ma. Inr (ma\<lparr>ma_cacheDir := v\<rparr>))
     else if a = ''--worker-dir'' then Some (\<lambda>v ma. Inr (ma\<lparr>ma_workerDir := v\<rparr>))
     else None)"

text \<open>The loop over the arguments after the name of the program.\<close>

fun parse_loop :: "string list \<Rightarrow> main_args \<Rightarrow> bool \<Rightarrow> (main_args \<times> bool) result" where
  "parse_loop [] ma modeSet = Inr (ma, modeSet)"
| "parse_loop (a # rest) ma modeSet =
    (case set_flag a ma modeSet of
       Some (ma, modeSet) \<Rightarrow> parse_loop rest ma modeSet
     | None \<Rightarrow>
         (case set_value a of
            None \<Rightarrow> Inr (ma, False)
          | Some f \<Rightarrow>
              (case rest of
                 [] \<Rightarrow> Inl (Runtime_error (a @ '' requires a value''))
               | v # rest \<Rightarrow>
                   (case f v ma of Inl e \<Rightarrow> Inl e | Inr ma \<Rightarrow> parse_loop rest ma modeSet))))"

definition parse_main_args :: "string list \<Rightarrow> main_args option result" where
  "parse_main_args args =
     map_sum id (\<lambda>(ma, modeSet). if modeSet then Some ma else None) (parse_loop args main_args_default False)"

text \<open>The help is shown when no mode is set or an argument is not known.\<close>

definition print_help :: "string \<Rightarrow> string" where
  "print_help argv0 =
    (let fName = path_filename argv0
     in lines_of
       [''Usage:'',
        ''  '' @ fName @ '' --controller [options]'',
        ''  '' @ fName @ '' --worker     [options]'',
        '''',
        ''Common options:'',
        ''  --disable-logging'',
        ''  --benchmark-so  Run single-objective benchmarks'',
        ''  --benchmark-mo  Run multi-objective benchmarks'',
        '''',
        ''Controller options:'',
        ''  --address      <addr>  (default: tcp://0.0.0.0:5000)'',
        ''  --workers      <n>     Expected worker count (default: 2)'',
        ''  --strategy     <name>  (default: BY_PERFORMANCE)'',
        ''  --cache-dir    <dir>   (default: controller_cache)'',
        '''',
        ''Worker options:'',
        ''  --address      <addr>  (default: tcp://localhost:5000)'',
        ''  --mode         <name>  (default: ARCHIPELAGO_BASED)'',
        ''  --min-pop-size <n>     (default: 80)'',
        ''  --cache-dir    <dir>   (default: worker_cache)'',
        ''  --worker-dir   <name>  Per-worker isolated subdirectory name (default: auto-generated UUID)'',
        ''  --no-worker-isolation  Disable per-worker isolated subdirectory with cache and settings'',
        '''',
        ''''])"

definition help_shown :: "string \<Rightarrow> string list \<Rightarrow> string" where
  "help_shown argv0 args = (case parse_main_args args of Inr None \<Rightarrow> print_help argv0 | _ \<Rightarrow> [])"

section \<open>The tasks\<close>

record controller_config =
  cc_address :: string
  cc_expectedWorkerCount :: nat
  cc_strategy :: load_balancing_strategy
  cc_localCacheDir :: string
  cc_disableLogging :: bool

record worker_config =
  wc_address :: string
  wc_mode :: worker_mode
  wc_minIslandPopSize :: u64
  wc_localCacheDir :: string
  wc_settingsFilePath :: string
  wc_disableLogging :: bool

text \<open>
  Outcomes: of the construction of a solver without its base class, of what is done with it in
  each of the three programs, of what comes before it, of the construction of a worker and of
  its endless loop (\<open>None\<close> as long as nothing is thrown). \<open>me_provider\<close> is
  \<open>get_dll_from_controller\<close> of the worker.
\<close>

record main_env =
  me_log :: log_host
  me_problem :: "registry \<Rightarrow> unit result"
  me_solver :: "controller_config \<Rightarrow> unit result"
  me_default_work :: "controller_config \<Rightarrow> unit result"
  me_so_work :: "controller_config \<Rightarrow> unit result"
  me_mo_work :: "controller_config \<Rightarrow> unit result"
  me_worker :: "worker_config \<Rightarrow> unit result"
  me_client_loop :: "worker_config \<Rightarrow> registry \<Rightarrow> cpp_error option"
  me_provider :: "string \<Rightarrow> bytes option result"
  me_uuid :: string
  me_create_directories :: "string \<Rightarrow> unit result"

text \<open>
  The life of an object derived from \<open>logger_control\<close>: base class, members, \<open>enable_logging\<close> if
  wanted, the work; then, also when something was thrown, the destructor.
\<close>

definition in_scope :: "log_host \<Rightarrow> string \<Rightarrow> bool \<Rightarrow> unit result \<Rightarrow> unit result \<Rightarrow> log_registry \<Rightarrow> unit result \<times> log_registry" where
  "in_scope h log_name enable members work r =
    (case logger_control_new r of
       (Inl e, r) \<Rightarrow> (Inl e, r)
     | (Inr enabled, r) \<Rightarrow>
         (case members of
            Inl e \<Rightarrow> (Inl e, logger_control_destroy enabled r)
          | Inr _ \<Rightarrow>
              (case (if enable then Logger.enable_logging h log_name True (enabled, r) else (Inr (), enabled, r)) of
                 (Inl e, enabled, r) \<Rightarrow> (Inl e, logger_control_destroy enabled r)
               | (Inr _, enabled, r) \<Rightarrow> (work, logger_control_destroy enabled r))))"

definition benchmark_controller_task :: "main_env \<Rightarrow> registry \<Rightarrow> bool \<Rightarrow> bool \<Rightarrow> controller_config \<Rightarrow> log_registry \<Rightarrow> unit result \<times> log_registry" where
  "benchmark_controller_task env reg runSO runMO c r =
    (let reg = set_local_cache_dir (cc_localCacheDir c) reg
     in and_then
          (if runSO then in_scope (me_log env) ''./logs/solver'' False
                           (me_solver env (c\<lparr>cc_expectedWorkerCount := get_so_algorithm_count\<rparr>)) (me_so_work env c) r
           else (Inr (), r))
          (\<lambda>_ r. if runMO then in_scope (me_log env) ''./logs/solver'' False
                               (me_solver env (c\<lparr>cc_expectedWorkerCount := get_mo_algorithm_count\<rparr>)) (me_mo_work env c) r
                  else (Inr (), r)))"

definition default_controller_task :: "main_env \<Rightarrow> registry \<Rightarrow> controller_config \<Rightarrow> log_registry \<Rightarrow> unit result \<times> log_registry" where
  "default_controller_task env reg c r =
    (let reg = set_local_cache_dir (cc_localCacheDir c) reg
     in and_then (me_problem env reg, r)
          (\<lambda>_. in_scope (me_log env) ''./logs/solver'' (\<not> cc_disableLogging c) (me_solver env c) (me_default_work env c)))"

section \<open>Running and handling exceptions\<close>

text \<open>The handlers: the text is logged, then thrown.\<close>

definition log_and_rethrow :: "string \<Rightarrow> unit result \<times> log_registry \<Rightarrow> unit result \<times> log_registry" where
  "log_and_rethrow errMsg m =
    (case m of
       (Inr u, r) \<Rightarrow> (Inr u, r)
     | (Inl e, r) \<Rightarrow>
         if is_exception e
         then (case spdlog_log r of Inl ub \<Rightarrow> (Inl ub, r) | Inr _ \<Rightarrow> (Inl (wrap_error errMsg e), r))
         else (Inl e, r))"

definition run_controller :: "(controller_config \<Rightarrow> log_registry \<Rightarrow> unit result \<times> log_registry) \<Rightarrow> controller_config \<Rightarrow> log_registry \<Rightarrow> unit result \<times> log_registry" where
  "run_controller runFunc c r = log_and_rethrow ''Aborting distributed solver, an exception occurred: '' (runFunc c r)"

text \<open>
  \<open>None\<close>: the worker runs on, which it does unless something is thrown before or in its loop.
\<close>

definition run_worker :: "main_env \<Rightarrow> registry \<Rightarrow> worker_config \<Rightarrow> log_registry \<Rightarrow> (unit result \<times> log_registry) option" where
  "run_worker env reg c r =
    (let reg = register_udp_provider (me_provider env) (set_local_cache_dir (wc_localCacheDir c) reg);
         loop = me_client_loop env c reg;
         (res, r) = in_scope (me_log env) ''./logs/worker'' (\<not> wc_disableLogging c) (me_worker env c)
                      (case loop of Some e \<Rightarrow> Inl e | None \<Rightarrow> Inr ()) r
     in if is_ok res then None
        else Some (log_and_rethrow ''Aborting distributed worker, an exception occurred: '' (res, r)))"

datatype exit = Exit int | Abort cpp_error

text \<open>The command line decides the settings.\<close>

definition controller_config_of :: "main_args \<Rightarrow> controller_config" where
  "controller_config_of ma =
     \<lparr>cc_address = (if ma_address ma = [] then defaultAddressController else ma_address ma),
      cc_expectedWorkerCount = unat (ma_workers ma),
      cc_strategy = (if ma_strategy ma = ''ALL_ISLANDS_EQUAL'' then ALL_ISLANDS_EQUAL else BY_PERFORMANCE),
      cc_localCacheDir = (if ma_cacheDir ma = [] then defaultCacheDirController else ma_cacheDir ma),
      cc_disableLogging = ma_disableLogging ma\<rparr>"

definition worker_root :: "main_env \<Rightarrow> main_args \<Rightarrow> string" where
  "worker_root env ma =
     path_append (if ma_cacheDir ma = [] then defaultCacheDirWorker else ma_cacheDir ma)
       (if ma_workerDir ma = [] then ''worker_'' @ me_uuid env else ma_workerDir ma)"

definition worker_config_of :: "main_env \<Rightarrow> main_args \<Rightarrow> worker_config" where
  "worker_config_of env ma =
    (let baseCacheDir = (if ma_cacheDir ma = [] then defaultCacheDirWorker else ma_cacheDir ma)
     in \<lparr>wc_address = (if ma_address ma = [] then defaultAddressWorker else ma_address ma),
         wc_mode = (if ma_workerMode ma = ''ARCHIPELAGO_BASED'' then ARCHIPELAGO_BASED else SINGLE_THREADED),
         wc_minIslandPopSize = ma_minPopSize ma,
         wc_localCacheDir = (if ma_noWorkerDirectory ma then baseCacheDir else path_append (worker_root env ma) ''cache''),
         wc_settingsFilePath = path_append (if ma_noWorkerDirectory ma then baseCacheDir else worker_root env ma) ''worker_settings.xml'',
         wc_disableLogging = ma_disableLogging ma\<rparr>)"

definition exit_of :: "unit result \<Rightarrow> exit" where
  "exit_of r = (case r of Inr _ \<Rightarrow> Exit 0 | Inl e \<Rightarrow> if is_exception e then Exit 2 else Abort e)"

text \<open>\<open>main\<close> with the arguments after the name of the program; \<open>None\<close>: it runs on.\<close>

definition main_body :: "main_env \<Rightarrow> registry \<Rightarrow> main_args \<Rightarrow> log_registry \<Rightarrow> exit option" where
  "main_body env reg ma r =
    (if isController ma
     then let task = (if ma_runSOBenchmark ma \<or> ma_runMOBenchmark ma
                      then benchmark_controller_task env reg (ma_runSOBenchmark ma) (ma_runMOBenchmark ma)
                      else default_controller_task env reg)
          in Some (exit_of (fst (run_controller task (controller_config_of ma) r)))
     else case (if ma_noWorkerDirectory ma then Inr () else me_create_directories env (path_append (worker_root env ma) ''cache'')) of
            Inl e \<Rightarrow> Some (exit_of (Inl e))
          | Inr _ \<Rightarrow> map_option (exit_of \<circ> fst) (run_worker env reg (worker_config_of env ma) r))"

definition main :: "main_env \<Rightarrow> string list \<Rightarrow> registry \<Rightarrow> exit option" where
  "main env args reg =
    (case parse_main_args args of
       Inl e \<Rightarrow> Some (Abort (Terminate ''exception left main''))
     | Inr None \<Rightarrow> Some (Exit 2)
     | Inr (Some ma) \<Rightarrow>
         (case (if ma_disableLogging ma then use_null_logger log_registry_new else (Inr (), log_registry_new)) of
            (Inl e, r) \<Rightarrow> Some (Abort (Terminate ''exception left main''))
          | (Inr _, r) \<Rightarrow> main_body env reg ma r))"

end
