(* ===== verification/Main_Correct.thy ===== *)
theory Main_Correct
  imports Main_Program
begin

text \<open>
  What the program does with its command line: every setting can be given and is what is run, and
  three ways to fail that its exit code does not show as intended.
\<close>

section \<open>Numbers on the command line\<close>

lemma digit_value: "n < 10 \<Longrightarrow> isdigit (''0123456789'' ! n) \<and> of_char (''0123456789'' ! n) - 48 = n"
proof -
  assume "n < 10"
  then have "n \<in> {0, 1, 2, 3, 4, 5, 6, 7, 8, 9}" by auto
  then show ?thesis by (auto simp: isdigit_def)
qed

lemma nat_str_digits: "list_all isdigit (nat_str n) \<and> nat_str n \<noteq> [] \<and> digits_value (nat_str n) = n"
proof (induction n rule: nat_str.induct)
  case (1 n)
  show ?case
  proof (cases "n < 10")
    case True
    then show ?thesis using digit_value [OF True]
      by (subst (1 2 3) nat_str.simps) (simp add: digits_value_def)
  next
    case False
    have "digits_value (nat_str (n div 10) @ [''0123456789'' ! (n mod 10)]) = 10 * (n div 10) + n mod 10"
      using 1 [OF False] digit_value [of "n mod 10"] by (simp add: digits_value_def)
    then show ?thesis using False 1 [OF False] digit_value [of "n mod 10"]
      by (subst (1 2 3) nat_str.simps) simp
  qed
qed

lemma isdigit_no_blank: "isdigit c \<Longrightarrow> \<not> isspace c \<and> c \<noteq> CHR ''-'' \<and> c \<noteq> CHR ''+''"
  by (auto simp: isdigit_def isspace_def)

lemma stoul_nat_str: "stoul (nat_str (unat n)) = Inr n"
proof -
  note d = nat_str_digits [of "unat n"]
  obtain c cs where t: "nat_str (unat n) = c # cs" using d by (cases "nat_str (unat n)") auto
  have c: "\<not> isspace c" "c \<noteq> CHR ''-''" "c \<noteq> CHR ''+''" using d isdigit_no_blank [of c] by (auto simp: t)
  have digits: "takeWhile isdigit (c # cs) = c # cs" using d unfolding t list_all_iff takeWhile_eq_all_conv by blast
  have "unat n < 2 ^ LENGTH(64)" by (rule unsigned_less)
  then show ?thesis using c d by (simp add: stoul_def Let_def t digits del: takeWhile.simps)
qed

section \<open>Properties\<close>

text \<open>The arguments that set everything explicitly.\<close>

definition render_args :: "main_args \<Rightarrow> string list" where
  "render_args ma =
     [if isController ma then ''--controller'' else ''--worker'', ''--address'', ma_address ma,
      ''--workers'', nat_str (unat (ma_workers ma)), ''--strategy'', ma_strategy ma, ''--mode'', ma_workerMode ma,
      ''--min-pop-size'', nat_str (unat (ma_minPopSize ma)), ''--cache-dir'', ma_cacheDir ma, ''--worker-dir'', ma_workerDir ma]
     @ (if ma_runBenchmark ma then [''--benchmark''] else []) @ (if ma_disableLogging ma then [''--disable-logging''] else [])
     @ (if ma_noWorkerDirectory ma then [''--no-worker-isolation''] else [])
     @ (if ma_runSOBenchmark ma then [''--benchmark-so''] else []) @ (if ma_runMOBenchmark ma then [''--benchmark-mo''] else [])"

text \<open>
  C33: every setting can be given on the command line. For all values of the settings, also texts
  that look like options, the arguments that spell them out are read back as exactly these
  settings.
\<close>

theorem command_line_roundtrip:
  "parse_main_args (render_args ma) = Inr (Some ma)"
proof -
  have flags: "parse_loop ((if ma_runBenchmark ma then [''--benchmark''] else []) @ (if ma_disableLogging ma then [''--disable-logging''] else [])
     @ (if ma_noWorkerDirectory ma then [''--no-worker-isolation''] else [])
     @ (if ma_runSOBenchmark ma then [''--benchmark-so''] else []) @ (if ma_runMOBenchmark ma then [''--benchmark-mo''] else [])) x True
     = Inr (x\<lparr>ma_runBenchmark := ma_runBenchmark ma \<or> ma_runBenchmark x, ma_disableLogging := ma_disableLogging ma \<or> ma_disableLogging x,
         ma_noWorkerDirectory := ma_noWorkerDirectory ma \<or> ma_noWorkerDirectory x,
         ma_runSOBenchmark := ma_runSOBenchmark ma \<or> ma_runSOBenchmark x, ma_runMOBenchmark := ma_runMOBenchmark ma \<or> ma_runMOBenchmark x\<rparr>, True)" for x
    by (cases x) (simp add: set_flag_def)
  show ?thesis
    by (cases ma) (simp add: parse_main_args_def render_args_def set_flag_def set_value_def stoul_nat_str flags main_args_default_def)
qed

section \<open>What the handlers find\<close>

definition ordinary :: "unit result \<Rightarrow> bool" where
  "ordinary r \<longleftrightarrow> (\<forall>e. r = Inl e \<longrightarrow> is_exception e)"

lemma wrapped_is_exception: "is_exception e \<Longrightarrow> is_exception (wrap_error t e)"
  by (cases e) simp_all

lemma handled_exits: "is_exception e \<Longrightarrow> default_logger r \<noteq> None \<Longrightarrow> exit_of (fst (log_and_rethrow t (Inl e, r))) = Exit 2"
  by (auto simp: log_and_rethrow_def spdlog_log_def exit_of_def wrapped_is_exception)

lemma handler_crashes: "is_exception e \<Longrightarrow> default_logger r = None \<Longrightarrow>
    exit_of (fst (log_and_rethrow t (Inl e, r))) = Abort (Undefined_behaviour ''member of a null logger'')"
  by (simp add: log_and_rethrow_def spdlog_log_def exit_of_def)

text \<open>Once a null logger is registered no object with a logger can be made.\<close>

definition null_logger_exists :: cpp_error where
  "null_logger_exists = Runtime_error (''logger with name '' @ [CHR 0x27] @ ''null_logger'' @ [CHR 0x27] @ '' already exists'')"

lemma null_logged_scope:
  "map_contains ''null_logger'' (loggers r) \<Longrightarrow> in_scope h n enable members work r = (Inl null_logger_exists, r)"
  by (simp add: in_scope_def logger_control_new_def use_null_logger_eq null_logger_exists_def)

lemma null_logger_exception: "is_exception null_logger_exists"
  by (simp add: null_logger_exists_def)

lemma null_logged_program:
  assumes "use_null_logger log_registry_new = (res, r)"
  shows "res = Inr () \<and> map_contains ''null_logger'' (loggers r) \<and> default_logger r \<noteq> None"
  using assms
  by (auto simp: use_null_logger_def register_logger_def throw_if_exists_def set_default_logger_def log_registry_new_def
      map_contains_def map_assign_def Let_def)

lemma null_logged_body:
  assumes null: "map_contains ''null_logger'' (loggers r)" "default_logger r \<noteq> None"
    and "\<And>reg. ordinary (me_problem env reg)" and "\<And>p. ordinary (me_create_directories env p)"
  shows "main_body env reg ma r = Some (Exit 2)"
proof -
  note scope = null_logged_scope [OF null(1)] null_logger_exception
  show ?thesis
  proof (cases "isController ma")
    case True
    let ?c = "controller_config_of ma"
    have "exit_of (fst (log_and_rethrow t (benchmark_controller_task env reg so mo ?c r))) = Exit 2" if "so \<or> mo" for t so mo
      using that null(2) by (subst (1) benchmark_controller_task_def)
        (cases so; simp add: Let_def scope handled_exits)
    moreover have "exit_of (fst (log_and_rethrow t (default_controller_task env reg ?c r))) = Exit 2" for t
      using assms(3) null(2) unfolding default_controller_task_def Let_def ordinary_def
      by (cases "me_problem env (set_local_cache_dir (cc_localCacheDir ?c) reg)") (simp_all add: scope handled_exits)
    ultimately show ?thesis using True by (simp add: main_body_def run_controller_def)
  next
    case False
    have "run_worker env reg c r = Some (log_and_rethrow ''Aborting distributed worker, an exception occurred: ''
        (in_scope (me_log env) ''./logs/worker'' (\<not> wc_disableLogging c) (me_worker env c)
           (case me_client_loop env c (register_udp_provider (me_provider env) (set_local_cache_dir (wc_localCacheDir c) reg)) of
              Some e \<Rightarrow> Inl e | None \<Rightarrow> Inr ()) r))" for c
      by (simp add: run_worker_def Let_def scope)
    then have "map_option (exit_of \<circ> fst) (run_worker env reg c r) = Some (Exit 2)" for c
      using null(2) by (simp add: scope handled_exits)
    then show ?thesis using False assms(4)
      by (auto simp: main_body_def ordinary_def exit_of_def split: sum.split)
  qed
qed

text \<open>
  C38: with \<open>--disable-logging\<close> nothing is ever run. Whatever else is on the command line: \<open>main\<close>
  registers the null logger, the constructor of every solver and worker registers it again, which
  throws, and the program ends with exit code 2 before the solver or the worker has started.
\<close>

theorem disable_logging_never_runs:
  assumes "parse_main_args args = Inr (Some ma)" and "ma_disableLogging ma"
    and "\<And>reg. ordinary (me_problem env reg)" and "\<And>p. ordinary (me_create_directories env p)"
  shows "main env args reg = Some (Exit 2)"
proof -
  obtain res r where r: "use_null_logger log_registry_new = (res, r)" by fastforce
  note null = null_logged_program [OF r]
  have "main_body env reg ma r = Some (Exit 2)" by (rule null_logged_body) (use null assms(3,4) in auto)
  then show ?thesis using assms(1,2) r null by (simp add: main_def)
qed

text \<open>With logging, an exception from the work finds no logger.\<close>

lemma logged_scope:
  assumes "lh_create_directories h (path_parent (generate_log_filename h n @ ''.log'')) = Inr ()"
    and "lh_open h (generate_log_filename h n @ ''.log'') = Inr ()"
  shows "\<exists>r. in_scope h n True (Inr ()) work log_registry_new = (work, r) \<and> default_logger r = None"
  using assms
  by (simp add: in_scope_def logger_control_new_def use_null_logger_def register_logger_def throw_if_exists_def
      log_registry_new_def map_contains_def map_assign_def Let_def enable_logging_def enable_logging_to_def use_file_logger_def
      set_default_logger_def logger_control_destroy_def shutdown_logger_def drop_all_def)

text \<open>
  C39: a failure of the work crashes the program. When logging is on (the default) and the log
  file can be opened, an exception thrown by the solver while it works, or by the worker's loop,
  destroys the solver or worker on its way, which shuts the loggers down; the handler then logs
  through the default logger, which is gone. The program does not end with exit code 2 as the
  handlers intend: it calls a member function of a null pointer.
\<close>

theorem failing_work_crashes_program:
  assumes "parse_main_args args = Inr (Some ma)" and "\<not> ma_disableLogging ma"
    and "\<And>p. lh_create_directories (me_log env) p = Inr ()" and "\<And>p. lh_open (me_log env) p = Inr ()"
    and "\<And>p. me_create_directories env p = Inr ()" and "\<And>reg. me_problem env reg = Inr ()"
    and "me_solver env (controller_config_of ma) = Inr ()" and "me_worker env (worker_config_of env ma) = Inr ()"
    and "\<not> ma_runSOBenchmark ma \<and> \<not> ma_runMOBenchmark ma"
    and "is_exception e" and "me_default_work env (controller_config_of ma) = Inl e"
    and "\<And>reg. me_client_loop env (worker_config_of env ma) reg = Some e"
  shows "main env args reg = Some (Abort (Undefined_behaviour ''member of a null logger''))"
proof -
  obtain r1 where solver: "in_scope (me_log env) ''./logs/solver'' True (Inr ()) (Inl e) log_registry_new = (Inl e, r1)" "default_logger r1 = None"
    using logged_scope assms(3,4) by blast
  obtain r2 where worker: "in_scope (me_log env) ''./logs/worker'' True (Inr ()) (Inl e) log_registry_new = (Inl e, r2)" "default_logger r2 = None"
    using logged_scope assms(3,4) by blast
  have enabled: "\<not> cc_disableLogging (controller_config_of ma)" "\<not> wc_disableLogging (worker_config_of env ma)"
    using assms(2) by (simp_all add: controller_config_of_def worker_config_of_def Let_def)
  have "main_body env reg ma log_registry_new = Some (Abort (Undefined_behaviour ''member of a null logger''))"
    using assms(5-12) enabled solver worker
    by (simp add: main_body_def run_controller_def default_controller_task_def run_worker_def handler_crashes)
  then show ?thesis using assms(1,2) by (simp add: main_def)
qed

section \<open>Further consequences\<close>

text \<open>
  Both benchmarks in one run: the null logger of the first solver is still registered when the
  second one is made, so the second benchmark never runs.
\<close>

lemma second_benchmark_never_runs:
  assumes "me_solver env (c\<lparr>cc_expectedWorkerCount := get_so_algorithm_count\<rparr>) = Inr ()" and "me_so_work env c = Inr ()"
  shows "fst (benchmark_controller_task env reg True True c log_registry_new) = Inl null_logger_exists"
proof -
  obtain res r where r: "use_null_logger log_registry_new = (res, r)" by fastforce
  note null = null_logged_program [OF r]
  have "in_scope (me_log env) ''./logs/solver'' False (Inr ()) (Inr ()) log_registry_new = (Inr (), r)"
    using r null by (simp add: in_scope_def logger_control_new_def logger_control_destroy_def)
  then show ?thesis using assms null by (simp add: benchmark_controller_task_def null_logged_scope)
qed

text \<open>The command line is read outside of every handler.\<close>

lemma bad_number_aborts: "main env [''--worker'', ''--workers'', ''many''] reg = Some (Abort (Terminate ''exception left main''))"
  by (simp add: main_def parse_main_args_def set_flag_def set_value_def stoul_def isspace_def isdigit_def)

text \<open>
  The help names options that the command line knows, but not all of them. The option that asks
  for it is ignored: it is shown only when the program cannot start anyway.
\<close>

fun words_of :: "string \<Rightarrow> string \<Rightarrow> string list" where
  "words_of w [] = [rev w]"
| "words_of w (c # cs) = (if c = CHR 0x20 \<or> c = CHR 0x0A then rev w # words_of [] cs else words_of (c # w) cs)"

definition options_in :: "string \<Rightarrow> string list" where
  "options_in t = filter (\<lambda>w. take 2 w = ''--'') (words_of [] t)"

definition known_option :: "string \<Rightarrow> bool" where
  "known_option a \<longleftrightarrow> set_flag a main_args_default False \<noteq> None \<or> set_value a \<noteq> None"

lemma help_words:
  "options_in (print_help ''run_example'') =
    [''--controller'', ''--worker'', ''--disable-logging'', ''--benchmark-so'', ''--benchmark-mo'',
     ''--address'', ''--workers'', ''--strategy'', ''--cache-dir'',
     ''--address'', ''--mode'', ''--min-pop-size'', ''--cache-dir'', ''--worker-dir'', ''--no-worker-isolation'']"
  by code_simp

lemma help_options:
  "list_all known_option (options_in (print_help ''run_example''))"
  "known_option a \<Longrightarrow> a \<in> {''--help'', ''-h'', ''--benchmark''} \<or> a \<in> set (options_in (print_help ''run_example''))"
  unfolding help_words by (simp add: known_option_def set_flag_def set_value_def) (auto simp: known_option_def set_flag_def set_value_def split: if_splits)

lemma help_ignored: "a \<in> {''--help'', ''-h''} \<Longrightarrow> parse_loop (a # args) ma modeSet = parse_loop args ma modeSet"
  by (auto simp: set_flag_def)

lemma help_not_shown: "help_shown argv0 [''--worker'', ''--help''] = []"
  by (simp add: help_shown_def parse_main_args_def set_flag_def)

lemma help_shown_without_mode: "help_shown argv0 [''--help''] = print_help argv0"
  by (simp add: help_shown_def parse_main_args_def set_flag_def)

section \<open>Applying the properties\<close>

definition demo_main_env :: main_env where
  "demo_main_env = \<lparr>me_log = demo_log_host, me_problem = (\<lambda>reg. Inr ()), me_solver = (\<lambda>c. Inr ()),
     me_default_work = (\<lambda>c. Inl (Runtime_error ''no workers'')), me_so_work = (\<lambda>c. Inr ()), me_mo_work = (\<lambda>c. Inr ()),
     me_worker = (\<lambda>c. Inr ()), me_client_loop = (\<lambda>c reg. Some (Runtime_error ''no workers'')), me_provider = (\<lambda>n. Inr None),
     me_uuid = ''u'', me_create_directories = (\<lambda>p. Inr ())\<rparr>"

lemma demo_command_line:
  "parse_main_args [''--controller'', ''--disable-logging''] = Inr (Some (main_args_default\<lparr>isController := True, ma_disableLogging := True\<rparr>))"
  "parse_main_args [''--controller''] = Inr (Some (main_args_default\<lparr>isController := True\<rparr>))"
  by (simp_all add: parse_main_args_def set_flag_def)

theorem disable_logging_never_runs_witness:
  "main demo_main_env [''--controller'', ''--disable-logging''] (registry_new (\<lambda>q. None) []) = Some (Exit 2)"
  by (rule disable_logging_never_runs [OF demo_command_line(1)]) (simp_all add: demo_main_env_def ordinary_def)

theorem failing_work_crashes_program_witness:
  "main demo_main_env [''--controller''] (registry_new (\<lambda>q. None) []) = Some (Abort (Undefined_behaviour ''member of a null logger''))"
  by (rule failing_work_crashes_program [OF demo_command_line(2), where e = "Runtime_error ''no workers''"])
    (simp_all add: demo_main_env_def main_args_default_def demo_log_host_def)

end
