(* ===== verification/Test_Cases.thy ===== *)
theory Test_Cases
  imports Registry_Correct Worker_Info Population_Tools Messages
begin

text \<open>
  The test cases of the repository (\<^verbatim>\<open>test\<close>), run on the model: what a test requires of the program
  is proved of the definitions, with the calls of the test in the same order. Round trips of
  messages and settings, which the tests check on examples, are theorems elsewhere; tests that need
  threads or sockets are left out.
\<close>

section \<open>\<^verbatim>\<open>discovery/lru_cache_test.cpp\<close>\<close>

text \<open>The keys in a cache of the given capacity after some calls.\<close>

definition kept :: "nat \<Rightarrow> string cache_op list \<Rightarrow> string list" where
  "kept n ops = filter (\<lambda>k. lru_contains k (snd (lru_run ops (lru_new n)))) [''key1'', ''key2'', ''key3'', ''key4'']"

definition puts :: "string list \<Rightarrow> string cache_op list" where
  "puts ks = map (\<lambda>k. Put k ''val'') ks"

lemma lru_put_operation:
  "kept 3 (puts [''key1'']) = [''key1'']"
  "kept 3 (puts [''key1'', ''key2'', ''key3'']) = [''key1'', ''key2'', ''key3'']"
  "last (fst (lru_run [Put ''key1'' ''value1'', Put ''key1'' ''updated'', Get ''key1''] (lru_new 3))) = Inr (Some ''updated'')"
  by code_simp+

lemma lru_get_operation:
  "last (fst (lru_run [Put ''key1'' ''value1'', Get ''key1''] (lru_new 3))) = Inr (Some ''value1'')"
  "kept 3 (puts [''key1'', ''key2'', ''key3''] @ [Get ''key1''] @ puts [''key4'']) = [''key1'', ''key3'', ''key4'']"
  "fst (lru_get ''missing'' (lru_new 3 :: string lru_cache)) = Inl (Out_of_range ''Key not found in lru_cache: missing'')"
  by code_simp+

lemma lru_contains_operation:
  "kept 2 (puts [''key1'']) = [''key1'']" "kept 2 [] = []" "kept 2 (puts [''key1'', ''key2'', ''key3'']) = [''key2'', ''key3'']"
  by code_simp+

lemma lru_eviction_policy:
  "kept 2 (puts [''key1'', ''key2''] @ [Get ''key1''] @ puts [''key3'']) = [''key1'', ''key3'']"
  "kept 2 (puts [''key1'', ''key2'', ''key1'', ''key3'']) = [''key1'', ''key3'']"
  by code_simp+

lemma lru_erase_operation:
  "kept 3 (puts [''key1''] @ [Erase ''key1'']) = []"
  "fst (lru_run [Erase ''missing''] (lru_new 3 :: string lru_cache)) = [Inr None]"
  "kept 3 (puts [''key1'', ''key2'', ''key3''] @ [Erase ''key1''] @ puts [''key4'']) = [''key2'', ''key3'', ''key4'']"
  by code_simp+

lemma lru_clear_and_edge_cases:
  "kept 3 (puts [''key1'', ''key2'', ''key3''] @ [Clear]) = []" "kept 1 (puts [''key1'', ''key2'']) = [''key2'']"
  "last (fst (lru_run [Put ''x'' (10 :: nat), Get ''x''] (lru_new 1))) = Inr (Some 10)"
  by code_simp+

section \<open>\<^verbatim>\<open>discovery/hash_cache_test.cpp\<close>, \<^verbatim>\<open>discovery/udp_registry_test.cpp\<close>\<close>

lemma hash_is_stored:
  "has_file ''file1'' (snd (hash_file ''file1'' data (hash_cache_new 5)))"
  "fst (get_file_hash ''file1'' (snd (hash_file ''file1'' data (hash_cache_new 5)))) = fst (map_prod (map_sum id Some) id (hash_file ''file1'' data (hash_cache_new 5)))"
  "fst (hash_file ''f1'' data (hash_cache_new 5)) = fst (hash_file ''f2'' data (hash_cache_new 5))"
  "fst (get_file_hash ''missing'' (hash_cache_new 5)) = Inr None" "\<not> has_file ''missing'' (hash_cache_new 5)"
  by (simp_all add: hash_file_def has_file_def get_file_hash_def hash_cache_new_def lru_new_def lru_put_def lru_get_def lru_contains_def Let_def)

lemma hash_is_erased:
  "\<not> has_file ''file1'' (hash_cache_erase ''file1'' (snd (hash_file ''file1'' data (hash_cache_new 5))))"
  "hash_cache_erase ''missing'' (hash_cache_new 5) = hash_cache_new 5"
  by (simp_all add: hash_file_def has_file_def hash_cache_erase_def hash_cache_new_def lru_new_def lru_put_def lru_erase_def lru_contains_def Let_def)

lemma hash_cache_capacity:
  "filter (\<lambda>n. has_file n (hc_run [Hash_file ''f1'' d1, Hash_file ''f2'' d2, Hash_file ''f3'' d3] (hash_cache_new 2)))
     [''f1'', ''f2'', ''f3''] = [''f2'', ''f3'']"
  by (simp add: hash_file_def has_file_def hash_cache_new_def lru_new_def lru_put_def lru_contains_def Let_def)

lemma missing_library:
  "fst (get_lib_as_file h ''nonexistent.dll'' (registry_new (\<lambda>p. None) [])) = Inr None"
  by (simp add: get_lib_as_file_def is_lib_in_cache_def exists_path_def registry_new_def)

section \<open>\<^verbatim>\<open>logic/worker_info_repository_test.cpp\<close>\<close>

text \<open>Times are in nanoseconds; the test sleeps 20, 10 or 5 milliseconds between two calls.\<close>

lemma workers_join_and_leave:
  "get_connected_workers (repo_run [Joined ''worker1''] worker_repo_new) = [''worker1'']"
  "get_worker_count (repo_run [Joined ''worker1'', Left ''worker1''] worker_repo_new) = 0"
  "get_worker_count (repo_run [Joined ''w1'', Joined ''w2'', Joined ''w3''] worker_repo_new) = 3"
  "get_worker_count (repo_run [Joined ''w1'', Joined ''w2'', Joined ''w3'', Left ''w2''] worker_repo_new) = 2"
  by code_simp+

lemma work_is_tracked:
  "case get_worker_info ''worker1'' (repo_run [Joined ''worker1'', Started 0 ''worker1'', Finished 20000000 ''worker1'' 50 ''DE'']
       worker_repo_new) of
     None \<Rightarrow> False | Some i \<Rightarrow> processedPopulation (totalStats i) = 50 \<and> 0 < workTime (totalStats i)"
  by code_simp

lemma work_is_tracked_by_algorithm:
  "case get_worker_info ''worker1'' (repo_run [Joined ''worker1'',
       Started 0 ''worker1'', Finished 5000000 ''worker1'' 100 ''DE'', Started 5000000 ''worker1'', Finished 10000000 ''worker1'' 150 ''DE'',
       Started 10000000 ''worker1'', Finished 15000000 ''worker1'' 50 ''PSO''] worker_repo_new) of
     None \<Rightarrow> False
   | Some i \<Rightarrow> processedPopulation (stats_of ''DE'' (statsByAlgorithm i)) = 250
       \<and> processedPopulation (stats_of ''PSO'' (statsByAlgorithm i)) = 50 \<and> processedPopulation (totalStats i) = 300"
  by code_simp

lemma unknown_workers:
  "get_worker_info ''unknown'' worker_repo_new = None"
  "\<exists>what. worker_started_work t ''unknown'' worker_repo_new = (Inl (Runtime_error what), worker_repo_new)"
  "\<exists>what. worker_finished_work t ''unknown'' 100 ''DE'' worker_repo_new = (Inl (Runtime_error what), worker_repo_new)"
  by (simp_all add: get_worker_info_def worker_started_work_def worker_finished_work_def worker_repo_new_def)

section \<open>\<^verbatim>\<open>messages/serialization_test.cpp\<close>, \<^verbatim>\<open>logic/population_tools_test.cpp\<close>\<close>

lemma empty_buffer_throws: "vector_deserialize parse [] = Inl (Runtime_error ''Error: Attempted to deserialize an empty buffer'')"
  by (simp add: vector_deserialize_def)

text \<open>An island of \<open>n\<close> individuals with one component each.\<close>

definition test_island :: "nat \<Rightarrow> nat \<times> int list list \<times> u32" where
  "test_island n = (1, map (\<lambda>i. [int (7 * i mod 5)]) [0..<n], 7)"

lemma islands_are_merged:
  "map_prod length length (merge_populations demo_pagmo [test_island 10]) = (10, 10)"
  "map_prod length length (merge_populations demo_pagmo [test_island 5, test_island 7, test_island 3]) = (15, 15)"
  by code_simp+

lemma individuals_are_selected:
  "map (\<lambda>n. map_sum id length (case merge_populations demo_pagmo [test_island 30] of
      (pops, fits) \<Rightarrow> select_best_N_individuals demo_pagmo id 1 pops fits n)) [10, 30, 0] = [Inr 10, Inr 30, Inr 0]"
  "(case merge_populations demo_pagmo [test_island 20] of
      (pops, fits) \<Rightarrow> select_best_individual demo_pagmo id 1 pops fits) = Inr [0]"
  by code_simp+

lemma selected_form_a_population:
  "(case merge_populations demo_pagmo [test_island 20] of
      (pops, fits) \<Rightarrow> map_sum id (\<lambda>q. pg_x demo_pagmo q) (select_best_N_into_new_population demo_pagmo id 0 1 pops fits 5 None))
    = Inr [[0], [0], [0], [0], [1]]"
  by code_simp

end
