(* ===== verification/Spec2Isabelle.thy ===== *)
theory Spec2Isabelle
  imports Cluster Solver_Correct Example_Problems Benchmark_Correct Main_Correct Test_Cases
begin

text \<open>
  \<^bold>\<open>Verification of the distributed metasolver\<close>

  The program evolves populations of pagmo on several machines. A \<^emph>\<open>solver\<close> builds an archipelago
  whose \<^emph>\<open>islands\<close> do not evolve their population themselves but send it, with the algorithm, to the
  \<^emph>\<open>controller\<close> of their process; the controller hands each piece of work to one of the \<^emph>\<open>workers\<close>
  that are connected, and passes the results back. A problem is compiled into a shared library. The
  \<^emph>\<open>registry\<close> of each process finds, loads and caches these libraries; a worker that has not got one,
  or has an outdated one, fetches it from the controller. What is sent is serialised into byte
  vectors and cut into ZeroMQ frames.

  \<^bold>\<open>Theories\<close> (paths below \<^verbatim>\<open>src/distributed\<close> unless noted), from the bottom up. A function, class or
  constructor has the name of the source where Isabelle allows it; a structure is a \<open>record\<close>.

  \<^item> \<open>Prelude\<close>: C++ failures as values, hash containers, POSIX paths.
  \<^item> \<open>Cache_Contract\<close>: the interface \<open>key_cache\<close> of a bounded cache, with what its users may rely on.
    \<open>Lru_Cache\<close> (\<^verbatim>\<open>discovery/include/lru_cache.h\<close>): the class with list nodes and iterators, its
    refinement of a list in order of use, and the interpretation of the interface.
  \<^item> \<open>Sha256\<close> (\<^verbatim>\<open>utils/sha256.cpp\<close>): the class; it computes the standard's hash, however the message is
    cut. \<open>Hash_Cache\<close> (\<^verbatim>\<open>discovery/hash_cache.cpp\<close>): digests by file name.
  \<^item> \<open>Lib_Loader\<close> (\<^verbatim>\<open>dynamic/include\<close>): one open library. \<open>Udp_Registry\<close>, \<open>Registry_Correct\<close>
    (\<^verbatim>\<open>discovery/udp_registry.cpp\<close>): finding, fetching, checking and replacing libraries; the caches
    agree with the files, and an outdated library is replaced.
  \<^item> \<open>Dll_Wrapper\<close> (\<^verbatim>\<open>discovery/udp_dll_wrapper.cpp\<close>, \<^verbatim>\<open>udp_base.h\<close>): the problem that pagmo sees, its
    copies and its serialisation.
  \<^item> \<open>Messages\<close> (\<^verbatim>\<open>messages\<close>, \<^verbatim>\<open>sockets/include/vector_*.h\<close>, \<^verbatim>\<open>utils/include/vector_*.h\<close>), \<open>Sockets\<close>
    (\<^verbatim>\<open>sockets\<close>): message types, containers, byte vectors, frames, with their round trips.
  \<^item> \<open>Worker_Info\<close>, \<open>Settings\<close>, \<open>Uuid\<close> (\<^verbatim>\<open>logic/worker_info_repository.cpp\<close>, \<^verbatim>\<open>logic/*settings*\<close>,
    \<^verbatim>\<open>utils/include/UUID.h\<close>): statistics of workers, structures kept in files, identifiers.
  \<^item> \<open>Controller\<close>, \<open>Controller_Correct\<close> (\<^verbatim>\<open>logic/distributed_controller.cpp\<close>): handlers, allocation,
    server thread; scheduler invariant and conservation of work.
  \<^item> \<open>Population_Tools\<close> (\<^verbatim>\<open>logic/include/population_tools.h\<close>, \<^verbatim>\<open>utils/include/number_utils.h\<close>):
    merging and selecting individuals.
  \<^item> \<open>Worker\<close>, \<open>Worker_Correct\<close> (\<^verbatim>\<open>logic/distributed_worker.cpp\<close>): the process of a worker with its two
    threads; splitting, evolution, answers, and what ends the process.
  \<^item> \<open>Island\<close> (\<^verbatim>\<open>logic/distributed_island.cpp\<close>), \<open>Solver\<close>, \<open>Solver_Correct\<close>
    (\<^verbatim>\<open>logic/distributed_solver.cpp\<close>): one evolution by message; work plan, the archipelago that is
    built from it, and the result that waiting for it gives.
  \<^item> \<open>Machine\<close>: the locales \<open>machine\<close>, a state with guarded events and an invariant, and \<open>composed\<close>, a
    machine whose parts are machines again; what they prove of runs holds for server, workers and
    cluster. \<open>System\<close>: controller and one worker with the messages in flight. \<open>Results\<close>: what is
    computed for a piece of work and how it comes back. \<open>Cluster\<close>: the controller with all its workers.
  \<^item> \<open>Csv_Html\<close>, \<open>Path_Normalizer\<close>, \<open>Logger\<close> (\<^verbatim>\<open>utils\<close>), \<open>Benchmark\<close>, \<open>Benchmark_Correct\<close> (\<^verbatim>\<open>benchmark\<close>),
    \<open>Main_Program\<close>, \<open>Main_Correct\<close> (\<^verbatim>\<open>src/run_example/main.cpp\<close>): reports, file names, loggers,
    benchmarks, and the program with its command line and exit code. \<open>Example_Problems\<close>
    (\<^verbatim>\<open>src/run_example/problems\<close>): the two problems that come with the program. \<open>Test_Cases\<close>: the unit
    tests of the repository (\<^verbatim>\<open>test\<close>) that need neither threads nor sockets, run on the model.

  \<^bold>\<open>State and steps.\<close> A member function takes the state of its object, and of what it reaches, and
  returns the new one. One that can throw returns \<open>'a result\<close>, the error or the value, together with
  the state it leaves behind: a C++ exception does not roll anything back. Undefined behaviour and
  \<open>std::terminate\<close> are errors that no handler catches. A function that holds its mutex from the
  first statement to the last is one step (\<open>late_digest_is_stale\<close> shows what becomes of the one that
  does not); where threads interleave between statements the model has
  a step for each stretch (\<open>worker_step\<close>, \<open>sys_step\<close>), and the theorems hold for every interleaving.
  A call that waits for a message that is not there is \<open>None\<close>.

  \<^bold>\<open>Interfaces.\<close> Each locale states what one part promises to another and is interpreted on the model's
  own definitions: \<open>key_cache\<close> (the registry and the hash cache use a cache through it; \<open>Lru_Cache\<close>
  provides it), \<open>framed_socket\<close> (the receive loop, for dealer, pair and router sockets), \<open>machine\<close> and
  \<open>composed\<close> (server, worker, pair, cluster), and \<open>handler_law\<close> (laws that the handlers of a
  controller keep; from them follow laws of the whole server).

  \<^bold>\<open>Parameters.\<close> What is not under \<^verbatim>\<open>src\<close> is an argument of the model: the dynamic loader and the
  functions of a library (\<open>dl_api\<close>), decisions of the operating system (\<open>host\<close>, \<open>log_host\<close>), archives of
  Boost (an \<open>emit\<close>/\<open>parse\<close> pair), populations, sorts and evolution of pagmo (\<open>pagmo\<close>, \<open>wenv\<close>, \<open>ienv\<close>,
  \<open>senv\<close>, \<open>bench_env\<close>). What is documented of them is a named hypothesis: \<open>codec_ok\<close>, \<open>xml_ok\<close>,
  \<open>pagmo_ok\<close>, \<open>rearranges\<close>, \<open>round_ok\<close>. Clock, random numbers, the order in which a hash table is
  iterated, and memory left uninitialised are arguments too, so that every theorem holds for all of
  them. Each property with a hypothesis has a witness on concrete parameters.

  \<^bold>\<open>Bounds.\<close> Bytes, 32-bit words of the hash and 64-bit counters are words, which wrap around. Sizes of
  containers and populations are natural numbers: they are bounded by memory, far below \<open>2^64\<close>. A
  \<open>double\<close> is an element of a linear order where it is only compared, and a rounded rational where it
  is computed with (\<open>se_round\<close>, exact up to \<open>2^53\<close>). No definition uses fuel: loops are structural
  recursions, or the library's \<open>while\<close> with a proof that it ends.

  \<^bold>\<open>Properties.\<close> End to end, with workers that join and are lost at any time: an evolution that an
  island has done on the cluster ends as it would in the same process (\<open>distributed_evolution\<close>), the
  answers that islands get are results of their own work (\<open>islands_get_their_results\<close>), and no request
  is forgotten as long as a worker is left (\<open>every_request_is_answered\<close>). Conservation of work in the controller; controller and worker staying in service
  together and completing what was accepted; agreement of caches, files and digests; transfer of
  problems between processes; equivalence of the hash with the standard; refinement by the cache;
  round trips of messages, settings and command line; the selection, splitting and merging of
  populations; the shape of the work plan and an evolution of the solver from its start to its best
  individual; the reports. Where the code fails, theorems say when: a
  worker that joins while it is busy, unexpected results, a failed load, a hash that is kept when the
  cache directory changes, a population whose size is no multiple of four, cells that are empty or
  begin with a quote, logging that cannot be switched off, a write that fails
  when the stream is closed, a digest that is filed too late.

  \<^bold>\<open>Limits.\<close> For one environment an evolution, the order among equal fitnesses and the random
  numbers are functions of their arguments. Different workers have different environments, and a
  theorem holds for all of them, but two evolutions of the same population by the same worker give the
  same result in a run of the model, which pagmo does not promise. Whether the background evolution
  of the solver's archipelago has ended is part of the state a member function starts in; that it may
  end just before \<open>wait_until_completion\<close>, which then throws, is not a theorem but the first case of
  the definition.

  \<^bold>\<open>Not modelled.\<close> The vendored logging library and its formatter, except the registry functions that
  \<open>Logger\<close> needs: they are third-party code of which the program uses the documented interface; texts
  printed to the console and log messages; reconnection and loss inside ZeroMQ; a disk that
  fills up while settings are saved; data races on references handed out without a lock (\<open>get_connected_workers\<close>), for which
  every step is taken to be atomic.
\<close>

section \<open>Distributed evolution\<close>

text \<open>
  Reading back a serialised work container gives the container, or fails, whichever of the
  libraries \<open>prov\<close> of the controller the worker has received before.
\<close>

definition archives_agree :: "(string \<Rightarrow> bytes option) \<Rightarrow> ('a, 'pop) ienv \<Rightarrow> ('a, 'prob, 'pop, 'd) wenv \<Rightarrow> bool" where
  "archives_agree prov ienv env \<longleftrightarrow> we_emit env = ie_emit ienv
     \<and> (\<forall>received wct x. honest prov received
          \<and> loads_to prov (we_load env received (vector_serialize (ie_emit ienv) wct)) = Inr x \<longrightarrow> x = wct)"

lemma archives_agree_result:
  assumes "archives_agree prov ienv env" and "answer_to prov env wk (vector_serialize (ie_emit ienv) wct) b"
  shows "\<exists>res. run_work env wk wct = Inr res \<and> b = vector_serialize (ie_emit ienv) res"
proof -
  obtain received res where res: "honest prov received" "b = vector_serialize (ie_emit ienv) res"
      "work_result prov env wk (we_load env received (vector_serialize (ie_emit ienv) wct)) = Inr res"
    using assms by (auto simp: answer_to_def archives_agree_def)
  then obtain x where x: "loads_to prov (we_load env received (vector_serialize (ie_emit ienv) wct)) = Inr x" "run_work env wk x = Inr res"
    by (auto simp: work_result_def bind_result_def split: sum.splits)
  then have "x = wct" using assms(1) res(1) by (auto simp: archives_agree_def)
  then show ?thesis using x(2) res(2) by blast
qed

lemma served_member:
  assumes "served prov envs wks ws D c" and "(i, t, b) \<in> set (toIslands c)"
  shows "\<exists>x \<in> set D. fst x = i \<and> (\<exists>w \<in> ws. answer_to prov (envs w) (wks w) (snd x) b)"
proof -
  obtain n where n: "n < length (toIslands c)" "toIslands c ! n = (i, t, b)" using assms(2) by (auto simp: in_set_conv_nth)
  then have "n < length D" using assms(1) by (simp add: served_def list_all2_lengthD)
  moreover have "case D ! n of (j, d) \<Rightarrow> i = j \<and> t = WORK_RESULTS \<and> (\<exists>w \<in> ws. answer_to prov (envs w) (wks w) d b)"
    using assms(1) n list_all2_nthD2 [OF _ n(1), of _ D] unfolding served_def by fastforce
  ultimately show ?thesis by (intro bexI [of _ "D ! n"]) auto
qed

text \<open>The work that an island sends.\<close>

definition work_of :: "('a, 'pop) pagmo_island \<Rightarrow> distributed_island \<Rightarrow> ('a, 'pop) work_container" where
  "work_of isle d = work_container_new (il_algorithm isle) (il_population isle) (is_preferredWorkerId d) (is_cycleCount d)"

text \<open>
  C3: an evolution on the cluster is an evolution. Let an island ask for its work to be done, whatever
  else happens in the cluster (workers may join and be lost), and let the controller send it an answer. Then the island adopts the
  algorithm and the population that one of the workers gets by running the work of the island, as
  it would in the same process.
\<close>

theorem distributed_evolution:
  assumes "fresh_cluster e prov envs wks ws c" and "orderly (cl_step e envs wks) (cl_ok e ws) evs (cl_start c wks)"
    and "(is_islandId d, WORK_RESULTS, b) \<in> set (toIslands (ctrl (cl_server (runs (cl_step e envs wks) evs (cl_start c wks)))))"
    and "\<forall>x \<in># sum_list (map requests evs). fst x = is_islandId d \<longrightarrow> snd x = vector_serialize (ie_emit ienv) (work_of isle d)"
    and "\<forall>w \<in> ws. archives_agree prov ienv (envs w)" and "codec_ok (ie_emit ienv) (ie_parse ienv)"
    and "Safety_basic \<le> ie_algo_safety ienv (il_algorithm isle)" and "Safety_basic \<le> ie_problem_safety ienv (il_population isle)"
    and "ie_connect ienv ''ipc://distributed_controller_islands_socket'' = Inr ()" and "sk_partial (is_socket d) = []"
    and "sk_in (is_socket d) = int_frame (msg_int WORK_RESULTS) # b # rest"
  shows "\<exists>w \<in> ws. \<exists>res d'. run_work (envs w) (wks w) (work_of isle d) = Inr res
    \<and> run_evolve ienv isle d = Some (Inr (), isle\<lparr>il_population := pop res, il_algorithm := algo res\<rparr>, d')"
proof -
  let ?c = "ctrl (cl_server (runs (cl_step e envs wks) evs (cl_start c wks)))"
  have "cl_inv e prov envs wks ws (sum_list (map requests evs)) (runs (cl_step e envs wks) evs (cl_start c wks))"
    using cl_runs_inv [OF cl_start_inv [OF assms(1)] assms(2)] by simp
  then obtain D where D: "sum_list (map requests evs) = mset D + outstanding ?c" "served prov envs wks ws D ?c"
    by (auto simp: cl_inv_def)
  obtain x w where x: "x \<in> set D" "fst x = is_islandId d" and w: "w \<in> ws" "answer_to prov (envs w) (wks w) (snd x) b"
    using served_member [OF D(2) assms(3)] by auto
  have "x \<in># sum_list (map requests evs)" using x(1) unfolding D(1) by simp
  then have "snd x = vector_serialize (ie_emit ienv) (work_of isle d)" using assms(4) x(2) by blast
  then obtain res where "run_work (envs w) (wks w) (work_of isle d) = Inr res" and res: "b = vector_serialize (ie_emit ienv) res"
    using archives_agree_result [of prov ienv "envs w" "wks w" "work_of isle d" b] w assms(5) by auto
  moreover obtain d' where "run_evolve ienv isle d = Some (Inr (), isle\<lparr>il_population := pop res, il_algorithm := algo res\<rparr>, d')"
    using island_adopts_results [OF assms(6-10), of res rest] assms(11) res by blast
  ultimately show ?thesis using w(1) by blast
qed

section \<open>Applying the property\<close>

text \<open>The island \<open>isl\<close> asks, and the one worker evolves its population.\<close>

definition bit_island :: distributed_island where
  "bit_island = (distributed_island_default [])\<lparr>is_islandId := ''isl'',
     is_socket := socket_new\<lparr>sk_in := [int_frame (msg_int WORK_RESULTS), [1, 1, 1, 0]]\<rparr>\<rparr>"

definition bit_isle :: "(bool, bool) pagmo_island" where
  "bit_isle = \<lparr>il_algorithm = True, il_population = False\<rparr>"

lemma bit_work: "work_of bit_isle bit_island = work_container_new True False '''' 1"
  by (simp add: work_of_def bit_isle_def bit_island_def distributed_island_default_def)

lemma bit_archives: "archives_agree bit_libs demo_ienv bit_wenv"
  using bit_codec_ok
  by (auto simp: archives_agree_def demo_ienv_def bit_wenv_def bit_load_def codec_ok_def vector_serialize_bytes bit_libs_p split: if_splits)

lemma bit_result: "run_work bit_wenv bit_worker (work_container_new True False '''' 1) = Inr (work_container_new True True '''' 1)"
  by (simp add: run_work_def bit_worker_def single_threaded_worker_def bit_wenv_def work_container_new_def)

lemma bit_answer:
  assumes "answer_to bit_libs bit_wenv bit_worker (snd bit_request) b"
  shows "b = [1, 1, 1, 0]"
proof -
  have "snd bit_request = vector_serialize (ie_emit demo_ienv) (work_container_new True False [] 1)"
    by (simp add: bit_request_def demo_ienv_def)
  then show ?thesis
    using archives_agree_result [OF bit_archives, of bit_worker "work_container_new True False [] 1" b] assms bit_result
    by (auto simp: demo_ienv_def vector_serialize_bytes bit_emit_def work_container_new_def)
qed

text \<open>The island is answered although a worker was lost.\<close>

lemma bit_answered:
  "\<exists>evs. orderly bit_step (cl_ok bit_env {''v'', ''w''}) evs bit_cluster \<and> sum_list (map requests evs) = {#bit_request#}
    \<and> (''isl'', WORK_RESULTS, [1, 1, 1, 0]) \<in> set (toIslands (ctrl (cl_server (runs bit_step evs bit_cluster))))"
proof -
  have inv: "cl_inv bit_env bit_libs (\<lambda>_. bit_wenv) (\<lambda>_. bit_worker) {''v'', ''w''} {#bit_request#} (runs bit_step bit_events bit_cluster)"
    using cl_runs_inv [OF cl_start_inv [OF bit_fresh] bit_orderly] by (simp add: bit_asked_once)
  obtain more where more: "orderly bit_step (cl_ok bit_env {''v'', ''w''}) more (runs bit_step bit_events bit_cluster)"
      "sum_list (map requests more) = {#}"
      "outstanding (ctrl (cl_server (runs bit_step more (runs bit_step bit_events bit_cluster)))) = {#}"
    using all_answered [OF inv] bit_left by auto
  have "cl_inv bit_env bit_libs (\<lambda>_. bit_wenv) (\<lambda>_. bit_worker) {''v'', ''w''} {#bit_request#}
      (runs bit_step more (runs bit_step bit_events bit_cluster))"
    using cl_runs_inv [OF inv more(1)] more(2) by simp
  then obtain D where D: "{#bit_request#} = mset D" "served bit_libs (\<lambda>_. bit_wenv) (\<lambda>_. bit_worker) {''v'', ''w''} D
      (ctrl (cl_server (runs bit_step more (runs bit_step bit_events bit_cluster))))"
    using more(3) by (auto simp: cl_inv_def)
  from D(1) have "D = [bit_request]" by simp
  then obtain b where "toIslands (ctrl (cl_server (runs bit_step more (runs bit_step bit_events bit_cluster)))) = [(''isl'', WORK_RESULTS, b)]"
      "answer_to bit_libs bit_wenv bit_worker (snd bit_request) b"
    using D(2) by (auto simp: served_def bit_request_def list_all2_Cons1)
  then show ?thesis using bit_orderly more(1,2) bit_answer bit_asked_once
    by (intro exI [of _ "bit_events @ more"]) auto
qed

theorem distributed_evolution_witness:
  "\<exists>d'. run_evolve demo_ienv bit_isle bit_island = Some (Inr (), \<lparr>il_algorithm = True, il_population = True\<rparr>, d')"
proof -
  obtain evs where evs: "orderly bit_step (cl_ok bit_env {''v'', ''w''}) evs bit_cluster" "sum_list (map requests evs) = {#bit_request#}"
      "(''isl'', WORK_RESULTS, [1, 1, 1, 0]) \<in> set (toIslands (ctrl (cl_server (runs bit_step evs bit_cluster))))"
    using bit_answered by blast
  have "\<exists>w \<in> {''v'', ''w''}. \<exists>res d'. run_work bit_wenv bit_worker (work_of bit_isle bit_island) = Inr res
    \<and> run_evolve demo_ienv bit_isle bit_island
        = Some (Inr (), bit_isle\<lparr>il_population := pop res, il_algorithm := algo res\<rparr>, d')"
    by (rule distributed_evolution [OF bit_fresh evs(1), of _ "[1, 1, 1, 0]" _ _ "[]"])
      (use evs(2,3) bit_archives bit_codec_ok in \<open>simp_all add: bit_work, simp_all add: bit_island_def bit_request_def
        demo_ienv_def less_eq_thread_safety_def socket_new_def\<close>)
  then obtain res d' where r: "run_work bit_wenv bit_worker (work_of bit_isle bit_island) = Inr res"
      "run_evolve demo_ienv bit_isle bit_island
        = Some (Inr (), bit_isle\<lparr>il_population := pop res, il_algorithm := algo res\<rparr>, d')"
    by blast
  have "res = work_container_new True True [] 1" using r(1) by (simp add: bit_work bit_result)
  then show ?thesis using r(2) by (simp add: work_container_new_def bit_isle_def)
qed

end
